(* ===== verification/Slumlord_Prelude.thy ===== *)
theory Slumlord_Prelude
  imports Complex_Main "HOL-Library.AList" "HOL-Library.Char_ord" "HOL-Library.List_Lexorder"
begin

text \<open>
  What every component of the development shares: Go maps as association lists, machine
  integers written out with their wrap-around, decimal printing and parsing, sequences of
  fallible steps, and the collections of simplification rules the component proofs use.
\<close>

named_theorems key_simps \<open>what an operation leaves unchanged in an object's identity\<close>
named_theorems wake_simps \<open>how an object restored after sleep compares with the original\<close>

section \<open>Go maps\<close>

text \<open>
  A Go \<open>map[string]string\<close> is an association list: the list order is the order in which a
  \<open>range\<close> statement visits the entries, which Go leaves open, so theorems never depend on
  it. Reading a missing key of such a map gives the empty string, never an error; a nil map
  reads like an empty one.
\<close>

type_synonym smap = "(string \<times> string) list"

definition gget :: "smap \<Rightarrow> string \<Rightarrow> string" where
  "gget m k = (case map_of m k of None \<Rightarrow> [] | Some v \<Rightarrow> v)"

text \<open>The loop \<open>for k, v := range sel { if m[k] != v { return false } }; return true\<close>.\<close>

definition gmatches :: "smap \<Rightarrow> smap \<Rightarrow> bool" where
  "gmatches sel m = list_all (\<lambda>(k, v). gget m k = v) sel"

lemma gmatches_Nil [simp]: "gmatches [] m"
  by (simp add: gmatches_def)

lemma gmatches_iff: "gmatches sel m \<longleftrightarrow> (\<forall>(k, v) \<in> set sel. gget m k = v)"
  by (simp add: gmatches_def list_all_iff)

lemma gget_update [simp]: "gget (AList.update k v m) k' = (if k = k' then v else gget m k')"
  by (simp add: gget_def update_conv')

lemma gget_delete [simp]: "gget (AList.delete k m) k' = (if k = k' then [] else gget m k')"
  by (simp add: gget_def delete_conv')

section \<open>Machine integers\<close>

text \<open>
  Go's fixed-width integers are kept as \<open>int\<close>; where a conversion or an operation can leave
  the range, the two's complement result is written out.
\<close>

definition s32 :: "int \<Rightarrow> int" where
  "s32 x = (x + 2 ^ 31) mod 2 ^ 32 - 2 ^ 31"

definition s64 :: "int \<Rightarrow> int" where
  "s64 x = (x + 2 ^ 63) mod 2 ^ 64 - 2 ^ 63"

lemma s32_id: "- (2 ^ 31) \<le> x \<Longrightarrow> x < 2 ^ 31 \<Longrightarrow> s32 x = x"
  by (simp add: s32_def)

lemma s64_id: "- (2 ^ 63) \<le> x \<Longrightarrow> x < 2 ^ 63 \<Longrightarrow> s64 x = x"
  by (simp add: s64_def)

lemma s32_range: "- (2 ^ 31) \<le> s32 x \<and> s32 x < 2 ^ 31"
proof -
  have "0 \<le> (x + 2147483648) mod 4294967296" and "(x + 2147483648) mod 4294967296 < (4294967296 :: int)"
    by simp_all
  then show ?thesis by (simp add: s32_def)
qed

text \<open>
  Go's integer division truncates towards zero; a zero divisor panics, and every division
  of the modelled code is guarded against it.
\<close>

definition go_div :: "int \<Rightarrow> int \<Rightarrow> int" where
  "go_div a b = sgn a * sgn b * (\<bar>a\<bar> div \<bar>b\<bar>)"

lemma go_div_nonneg: "0 \<le> a \<Longrightarrow> 0 < b \<Longrightarrow> go_div a b = a div b"
  by (cases "a = 0") (simp_all add: go_div_def)

section \<open>Decimal numbers\<close>

definition is_digit :: "char \<Rightarrow> bool" where
  "is_digit c \<longleftrightarrow> 48 \<le> (of_char c :: nat) \<and> (of_char c :: nat) \<le> 57"

definition digit_val :: "char \<Rightarrow> nat" where
  "digit_val c = of_char c - 48"

definition digit_char :: "nat \<Rightarrow> char" where
  "digit_char d = char_of (d + 48)"

lemma digit_char_digit: "d < 10 \<Longrightarrow> is_digit (digit_char d)"
  by (simp add: is_digit_def digit_char_def)

lemma digit_val_char: "d < 10 \<Longrightarrow> digit_val (digit_char d) = d"
  by (simp add: digit_val_def digit_char_def)

lemma digit_val_less: "is_digit c \<Longrightarrow> digit_val c < 10"
  unfolding is_digit_def digit_val_def by linarith

text \<open>Decimal printing, as \<open>strconv.AppendInt\<close> and \<open>%d\<close> print an integer.\<close>

fun show_nat :: "nat \<Rightarrow> string" where
  "show_nat n = (if n < 10 then [digit_char n] else show_nat (n div 10) @ [digit_char (n mod 10)])"

declare show_nat.simps [simp del]

definition show_int :: "int \<Rightarrow> string" where
  "show_int i = (if i < 0 then CHR ''-'' # show_nat (nat (- i)) else show_nat (nat i))"

definition digits_val :: "string \<Rightarrow> nat" where
  "digits_val s = foldl (\<lambda>a c. 10 * a + digit_val c) 0 s"

lemma show_nat_digits: "list_all is_digit (show_nat n)"
proof (induction n rule: show_nat.induct)
  case (1 n)
  then show ?case by (auto simp: show_nat.simps [of n] digit_char_digit)
qed

lemma show_nat_nonempty [simp]: "show_nat n \<noteq> []"
  by (simp add: show_nat.simps [of n])

lemma digits_val_show_nat: "digits_val (show_nat n) = n"
proof (induction n rule: show_nat.induct)
  case (1 n)
  show ?case
  proof (cases "n < 10")
    case True
    then show ?thesis by (simp add: show_nat.simps [of n] digits_val_def digit_val_char)
  next
    case False
    with 1 show ?thesis
      by (simp add: show_nat.simps [of n] digits_val_def digit_val_char)
  qed
qed

section \<open>Steps that may fail\<close>

text \<open>
  A method of the reconcilers that returns \<open>error\<close> and mutates what it is given is a
  function from a state to an error option and the new state: the state survives an error, as
  the objects behind Go's pointers do. \<open>run_steps\<close> is a sequence of such calls, each
  followed by \<open>if err != nil { return err }\<close>.
\<close>

fun run_steps :: "('s \<Rightarrow> 'e option \<times> 's) list \<Rightarrow> 's \<Rightarrow> 'e option \<times> 's" where
  "run_steps [] s = (None, s)"
| "run_steps (f # fs) s =
     (case f s of
        (Some e, s') \<Rightarrow> (Some e, s')
      | (None, s') \<Rightarrow> run_steps fs s')"

lemma run_steps_append:
  "run_steps (fs @ gs) s =
     (case run_steps fs s of (Some e, s') \<Rightarrow> (Some e, s') | (None, s') \<Rightarrow> run_steps gs s')"
  by (induction fs arbitrary: s) (auto split: prod.splits option.splits)

text \<open>An invariant of every step is an invariant of the sequence, whatever its outcome.\<close>

lemma run_steps_invariant:
  assumes "\<And>f s r s'. f \<in> set fs \<Longrightarrow> P s \<Longrightarrow> f s = (r, s') \<Longrightarrow> P s'"
    and "P s" and "run_steps fs s = (r, s')"
  shows "P s'"
  using assms
proof (induction fs arbitrary: s)
  case Nil
  then show ?case by simp
next
  case (Cons f fs)
  obtain r1 s1 where f: "f s = (r1, s1)" by (cases "f s")
  with Cons.prems have P1: "P s1" by auto
  show ?case
  proof (cases r1)
    case None
    with Cons.prems f have "run_steps fs s1 = (r, s')" by simp
    then show ?thesis using Cons.IH [OF _ P1] Cons.prems(1) by (meson list.set_intros(2))
  next
    case (Some e)
    with Cons.prems f P1 show ?thesis by simp
  qed
qed

text \<open>
  The same with the two outcomes told apart: \<open>P\<close> holds as long as no step has failed, \<open>Q\<close>
  after the step that fails.
\<close>

lemma run_steps_outcome:
  assumes "\<And>f s r s'. f \<in> set fs \<Longrightarrow> P s \<Longrightarrow> f s = (r, s') \<Longrightarrow> (case r of None \<Rightarrow> P s' | Some e \<Rightarrow> Q e s')"
    and "P s" and "run_steps fs s = (r, s')"
  shows "case r of None \<Rightarrow> P s' | Some e \<Rightarrow> Q e s'"
  using assms
proof (induction fs arbitrary: s)
  case Nil
  then show ?case by auto
next
  case (Cons f fs)
  obtain r1 s1 where f: "f s = (r1, s1)" by (cases "f s")
  have post: "case r1 of None \<Rightarrow> P s1 | Some e \<Rightarrow> Q e s1"
    by (rule Cons.prems(1) [of f s r1 s1]) (simp_all add: Cons.prems(2) f)
  show ?case
  proof (cases r1)
    case None
    with Cons.prems f have "run_steps fs s1 = (r, s')" by simp
    moreover have "P s1" using post None by simp
    ultimately show ?thesis using Cons.prems(1) by (intro Cons.IH) (meson list.set_intros(2))+
  next
    case (Some e)
    with Cons.prems f post show ?thesis by auto
  qed
qed

end
