(* ===== verification/Go_Time.thy ===== *)
theory Go_Time
  imports Slumlord_Prelude
begin

text \<open>
  The part of Go's \<open>time\<close> package the controllers use. An instant (\<open>time.Time\<close>) is the
  number of nanoseconds since 1970-01-01 00:00 UTC. A \<open>*time.Location\<close> is the function
  that gives the offset from UTC, in seconds, in force at a Unix second; the time zone
  database behind \<open>time.LoadLocation\<close> is a parameter of the model. A calendar date is
  its day number counted from 1970-01-01, which year, month and day of month determine and
  are determined by; nothing in the controllers looks at them separately.
\<close>

type_synonym instant = int
type_synonym duration = int
type_synonym location = "int \<Rightarrow> int"

abbreviation second :: duration where "second \<equiv> 1000000000"
abbreviation minute :: duration where "minute \<equiv> 60 * second"
abbreviation secs_per_day :: int where "secs_per_day \<equiv> 86400"

definition utc :: location where
  "utc = (\<lambda>_. 0)"

text \<open>\<open>t.Sub(u)\<close>: a \<open>Duration\<close> is an \<open>int64\<close>, and the difference saturates.\<close>

definition time_sub :: "instant \<Rightarrow> instant \<Rightarrow> duration" where
  "time_sub t u = max (- (2 ^ 63)) (min (2 ^ 63 - 1) (t - u))"

section \<open>Clock and calendar readings\<close>

definition unix_sec :: "instant \<Rightarrow> int" where
  "unix_sec t = t div second"

definition local_sec :: "location \<Rightarrow> instant \<Rightarrow> int" where
  "local_sec loc t = unix_sec t + loc (unix_sec t)"

text \<open>\<open>Year\<close>, \<open>Month\<close>, \<open>Day\<close> together; \<open>Weekday\<close> (0 is Sunday); \<open>Hour\<close>; \<open>Minute\<close>.\<close>

definition day_number :: "location \<Rightarrow> instant \<Rightarrow> int" where
  "day_number loc t = local_sec loc t div secs_per_day"

definition weekday_of_day :: "int \<Rightarrow> int" where
  "weekday_of_day d = (d + 4) mod 7"

definition weekday :: "location \<Rightarrow> instant \<Rightarrow> int" where
  "weekday loc t = weekday_of_day (day_number loc t)"

definition hour_of :: "location \<Rightarrow> instant \<Rightarrow> int" where
  "hour_of loc t = (local_sec loc t mod secs_per_day) div 3600"

definition minute_of :: "location \<Rightarrow> instant \<Rightarrow> int" where
  "minute_of loc t = (local_sec loc t mod 3600) div 60"

text \<open>
  \<open>time.Date(y, mo, d, h, mi, 0, 0, loc)\<close>: the zone offset is looked up at the local time
  read as UTC, the result corrected by it, and the offset looked up again where the first one
  is not in force at the corrected time. Near a change of offset the result is therefore a
  time of one of the two zones involved.
\<close>

definition date_at :: "location \<Rightarrow> int \<Rightarrow> int \<Rightarrow> int \<Rightarrow> instant" where
  "date_at loc d h mi =
     (let l = d * secs_per_day + h * 3600 + mi * 60
      in (l - loc (l - loc l)) * second)"

section \<open>Parsing a time of day\<close>

text \<open>
  \<open>time.ParseInLocation(\"15:04\", s, loc)\<close>. The hour takes one or two digits (\<open>getnum\<close> not
  fixed), the minute exactly two; both are range-checked, and nothing may follow. The date of
  the result is January 1 of year 0, day number -719528.
\<close>

fun getnum :: "bool \<Rightarrow> string \<Rightarrow> (int \<times> string) option" where
  "getnum fixed [] = None"
| "getnum fixed [c] = (if is_digit c \<and> \<not> fixed then Some (int (digit_val c), []) else None)"
| "getnum fixed (c # d # r) =
     (if \<not> is_digit c then None
      else if \<not> is_digit d then (if fixed then None else Some (int (digit_val c), d # r))
      else Some (int (digit_val c) * 10 + int (digit_val d), r))"

definition parse_hhmm :: "string \<Rightarrow> (int \<times> int) option" where
  "parse_hhmm s =
     (case getnum False s of
        None \<Rightarrow> None
      | Some (h, r) \<Rightarrow>
          if 24 \<le> h then None
          else (case r of
                  [] \<Rightarrow> None
                | c # r' \<Rightarrow>
                    if c \<noteq> CHR '':'' then None
                    else (case getnum True r' of
                            None \<Rightarrow> None
                          | Some (mi, r'') \<Rightarrow>
                              if 60 \<le> mi then None
                              else if r'' \<noteq> [] then None
                              else Some (h, mi))))"

definition year_zero_day :: int where
  "year_zero_day = - 719528"

definition parse_in_location :: "string \<Rightarrow> location \<Rightarrow> instant option" where
  "parse_in_location s loc =
     map_option (\<lambda>(h, mi). date_at loc year_zero_day h mi) (parse_hhmm s)"

lemma getnum_nonneg: "getnum fixed s = Some (n, r) \<Longrightarrow> 0 \<le> n"
  by (induction fixed s rule: getnum.induct) (auto split: if_splits)

lemma parse_hhmm_range:
  "parse_hhmm s = Some (h, mi) \<Longrightarrow> 0 \<le> h \<and> h < 24 \<and> 0 \<le> mi \<and> mi < 60"
  by (auto simp: parse_hhmm_def split: option.splits list.splits if_splits)
    (auto dest!: getnum_nonneg)

section \<open>Zones away from a change of offset\<close>

text \<open>
  \<open>steady loc t o\<close>: the zone has the offset \<open>o\<close> for two days around the instant \<open>t\<close>.
  \<open>has_year_zero loc\<close>: its offset (local mean time, for a zone of the database) is constant
  around January 1 of year 0, where the parsed times lie.
\<close>

definition steady :: "location \<Rightarrow> instant \<Rightarrow> int \<Rightarrow> bool" where
  "steady loc t ofs \<longleftrightarrow>
     \<bar>ofs\<bar> < secs_per_day \<and>
     (\<forall>x. \<bar>x - unix_sec t\<bar> \<le> 3 * secs_per_day \<longrightarrow> loc x = ofs)"

definition has_year_zero :: "location \<Rightarrow> bool" where
  "has_year_zero loc \<longleftrightarrow>
     (\<exists>ofs. \<bar>ofs\<bar> < secs_per_day \<and>
       (\<forall>x. \<bar>x - year_zero_day * secs_per_day\<bar> \<le> 3 * secs_per_day \<longrightarrow> loc x = ofs))"

lemma steady_const: "\<bar>ofs\<bar> < secs_per_day \<Longrightarrow> steady (\<lambda>_. ofs) t ofs"
  by (simp add: steady_def)

lemma has_year_zero_const: "\<bar>ofs\<bar> < secs_per_day \<Longrightarrow> has_year_zero (\<lambda>_. ofs)"
  by (auto simp: has_year_zero_def)

lemma steady_utc: "steady utc t 0"
  by (simp add: utc_def steady_const)

lemma has_year_zero_utc: "has_year_zero utc"
  using has_year_zero_const [of 0] by (simp add: utc_def)

text \<open>The hour and minute that were parsed are the ones read back.\<close>

lemma hour_minute_of_parsed:
  assumes "has_year_zero loc" and "parse_hhmm s = Some (h, mi)"
  shows "\<exists>u. parse_in_location s loc = Some u \<and> hour_of loc u = h \<and> minute_of loc u = mi"
proof -
  from assms(1) obtain ofs where b: "\<bar>ofs\<bar> < secs_per_day"
    and const: "\<And>x. \<bar>x - year_zero_day * secs_per_day\<bar> \<le> 3 * secs_per_day \<Longrightarrow> loc x = ofs"
    by (auto simp: has_year_zero_def)
  from parse_hhmm_range [OF assms(2)] have r: "0 \<le> h" "h < 24" "0 \<le> mi" "mi < 60"
    by auto
  define l where "l = year_zero_day * secs_per_day + h * 3600 + mi * 60"
  have l: "\<bar>l - year_zero_day * secs_per_day\<bar> \<le> secs_per_day"
    using r by (simp add: l_def)
  have "loc l = ofs" and "loc (l - ofs) = ofs"
    using l b by (auto intro!: const)
  then have d: "date_at loc year_zero_day h mi = (l - ofs) * second"
    by (simp add: date_at_def Let_def l_def)
  have us: "unix_sec ((l - ofs) * second) = l - ofs"
    by (simp add: unix_sec_def)
  have ls: "local_sec loc ((l - ofs) * second) = l"
    unfolding local_sec_def us by (simp add: \<open>loc (l - ofs) = ofs\<close>)
  have "l = (h * 3600 + mi * 60) + year_zero_day * secs_per_day"
    by (simp add: l_def)
  then have "l mod secs_per_day = (h * 3600 + mi * 60) mod secs_per_day"
    by (simp only: mod_mult_self1)
  also have "\<dots> = h * 3600 + mi * 60"
    using r by (intro mod_pos_pos_trivial) linarith+
  finally have "l mod secs_per_day = h * 3600 + mi * 60" .
  then have "hour_of loc ((l - ofs) * second) = h"
    using r unfolding hour_of_def ls by simp
  moreover have "l mod 3600 = mi * 60"
  proof -
    have "l = mi * 60 + (year_zero_day * 24 + h) * 3600"
      by (simp add: l_def)
    then have "l mod 3600 = (mi * 60) mod 3600"
      by (simp only: mod_mult_self1)
    also have "\<dots> = mi * 60"
      using r by (intro mod_pos_pos_trivial) linarith+
    finally show ?thesis .
  qed
  then have "minute_of loc ((l - ofs) * second) = mi"
    using r unfolding minute_of_def ls by simp
  ultimately show ?thesis
    using assms(2) by (simp add: parse_in_location_def d)
qed

text \<open>A date of a day next to a steady instant is its local time less the offset.\<close>

lemma date_at_steady:
  assumes "steady loc t ofs" and "0 \<le> h" "h < 24" "0 \<le> mi" "mi < 60"
  shows "date_at loc (day_number loc t) h mi =
    (day_number loc t * secs_per_day + h * 3600 + mi * 60 - ofs) * second"
proof -
  define u where "u = unix_sec t"
  from assms(1) have b: "\<bar>ofs\<bar> < secs_per_day"
    and c: "\<And>x. \<bar>x - u\<bar> \<le> 3 * secs_per_day \<Longrightarrow> loc x = ofs"
    by (auto simp: steady_def u_def)
  have "loc u = ofs" by (rule c) simp
  then have dn: "day_number loc t = (u + ofs) div secs_per_day"
    by (simp add: day_number_def local_sec_def u_def)
  define l where "l = day_number loc t * secs_per_day + h * 3600 + mi * 60"
  have "\<bar>l - (u + ofs)\<bar> \<le> secs_per_day"
    using assms(2-5) unfolding l_def dn by simp
  then have "\<bar>l - u\<bar> \<le> 3 * secs_per_day" and "\<bar>(l - ofs) - u\<bar> \<le> 3 * secs_per_day"
    using b by auto
  then have "loc l = ofs" and "loc (l - ofs) = ofs"
    by (auto intro: c)
  then show ?thesis by (simp add: date_at_def Let_def l_def)
qed

end
