(* ===== verification/Api_Types.thy ===== *)
theory Api_Types
  imports Go_Time
begin

text \<open>
  The custom resources of \<open>api/v1alpha1\<close>: one record per Go struct, with its optional
  fields (Go pointers) as options. Object metadata is reduced to the fields the controllers
  read or write. \<open>metav1.Duration\<close> and \<open>metav1.Time\<close> are nanosecond counts.
\<close>

section \<open>Conditions\<close>

record condition =
  cd_type :: string
  cd_status :: string
  cd_generation :: int
  cd_transition :: "instant option"
  cd_reason :: string
  cd_message :: string

section \<open>SlumlordSleepSchedule\<close>

record sleep_window =
  sw_start :: string
  sw_end :: string
  sw_timezone :: string
  sw_days :: "int list"

record workload_selector =
  wsel_labels :: smap
  wsel_names :: "string list"
  wsel_types :: "string list"

record sleep_spec =
  ss_suspend :: bool
  ss_selector :: workload_selector
  ss_schedule :: "sleep_window option"
  ss_schedules :: "sleep_window list"
  ss_interval :: "duration option"

record managed_workload =
  mw_kind :: string
  mw_name :: string
  mw_replicas :: "int option"
  mw_suspend :: "bool option"
  mw_hibernation :: "string option"
  mw_counts :: "string option"

record sleep_status =
  sst_sleeping :: bool
  sst_days_display :: string
  sst_managed :: "managed_workload list"
  sst_last_transition :: "instant option"
  sst_conditions :: "condition list"

record sleep_schedule =
  sch_name :: string
  sch_namespace :: string
  sch_labels :: smap
  sch_generation :: int
  sch_spec :: sleep_spec
  sch_status :: sleep_status

definition get_windows :: "sleep_spec \<Rightarrow> sleep_window list" where
  "get_windows s =
     (case ss_schedule s of None \<Rightarrow> [] | Some w \<Rightarrow> [w]) @ ss_schedules s"

text \<open>
  The validation pattern of \<open>SleepWindow.Start\<close> and \<open>SleepWindow.End\<close>,
  \<open>^([01]?[0-9]|2[0-3]):[0-5][0-9]$\<close>.
\<close>

fun hhmm_pattern :: "string \<Rightarrow> bool" where
  "hhmm_pattern [h, c, a, b] =
     (is_digit h \<and> c = CHR '':'' \<and> is_digit a \<and> digit_val a < 6 \<and> is_digit b)"
| "hhmm_pattern [t, h, c, a, b] =
     (((t = CHR ''0'' \<or> t = CHR ''1'') \<and> is_digit h
        \<or> t = CHR ''2'' \<and> is_digit h \<and> digit_val h < 4)
      \<and> c = CHR '':'' \<and> is_digit a \<and> digit_val a < 6 \<and> is_digit b)"
| "hhmm_pattern _ = False"

end
