(* ===== verification/Kube_Client.thy ===== *)
theory Kube_Client
  imports Api_Types
begin

text \<open>
  What the controllers see of the Kubernetes API: objects, errors and the client. An object
  keeps the fields some controller reads or writes. A custom resource is handled as
  unstructured JSON, as the code handles it. The client is a record of functions over a
  state \<open>'w\<close> of the cluster, and a parameter of every operation: the API server and the
  controller-runtime client are not part of the repository. Reads do not change the cluster.
\<close>

section \<open>Errors\<close>

text \<open>
  The errors the controllers tell apart (\<open>apierrors.IsNotFound\<close>, \<open>meta.IsNoMatchError\<close>);
  every other one is \<open>ErrOther\<close>, a conflict on an outdated resource version included.
\<close>

datatype kerr = ErrNotFound | ErrNoMatch | ErrOther string

definition is_not_found :: "kerr \<Rightarrow> bool" where
  "is_not_found e \<longleftrightarrow> e = ErrNotFound"

definition is_no_match :: "kerr \<Rightarrow> bool" where
  "is_no_match e \<longleftrightarrow> e = ErrNoMatch"

definition ignore_not_found :: "kerr \<Rightarrow> kerr option" where
  "ignore_not_found e = (if is_not_found e then None else Some e)"

text \<open>What a \<open>Reconcile\<close> method returns: \<open>RequeueAfter\<close> and an error, or a panic.\<close>

datatype result = Done duration "kerr option" | Panic

section \<open>Unstructured JSON\<close>

text \<open>
  The values \<open>unstructured.Unstructured\<close> holds after decoding: numbers are \<open>int64\<close> or
  \<open>float64\<close>, whose finite values are rationals.
\<close>

datatype jval =
    JNull
  | JBool bool
  | JInt int
  | JFloat rat
  | JStr string
  | JArr "jval list"
  | JObj "(string \<times> jval) list"

type_synonym jobj = "(string \<times> jval) list"

text \<open>The type assertions \<open>v.(map[string]interface{})\<close>, \<open>v.([]interface{})\<close>, \<open>v.(string)\<close>.\<close>

definition as_obj :: "jval option \<Rightarrow> jobj option" where
  "as_obj v = (case v of Some (JObj m) \<Rightarrow> Some m | _ \<Rightarrow> None)"

definition as_arr :: "jval option \<Rightarrow> jval list" where
  "as_arr v = (case v of Some (JArr xs) \<Rightarrow> xs | _ \<Rightarrow> [])"

definition as_str :: "jval option \<Rightarrow> string" where
  "as_str v = (case v of Some (JStr s) \<Rightarrow> s | _ \<Rightarrow> [])"

definition as_bool :: "jval option \<Rightarrow> bool option" where
  "as_bool v = (case v of Some (JBool b) \<Rightarrow> Some b | _ \<Rightarrow> None)"

text \<open>
  Go's conversions to \<open>int32\<close> and \<open>int64\<close>. From \<open>int64\<close> to \<open>int32\<close> the value wraps. A
  \<open>float64\<close> is truncated towards zero; where the result is out of range the language leaves
  it to the implementation, here \<open>fc\<close>, from the width in bits and the number.
\<close>

type_synonym float_conv = "nat \<Rightarrow> rat \<Rightarrow> int"

definition truncate_rat :: "rat \<Rightarrow> int" where
  "truncate_rat r = (if r < 0 then - \<lfloor>- r\<rfloor> else \<lfloor>r\<rfloor>)"

definition float_to_int :: "float_conv \<Rightarrow> nat \<Rightarrow> rat \<Rightarrow> int" where
  "float_to_int fc bits r =
     (let z = truncate_rat r
      in if - (2 ^ (bits - 1)) \<le> z \<and> z < 2 ^ (bits - 1) then z else fc bits r)"

text \<open>
  The type switch \<open>case int64: int32(v); case float64: int32(v)\<close>, and its \<open>int64\<close> form.
  Any other type is \<open>None\<close>.
\<close>

definition num32 :: "float_conv \<Rightarrow> jval option \<Rightarrow> int option" where
  "num32 fc v =
     (case v of
        Some (JInt i) \<Rightarrow> Some (s32 i)
      | Some (JFloat r) \<Rightarrow> Some (float_to_int fc 32 r)
      | _ \<Rightarrow> None)"

definition num64 :: "float_conv \<Rightarrow> jval option \<Rightarrow> int option" where
  "num64 fc v =
     (case v of
        Some (JInt i) \<Rightarrow> Some i
      | Some (JFloat r) \<Rightarrow> Some (float_to_int fc 64 r)
      | _ \<Rightarrow> None)"

lemma num32_num64_int:
  "- (2 ^ 31) \<le> i \<Longrightarrow> i < 2 ^ 31 \<Longrightarrow> num32 fc (Some (JInt i)) = num64 fc (Some (JInt i))"
  by (simp add: num32_def num64_def s32_id)

section \<open>Objects\<close>

text \<open>A \<open>metav1.LabelSelector\<close>: required labels, and expressions (key, operator, values).\<close>

datatype label_selector = LabelSelector smap "(string \<times> string \<times> string list) list"

text \<open>
  The type of \<open>metav1.LabelSelectorAsSelector\<close>, a parameter: \<open>None\<close> is an invalid selector,
  otherwise the test on a set of labels.
\<close>

type_synonym selector_of = "label_selector \<Rightarrow> (smap \<Rightarrow> bool) option"

record obj_meta =
  om_name :: string
  om_namespace :: string
  om_labels :: smap
  om_annotations :: "smap option"

text \<open>
  The body of a workload: a Deployment or StatefulSet with its replicas and pod selector, a
  CronJob with its suspend flag, or the content of an unstructured object.
\<close>

datatype body =
    Scalable "int option" "label_selector option"
  | Cron "bool option"
  | Custom jobj

text \<open>Group, version and kind.\<close>

type_synonym gvk = "string \<times> string \<times> string"

abbreviation gvk_kind :: "gvk \<Rightarrow> string" where
  "gvk_kind g \<equiv> snd (snd g)"

record kobj =
  ko_gvk :: gvk
  ko_meta :: obj_meta
  ko_body :: body

abbreviation ko_name :: "kobj \<Rightarrow> string" where
  "ko_name x \<equiv> om_name (ko_meta x)"

text \<open>The key of an object in the API: its type, namespace and name.\<close>

definition ko_key :: "kobj \<Rightarrow> gvk \<times> string \<times> string" where
  "ko_key x = (ko_gvk x, om_namespace (ko_meta x), om_name (ko_meta x))"

section \<open>The client\<close>

text \<open>
  \<open>k_get\<close>: \<open>r.Get\<close>; \<open>k_list\<close>: \<open>r.List\<close> with \<open>InNamespace\<close> and \<open>MatchingLabels\<close>; \<open>k_update\<close>:
  \<open>r.Update\<close>; \<open>k_get_sched\<close>: \<open>r.Get\<close> of the schedule by namespace and name;
  \<open>k_update_status\<close>: \<open>r.Status().Update\<close> of the schedule, which on success overwrites the
  caller's copy with the server's answer, the returned schedule.
\<close>

record 'w kube =
  k_get :: "gvk \<Rightarrow> string \<Rightarrow> string \<Rightarrow> 'w \<Rightarrow> kerr + kobj"
  k_list :: "gvk \<Rightarrow> string \<Rightarrow> smap \<Rightarrow> 'w \<Rightarrow> kerr + kobj list"
  k_update :: "kobj \<Rightarrow> 'w \<Rightarrow> kerr option \<times> 'w"
  k_get_sched :: "string \<Rightarrow> string \<Rightarrow> 'w \<Rightarrow> kerr + sleep_schedule"
  k_update_status :: "sleep_schedule \<Rightarrow> 'w \<Rightarrow> (kerr + sleep_schedule) \<times> 'w"

end
