(* ===== verification/Json_Counts.thy ===== *)
theory Json_Counts
  imports Slumlord_Prelude
begin

text \<open>
  The JSON that \<open>status.managedWorkloads[].originalNodeSetCounts\<close> holds: what
  \<open>json.Marshal\<close> prints for a \<open>map[string]int32\<close>, and what \<open>json.Unmarshal\<close> reads back into
  one. Strings are byte strings in UTF-8. \<open>None\<close> is an error, of the syntax or of a value's
  type; the controller does not tell them apart.
\<close>

type_synonym counts = "(string \<times> int) list"

section \<open>Printing\<close>

definition hex_char :: "nat \<Rightarrow> char" where
  "hex_char d = (if d < 10 then char_of (d + 48) else char_of (d + 87))"

definition escape_char :: "char \<Rightarrow> string" where
  "escape_char c =
     (if c = CHR 0x22 \<or> c = CHR 0x5C then [CHR 0x5C, c]
      else if c = CHR 0x08 then [CHR 0x5C, CHR ''b'']
      else if c = CHR 0x0C then [CHR 0x5C, CHR ''f'']
      else if c = CHR 0x0A then [CHR 0x5C, CHR ''n'']
      else if c = CHR 0x0D then [CHR 0x5C, CHR ''r'']
      else if c = CHR 0x09 then [CHR 0x5C, CHR ''t'']
      else if of_char c < (32 :: nat) \<or> c \<in> {CHR ''<'', CHR ''>'', CHR ''&''}
      then [CHR 0x5C, CHR ''u'', CHR ''0'', CHR ''0'',
            hex_char (of_char c div 16), hex_char (of_char c mod 16)]
      else [c])"

text \<open>The line separators U+2028 and U+2029, three bytes in UTF-8, are escaped too.\<close>

fun escape_string :: "string \<Rightarrow> string" where
  "escape_string [] = []"
| "escape_string (c # r) =
     (if c = CHR 0xE2 \<and> (take 2 r = [CHR 0x80, CHR 0xA8] \<or> take 2 r = [CHR 0x80, CHR 0xA9])
      then [CHR 0x5C, CHR ''u'', CHR ''2'', CHR ''0'', CHR ''2'',
            (if r ! 1 = CHR 0xA8 then CHR ''8'' else CHR ''9'')] @ escape_string (drop 2 r)
      else escape_char c @ escape_string r)"

definition marshal_entry :: "string \<times> int \<Rightarrow> string" where
  "marshal_entry e = CHR 0x22 # escape_string (fst e) @ [CHR 0x22, CHR '':''] @ show_int (snd e)"

fun marshal_entries :: "counts \<Rightarrow> string" where
  "marshal_entries [] = []"
| "marshal_entries [e] = marshal_entry e"
| "marshal_entries (e # e' # es) = marshal_entry e @ CHR '','' # marshal_entries (e' # es)"

text \<open>\<open>json.Marshal\<close> visits the keys of a map in ascending order.\<close>

definition marshal_counts :: "counts \<Rightarrow> string" where
  "marshal_counts m = CHR ''{'' # marshal_entries (sort_key fst m) @ ''}''"

section \<open>Parsing\<close>

definition skip_ws :: "string \<Rightarrow> string" where
  "skip_ws = dropWhile (\<lambda>c. c \<in> {CHR '' '', CHR 0x09, CHR 0x0A, CHR 0x0D})"

definition hex_val :: "char \<Rightarrow> nat option" where
  "hex_val c =
     (let n = of_char c :: nat in
      if 48 \<le> n \<and> n \<le> 57 then Some (n - 48)
      else if 97 \<le> n \<and> n \<le> 102 then Some (n - 87)
      else if 65 \<le> n \<and> n \<le> 70 then Some (n - 55)
      else None)"

fun hex4 :: "string \<Rightarrow> (nat \<times> string) option" where
  "hex4 (a # b # c # d # r) =
     (case (hex_val a, hex_val b, hex_val c, hex_val d) of
        (Some w, Some x, Some y, Some z) \<Rightarrow> Some (((w * 16 + x) * 16 + y) * 16 + z, r)
      | _ \<Rightarrow> None)"
| "hex4 _ = None"

definition utf8 :: "nat \<Rightarrow> string" where
  "utf8 n =
     (if n < 0x80 then [char_of n]
      else if n < 0x800 then [char_of (0xC0 + n div 64), char_of (0x80 + n mod 64)]
      else if n < 0x10000
      then [char_of (0xE0 + n div 4096), char_of (0x80 + n div 64 mod 64), char_of (0x80 + n mod 64)]
      else [char_of (0xF0 + n div 262144), char_of (0x80 + n div 4096 mod 64),
            char_of (0x80 + n div 64 mod 64), char_of (0x80 + n mod 64)])"

text \<open>
  A Unicode escape, after its letter u: a surrogate pair is joined, an unpaired surrogate becomes
  U+FFFD and a following escape is left to be read on its own.
\<close>

definition unescape_u :: "string \<Rightarrow> (string \<times> string) option" where
  "unescape_u s =
     (case hex4 s of
        None \<Rightarrow> None
      | Some (n, r) \<Rightarrow>
          if 0xD800 \<le> n \<and> n < 0xE000
          then (case (if take 2 r = [CHR 0x5C, CHR ''u''] then hex4 (drop 2 r) else None) of
                  Some (m, r') \<Rightarrow>
                    if n < 0xDC00 \<and> 0xDC00 \<le> m \<and> m < 0xE000
                    then Some (utf8 (0x10000 + (n - 0xD800) * 1024 + (m - 0xDC00)), r')
                    else Some (utf8 0xFFFD, r)
                | None \<Rightarrow> Some (utf8 0xFFFD, r))
          else Some (utf8 n, r))"

definition unescape :: "string \<Rightarrow> (string \<times> string) option" where
  "unescape s =
     (case s of
        [] \<Rightarrow> None
      | c # r \<Rightarrow>
          if c \<in> {CHR 0x22, CHR 0x5C, CHR ''/''} then Some ([c], r)
          else if c = CHR ''b'' then Some ([CHR 0x08], r)
          else if c = CHR ''f'' then Some ([CHR 0x0C], r)
          else if c = CHR ''n'' then Some ([CHR 0x0A], r)
          else if c = CHR ''r'' then Some ([CHR 0x0D], r)
          else if c = CHR ''t'' then Some ([CHR 0x09], r)
          else if c = CHR ''u'' then unescape_u r
          else None)"

lemma hex4_shorter: "hex4 s = Some (n, r) \<Longrightarrow> length r < length s"
  by (cases s rule: hex4.cases) (auto split: option.splits)

lemma unescape_shorter: "unescape s = Some (x, r) \<Longrightarrow> length r < length s"
proof -
  assume "unescape s = Some (x, r)"
  then obtain c t where s: "s = c # t" and "r = t \<or> unescape_u t = Some (x, r)"
    by (auto simp: unescape_def split: list.splits if_splits)
  moreover have "unescape_u t = Some (x, r) \<Longrightarrow> length r < length t"
    unfolding unescape_u_def
    by (auto dest!: hex4_shorter split: option.splits prod.splits if_splits)
  ultimately show ?thesis by fastforce
qed

text \<open>The rest of a string literal after its opening quote.\<close>

function parse_string :: "string \<Rightarrow> (string \<times> string) option" where
  "parse_string [] = None"
| "parse_string (c # r) =
     (if c = CHR 0x22 then Some ([], r)
      else if c = CHR 0x5C
      then (case unescape r of
              None \<Rightarrow> None
            | Some (x, r') \<Rightarrow> map_option (\<lambda>(s, q). (x @ s, q)) (parse_string r'))
      else if of_char c < (32 :: nat) then None
      else map_option (\<lambda>(s, q). (c # s, q)) (parse_string r))"
  by pat_completeness auto
termination
  by (relation "measure length") (auto dest: unescape_shorter)

text \<open>
  A value of the map: an integer literal that fits \<open>int32\<close>, or \<open>null\<close>, which leaves the zero
  value. Every other value is an error.
\<close>

definition parse_digits :: "string \<Rightarrow> (nat \<times> string) option" where
  "parse_digits s =
     (let ds = takeWhile is_digit s; r = dropWhile is_digit s in
      if ds = [] \<or> (hd ds = CHR ''0'' \<and> tl ds \<noteq> []) then None
      else Some (digits_val ds, r))"

definition parse_value :: "string \<Rightarrow> (int \<times> string) option" where
  "parse_value s =
     (case s of
        [] \<Rightarrow> None
      | c # r \<Rightarrow>
          if take 4 s = ''null'' then Some (0, drop 4 s)
          else (case (if c = CHR ''-'' then parse_digits r else parse_digits s) of
                  None \<Rightarrow> None
                | Some (n, q) \<Rightarrow>
                    (let i = (if c = CHR ''-'' then - int n else int n) in
                     if - (2 ^ 31) \<le> i \<and> i < 2 ^ 31 then Some (i, q) else None)))"

definition expect :: "char \<Rightarrow> string \<Rightarrow> string option" where
  "expect c s = (case skip_ws s of [] \<Rightarrow> None | d # r \<Rightarrow> if c = d then Some r else None)"

definition parse_member :: "string \<Rightarrow> ((string \<times> int) \<times> string) option" where
  "parse_member s =
     (case expect (CHR 0x22) s of
        None \<Rightarrow> None
      | Some s1 \<Rightarrow>
        (case parse_string s1 of
           None \<Rightarrow> None
         | Some (k, s2) \<Rightarrow>
           (case expect (CHR '':'') s2 of
              None \<Rightarrow> None
            | Some s3 \<Rightarrow>
              map_option (\<lambda>(v, q). ((k, v), q)) (parse_value (skip_ws s3)))))"

text \<open>The members up to the closing brace; the length of the text is fuel enough.\<close>

fun parse_members :: "nat \<Rightarrow> string \<Rightarrow> counts \<Rightarrow> (counts \<times> string) option" where
  "parse_members 0 s m = None"
| "parse_members (Suc n) s m =
     (case parse_member s of
        None \<Rightarrow> None
      | Some ((k, v), r) \<Rightarrow>
        (case expect (CHR '','') r of
           Some r' \<Rightarrow> parse_members n r' (AList.update k v m)
         | None \<Rightarrow>
           (case expect (CHR ''}'') r of
              Some r' \<Rightarrow> Some (AList.update k v m, r')
            | None \<Rightarrow> None)))"

definition unmarshal_counts :: "string \<Rightarrow> counts option" where
  "unmarshal_counts s =
     (case expect (CHR ''{'') s of
        None \<Rightarrow> if skip_ws (drop 4 (skip_ws s)) = [] \<and> take 4 (skip_ws s) = ''null'' then Some [] else None
      | Some r \<Rightarrow>
        (case (case expect (CHR ''}'') r of
                 Some r' \<Rightarrow> Some ([], r')
               | None \<Rightarrow> parse_members (length r) r []) of
           Some (m, q) \<Rightarrow> if skip_ws q = [] then Some m else None
         | None \<Rightarrow> None))"

section \<open>Round trip\<close>

declare parse_string.simps [simp del]

lemma hex_val_char: "d < 16 \<Longrightarrow> hex_val (hex_char d) = Some d"
  by (auto simp: hex_val_def hex_char_def Let_def)

lemma hex_val_0: "hex_val CHR ''0'' = Some 0"
  by (simp add: hex_val_def)

lemma utf8_ascii: "of_char c < (128 :: nat) \<Longrightarrow> utf8 (of_char c) = [c]"
  by (simp add: utf8_def)

lemma parse_string_hex:
  assumes "of_char c < (128 :: nat)"
  shows "parse_string ([CHR 0x5C, CHR ''u'', CHR ''0'', CHR ''0'',
            hex_char (of_char c div 16), hex_char (of_char c mod 16)] @ s)
       = map_option (\<lambda>(x, q). (c # x, q)) (parse_string s)"
proof -
  have "of_char c div 16 < (16 :: nat)" using assms by simp
  then have "unescape_u ([CHR ''0'', CHR ''0'',
       hex_char (of_char c div 16), hex_char (of_char c mod 16)] @ s) = Some ([c], s)"
    using assms by (simp add: unescape_u_def hex_val_char hex_val_0 utf8_ascii)
  then show ?thesis by (simp add: parse_string.simps(2) [of "CHR 0x5C"] unescape_def)
qed

lemma parse_string_short:
  "unescape (d # s) = Some ([c], s) \<Longrightarrow>
     parse_string (CHR 0x5C # d # s) = map_option (\<lambda>(x, q). (c # x, q)) (parse_string s)"
  by (simp add: parse_string.simps(2) [of "CHR 0x5C"])

lemma parse_string_plain:
  "c \<noteq> CHR 0x22 \<Longrightarrow> c \<noteq> CHR 0x5C \<Longrightarrow> \<not> of_char c < (32 :: nat) \<Longrightarrow>
     parse_string (c # s) = map_option (\<lambda>(x, q). (c # x, q)) (parse_string s)"
  by (simp add: parse_string.simps(2))

lemma parse_escape_char:
  "parse_string (escape_char c @ s) = map_option (\<lambda>(x, q). (c # x, q)) (parse_string s)"
proof -
  define short where "short = {CHR 0x22, CHR 0x5C, CHR 0x08, CHR 0x0C, CHR 0x0A, CHR 0x0D, CHR 0x09}"
  define hex where "hex \<longleftrightarrow> of_char c < (32 :: nat) \<or> c \<in> {CHR ''<'', CHR ''>'', CHR ''&''}"
  consider "c \<in> short" | "c \<notin> short" hex | "c \<notin> short" "\<not> hex"
    by blast
  then show ?thesis
  proof cases
    case 1
    then show ?thesis
      unfolding short_def
      by (elim insertE emptyE) (simp_all add: escape_char_def parse_string_short unescape_def)
  next
    case 2
    from 2(2) have "of_char c < (128 :: nat)"
      unfolding hex_def by (elim disjE insertE emptyE) (linarith | simp)+
    moreover have "escape_char c = [CHR 0x5C, CHR ''u'', CHR ''0'', CHR ''0'',
        hex_char (of_char c div 16), hex_char (of_char c mod 16)]"
      using 2 unfolding short_def hex_def escape_char_def by (simp only: insert_iff de_Morgan_disj if_True if_False simp_thms)
    ultimately show ?thesis by (simp only: parse_string_hex)
  next
    case 3
    then have "escape_char c = [c]"
      unfolding short_def hex_def escape_char_def by (simp only: insert_iff de_Morgan_disj if_False simp_thms)
    with 3 show ?thesis by (simp add: parse_string_plain short_def hex_def)
  qed
qed

lemma parse_line_separator:
  "d = CHR ''8'' \<and> x = CHR 0xA8 \<or> d = CHR ''9'' \<and> x = CHR 0xA9 \<Longrightarrow>
   parse_string ([CHR 0x5C, CHR ''u'', CHR ''2'', CHR ''0'', CHR ''2'', d] @ s)
     = map_option (\<lambda>(y, q). (CHR 0xE2 # CHR 0x80 # x # y, q)) (parse_string s)"
  by (auto simp: parse_string.simps(2) [of "CHR 0x5C"] unescape_def unescape_u_def hex_val_def utf8_def
      char_of_def bit_0)

lemma parse_escape_string:
  "parse_string (escape_string k @ CHR 0x22 # r) = Some (k, r)"
proof (induction k rule: escape_string.induct)
  case 1
  then show ?case by (simp add: parse_string.simps)
next
  case (2 c k)
  show ?case
  proof (cases "c = CHR 0xE2 \<and> (take 2 k = [CHR 0x80, CHR 0xA8] \<or> take 2 k = [CHR 0x80, CHR 0xA9])")
    case True
    then obtain x k' where k: "k = CHR 0x80 # x # k'" "x = CHR 0xA8 \<or> x = CHR 0xA9"
      by (cases k rule: remdups_adj.cases) auto
    with True 2(1) show ?thesis
      using parse_line_separator [of "if x = CHR 0xA8 then CHR ''8'' else CHR ''9''" x
          "escape_string k' @ CHR 0x22 # r"]
      by auto
  next
    case False
    with 2(2) show ?thesis by (simp only: escape_string.simps if_False append_assoc parse_escape_char) simp
  qed
qed

lemma show_nat_leading_zero: "hd (show_nat n) = CHR ''0'' \<Longrightarrow> tl (show_nat n) = []"
proof (induction n rule: show_nat.induct)
  case (1 n)
  show ?case
  proof (cases "n < 10")
    case True
    then show ?thesis by (simp add: show_nat.simps [of n])
  next
    case False
    then have eq: "show_nat n = show_nat (n div 10) @ [digit_char (n mod 10)]"
      by (simp add: show_nat.simps [of n])
    with 1(2) have "hd (show_nat (n div 10)) = CHR ''0''" by simp
    with 1(1) [OF False] have "show_nat (n div 10) = [CHR ''0'']"
      by (cases "show_nat (n div 10)") simp_all
    then have "n div 10 = 0"
      using digits_val_show_nat [of "n div 10"] by (simp add: digits_val_def digit_val_def)
    with False show ?thesis by simp
  qed
qed

lemma parse_digits_show:
  "\<not> is_digit c \<Longrightarrow> parse_digits (show_nat n @ c # r) = Some (n, c # r)"
  using show_nat_digits [of n] show_nat_leading_zero [of n]
  by (auto simp: parse_digits_def list_all_iff digits_val_show_nat Let_def)

lemma show_nat_hd: "\<exists>d r. show_nat n = d # r \<and> is_digit d"
  using show_nat_digits [of n] by (cases "show_nat n") (simp_all add: list_all_iff)

lemma parse_value_show:
  assumes "- (2 ^ 31) \<le> i" "i < 2 ^ 31" "\<not> is_digit c"
  shows "parse_value (show_int i @ c # r) = Some (i, c # r)"
proof (cases "i < 0")
  case True
  then show ?thesis using assms
    by (simp add: parse_value_def show_int_def parse_digits_show Let_def)
next
  case False
  obtain d q where d: "show_nat (nat i) = d # q" "is_digit d" using show_nat_hd by blast
  then have "d \<noteq> CHR ''n''" "d \<noteq> CHR ''-''" by (auto simp: is_digit_def)
  with d False assms parse_digits_show [OF assms(3), of "nat i" r] show ?thesis
    by (simp add: parse_value_def show_int_def Let_def)
qed

lemma expect_here [simp]:
  "d \<notin> {CHR '' '', CHR 0x09, CHR 0x0A, CHR 0x0D} \<Longrightarrow> expect c (d # r) = (if c = d then Some r else None)"
  by (simp add: expect_def skip_ws_def)

lemma skip_show_int: "skip_ws (show_int i @ r) = show_int i @ r"
  using show_nat_hd [of "nat i"] by (auto simp: skip_ws_def show_int_def is_digit_def)

lemma parse_member_marshal:
  assumes "- (2 ^ 31) \<le> i" "i < 2 ^ 31" "\<not> is_digit c"
  shows "parse_member (marshal_entry (k, i) @ c # r) = Some ((k, i), c # r)"
  using parse_value_show [OF assms, of r] parse_escape_string [of k "CHR '':'' # show_int i @ c # r"]
  by (simp add: parse_member_def marshal_entry_def skip_show_int)

lemma update_new: "k \<notin> fst ` set m \<Longrightarrow> AList.update k v m = m @ [(k, v)]"
  by (induction m) auto

lemma foldl_update_distinct:
  "distinct (map fst es) \<Longrightarrow> fst ` set es \<inter> fst ` set m = {} \<Longrightarrow>
     foldl (\<lambda>m (k, v). AList.update k v m) m es = m @ es"
proof (induction es arbitrary: m)
  case Nil
  then show ?case by simp
next
  case (Cons e es)
  then have "AList.update (fst e) (snd e) m = m @ [e]" by (intro update_new [of "fst e" m "snd e", simplified]) (auto simp: prod_eq_iff)
  with Cons show ?case by (auto simp: case_prod_beta)
qed

lemma parse_members_marshal:
  assumes "es \<noteq> []" "length es \<le> n" "\<forall>(k, i) \<in> set es. - (2 ^ 31) \<le> i \<and> i < 2 ^ 31"
  shows "parse_members n (marshal_entries es @ CHR ''}'' # q) m
     = Some (foldl (\<lambda>m (k, v). AList.update k v m) m es, q)"
  using assms
proof (induction es arbitrary: n m rule: marshal_entries.induct)
  case 1
  then show ?case by simp
next
  case (2 e)
  then obtain n' k i where n: "n = Suc n'" and e: "e = (k, i)" "- (2 ^ 31) \<le> i" "i < 2 ^ 31"
    by (cases n; cases e) auto
  have "\<not> is_digit CHR ''}''" by (simp add: is_digit_def)
  from parse_member_marshal [OF e(2,3) this] e(1) n show ?case by simp
next
  case (3 e e' es)
  then obtain n' k i where n: "n = Suc n'" and e: "e = (k, i)" "- (2 ^ 31) \<le> i" "i < 2 ^ 31"
    by (cases n; cases e) auto
  have "\<not> is_digit CHR '',''" by (simp add: is_digit_def)
  from parse_member_marshal [OF e(2,3) this] e(1) n 3 show ?case by simp
qed

lemma marshal_entries_length: "length es \<le> length (marshal_entries es)"
  by (induction es rule: marshal_entries.induct) (auto simp: marshal_entry_def)

lemma map_of_sort_key: "distinct (map fst m) \<Longrightarrow> map_of (sort_key fst m) = map_of m"
  by (intro map_of_inject_set [THEN iffD2]) (simp_all add: distinct_map inj_on_def)

lemma unmarshal_marshal:
  assumes "distinct (map fst m)" and range: "\<forall>(k, i) \<in> set m. - (2 ^ 31) \<le> i \<and> i < 2 ^ 31"
  shows "unmarshal_counts (marshal_counts m) = Some (sort_key fst m)"
proof (cases "m = []")
  case True
  then show ?thesis by (simp add: marshal_counts_def unmarshal_counts_def skip_ws_def)
next
  case False
  define es where "es = sort_key fst m"
  have es: "es \<noteq> []" "distinct (map fst es)" "\<forall>(k, i) \<in> set es. - (2 ^ 31) \<le> i \<and> i < 2 ^ 31"
    using False assms set_sort [of fst m] by (auto simp: es_def distinct_map inj_on_def simp del: set_sort)
  obtain c r where first: "marshal_entries es = CHR 0x22 # r"
    using es(1) by (cases es rule: marshal_entries.cases) (simp_all add: marshal_entry_def)
  have "parse_members (length (marshal_entries es @ ''}'')) (marshal_entries es @ ''}'') [] = Some (es, [])"
    using parse_members_marshal [OF es(1) _ es(3), of "length (marshal_entries es @ ''}'')" "[]" "[]"]
      foldl_update_distinct [OF es(2), of "[]"] marshal_entries_length [of es] by simp
  with first show ?thesis
    by (simp add: marshal_counts_def unmarshal_counts_def es_def [symmetric] skip_ws_def)
qed

text \<open>
  Unmarshalling the marshalled counts of an Elasticsearch object gives back the same
  count for every node set name, whatever characters the names contain, and no others.
\<close>

theorem counts_round_trip:
  assumes "distinct (map fst m)" and "\<forall>(k, i) \<in> set m. - (2 ^ 31) \<le> i \<and> i < 2 ^ 31"
  shows "map_option map_of (unmarshal_counts (marshal_counts m)) = Some (map_of m)"
  using unmarshal_marshal [OF assms] map_of_sort_key [OF assms(1)] by simp

theorem counts_round_trip_witness:
  "map_option map_of (unmarshal_counts (marshal_counts [(''warm'', 2), (''<hot>'', 3)]))
     = Some (map_of [(''warm'', 2), (''<hot>'', 3)])"
  by (rule counts_round_trip) simp_all

end
