(* ===== verification/Workloads.thy ===== *)
theory Workloads
  imports Kube_Client Json_Counts
begin

text \<open>
  How the sleep controller puts one object to sleep and restores it, for each of the thirteen
  workload kinds. A \<open>sleep_\<close> function is the body of a loop in \<open>sleepWorkloads\<close> up to its
  call of \<open>Update\<close>: \<open>None\<close> skips the object, otherwise it gives the object to send and the
  entry for \<open>status.managedWorkloads\<close>. A \<open>wake_\<close> function is the part of \<open>wakeWorkloads\<close>
  between \<open>Get\<close> and \<open>Update\<close>: \<open>None\<close> sends nothing. An object whose body is not of the
  kind's Go type does not reach the functions: the client decodes into that type.
\<close>

section \<open>Kinds\<close>

definition deployment_gvk :: gvk where
  "deployment_gvk = (''apps'', ''v1'', ''Deployment'')"

definition stateful_set_gvk :: gvk where
  "stateful_set_gvk = (''apps'', ''v1'', ''StatefulSet'')"

definition cron_job_gvk :: gvk where
  "cron_job_gvk = (''batch'', ''v1'', ''CronJob'')"

definition cnpg_cluster_gvk :: gvk where
  "cnpg_cluster_gvk = (''postgresql.cnpg.io'', ''v1'', ''Cluster'')"

definition flux_helm_release_gvk :: gvk where
  "flux_helm_release_gvk = (''helm.toolkit.fluxcd.io'', ''v2'', ''HelmRelease'')"

definition flux_kustomization_gvk :: gvk where
  "flux_kustomization_gvk = (''kustomize.toolkit.fluxcd.io'', ''v1'', ''Kustomization'')"

definition prom_thanos_ruler_gvk :: gvk where
  "prom_thanos_ruler_gvk = (''monitoring.coreos.com'', ''v1'', ''ThanosRuler'')"

definition prom_alertmanager_gvk :: gvk where
  "prom_alertmanager_gvk = (''monitoring.coreos.com'', ''v1'', ''Alertmanager'')"

definition prom_prometheus_gvk :: gvk where
  "prom_prometheus_gvk = (''monitoring.coreos.com'', ''v1'', ''Prometheus'')"

definition mariadb_gvk :: gvk where
  "mariadb_gvk = (''k8s.mariadb.com'', ''v1alpha1'', ''MariaDB'')"

definition mariadb_max_scale_gvk :: gvk where
  "mariadb_max_scale_gvk = (''k8s.mariadb.com'', ''v1alpha1'', ''MaxScale'')"

definition eck_elasticsearch_gvk :: gvk where
  "eck_elasticsearch_gvk = (''elasticsearch.k8s.elastic.co'', ''v1'', ''Elasticsearch'')"

definition eck_kibana_gvk :: gvk where
  "eck_kibana_gvk = (''kibana.k8s.elastic.co'', ''v1'', ''Kibana'')"

lemmas gvk_defs =
  deployment_gvk_def stateful_set_gvk_def cron_job_gvk_def cnpg_cluster_gvk_def
  flux_helm_release_gvk_def flux_kustomization_gvk_def prom_thanos_ruler_gvk_def
  prom_alertmanager_gvk_def prom_prometheus_gvk_def mariadb_gvk_def mariadb_max_scale_gvk_def
  eck_elasticsearch_gvk_def eck_kibana_gvk_def

text \<open>The struct literal \<open>ManagedWorkload{Kind: kind, Name: name}\<close>.\<close>

definition managed_of :: "string \<Rightarrow> kobj \<Rightarrow> managed_workload" where
  "managed_of kind x =
     \<lparr>mw_kind = kind, mw_name = ko_name x, mw_replicas = None, mw_suspend = None,
      mw_hibernation = None, mw_counts = None\<rparr>"

section \<open>Deployments, StatefulSets and CronJobs\<close>

definition sleep_scalable :: "string \<Rightarrow> kobj \<Rightarrow> (kobj \<times> managed_workload) option" where
  "sleep_scalable kind x =
     (case ko_body x of
        Scalable (Some n) sel \<Rightarrow>
          if 0 < n
          then Some (x\<lparr>ko_body := Scalable (Some 0) sel\<rparr>, (managed_of kind x)\<lparr>mw_replicas := Some n\<rparr>)
          else None
      | _ \<Rightarrow> None)"

definition wake_scalable :: "managed_workload \<Rightarrow> kobj \<Rightarrow> kobj option" where
  "wake_scalable m x =
     (case (mw_replicas m, ko_body x) of
        (Some n, Scalable _ sel) \<Rightarrow> Some (x\<lparr>ko_body := Scalable (Some n) sel\<rparr>)
      | _ \<Rightarrow> None)"

definition sleep_cron_job :: "string \<Rightarrow> kobj \<Rightarrow> (kobj \<times> managed_workload) option" where
  "sleep_cron_job kind x =
     (case ko_body x of
        Cron s \<Rightarrow>
          if s = None \<or> s = Some False
          then Some (x\<lparr>ko_body := Cron (Some True)\<rparr>,
                     (managed_of kind x)\<lparr>mw_suspend := Some (case s of None \<Rightarrow> False | Some b \<Rightarrow> b)\<rparr>)
          else None
      | _ \<Rightarrow> None)"

definition wake_cron_job :: "managed_workload \<Rightarrow> kobj \<Rightarrow> kobj option" where
  "wake_cron_job m x =
     (case (mw_suspend m, ko_body x) of
        (Some b, Cron _) \<Rightarrow> Some (x\<lparr>ko_body := Cron (Some b)\<rparr>)
      | _ \<Rightarrow> None)"

section \<open>CNPG clusters\<close>

definition hibernation_annotation :: string where
  "hibernation_annotation = ''cnpg.io/hibernation''"

definition annotations_of :: "kobj \<Rightarrow> smap" where
  "annotations_of x = (case om_annotations (ko_meta x) of None \<Rightarrow> [] | Some a \<Rightarrow> a)"

definition set_annotations :: "smap \<Rightarrow> kobj \<Rightarrow> kobj" where
  "set_annotations a x = x\<lparr>ko_meta := (ko_meta x)\<lparr>om_annotations := Some a\<rparr>\<rparr>"

definition sleep_cluster :: "string \<Rightarrow> kobj \<Rightarrow> (kobj \<times> managed_workload) option" where
  "sleep_cluster kind x =
     (let anns = annotations_of x; current = gget anns hibernation_annotation in
      if current \<noteq> ''on''
      then Some (set_annotations (AList.update hibernation_annotation ''on'' anns) x,
                 (managed_of kind x)\<lparr>mw_hibernation := Some current\<rparr>)
      else None)"

definition wake_cluster :: "managed_workload \<Rightarrow> kobj \<Rightarrow> kobj option" where
  "wake_cluster m x =
     (let anns = annotations_of x in
      Some (set_annotations
        (case mw_hibernation m of
           Some h \<Rightarrow> if h \<noteq> [] then AList.update hibernation_annotation h anns
                     else AList.delete hibernation_annotation anns
         | None \<Rightarrow> AList.delete hibernation_annotation anns) x))"

section \<open>Custom resources with \<open>spec.suspend\<close>\<close>

definition spec_of :: "jobj \<Rightarrow> jobj option" where
  "spec_of ct = as_obj (map_of ct ''spec'')"

definition spec_or_empty :: "jobj \<Rightarrow> jobj" where
  "spec_or_empty ct = (case spec_of ct of None \<Rightarrow> [] | Some sp \<Rightarrow> sp)"

definition set_spec :: "jobj \<Rightarrow> jobj \<Rightarrow> kobj \<Rightarrow> kobj" where
  "set_spec ct sp x = x\<lparr>ko_body := Custom (AList.update ''spec'' (JObj sp) ct)\<rparr>"

definition sleep_suspend_resource :: "string \<Rightarrow> kobj \<Rightarrow> (kobj \<times> managed_workload) option" where
  "sleep_suspend_resource kind x =
     (case ko_body x of
        Custom ct \<Rightarrow>
          (let current =
             (case spec_of ct of
                Some sp \<Rightarrow> (case as_bool (map_of sp ''suspend'') of Some b \<Rightarrow> b | None \<Rightarrow> False)
              | None \<Rightarrow> False) in
           if \<not> current
           then Some (set_spec ct (AList.update ''suspend'' (JBool True) (spec_or_empty ct)) x,
                      (managed_of kind x)\<lparr>mw_suspend := Some current\<rparr>)
           else None)
      | _ \<Rightarrow> None)"

definition wake_suspend_resource :: "managed_workload \<Rightarrow> kobj \<Rightarrow> kobj option" where
  "wake_suspend_resource m x =
     (case ko_body x of
        Custom ct \<Rightarrow>
          Some (set_spec ct
            (case mw_suspend m of
               Some b \<Rightarrow> AList.update ''suspend'' (JBool b) (spec_or_empty ct)
             | None \<Rightarrow> AList.delete ''suspend'' (spec_or_empty ct)) x)
      | _ \<Rightarrow> None)"

section \<open>Custom resources with \<open>spec.replicas\<close> or \<open>spec.count\<close>\<close>

text \<open>The two pairs of functions of the source differ in the field's name only.\<close>

definition sleep_number ::
  "float_conv \<Rightarrow> string \<Rightarrow> string \<Rightarrow> kobj \<Rightarrow> (kobj \<times> managed_workload) option" where
  "sleep_number fc field kind x =
     (case ko_body x of
        Custom ct \<Rightarrow>
          (case spec_of ct of
             None \<Rightarrow> None
           | Some sp \<Rightarrow>
             (case num32 fc (map_of sp field) of
                None \<Rightarrow> None
              | Some n \<Rightarrow>
                  if 0 < n
                  then Some (set_spec ct (AList.update field (JInt 0) sp) x,
                             (managed_of kind x)\<lparr>mw_replicas := Some n\<rparr>)
                  else None))
      | _ \<Rightarrow> None)"

definition wake_number :: "string \<Rightarrow> managed_workload \<Rightarrow> kobj \<Rightarrow> kobj option" where
  "wake_number field m x =
     (case (mw_replicas m, ko_body x) of
        (Some n, Custom ct) \<Rightarrow> Some (set_spec ct (AList.update field (JInt n) (spec_or_empty ct)) x)
      | _ \<Rightarrow> None)"

definition sleep_replica_resource ::
  "float_conv \<Rightarrow> string \<Rightarrow> kobj \<Rightarrow> (kobj \<times> managed_workload) option" where
  "sleep_replica_resource fc = sleep_number fc ''replicas''"

definition wake_replica_resource :: "managed_workload \<Rightarrow> kobj \<Rightarrow> kobj option" where
  "wake_replica_resource = wake_number ''replicas''"

definition sleep_count_resource ::
  "float_conv \<Rightarrow> string \<Rightarrow> kobj \<Rightarrow> (kobj \<times> managed_workload) option" where
  "sleep_count_resource fc = sleep_number fc ''count''"

definition wake_count_resource :: "managed_workload \<Rightarrow> kobj \<Rightarrow> kobj option" where
  "wake_count_resource = wake_number ''count''"

section \<open>Elasticsearch\<close>

text \<open>The capture loop: the counts by node set name, and whether one of them is positive.\<close>

fun capture_counts :: "float_conv \<Rightarrow> jval list \<Rightarrow> counts \<times> bool \<Rightarrow> counts \<times> bool" where
  "capture_counts fc [] acc = acc"
| "capture_counts fc (v # vs) (counts, pos) =
     (case v of
        JObj ns \<Rightarrow>
          (let name = as_str (map_of ns ''name'');
               count = (case num32 fc (map_of ns ''count'') of Some n \<Rightarrow> n | None \<Rightarrow> 0)
           in capture_counts fc vs (AList.update name count counts, pos \<or> 0 < count))
      | _ \<Rightarrow> capture_counts fc vs (counts, pos))"

definition zero_count :: "jval \<Rightarrow> jval" where
  "zero_count v = (case v of JObj ns \<Rightarrow> JObj (AList.update ''count'' (JInt 0) ns) | _ \<Rightarrow> v)"

definition restore_count :: "counts \<Rightarrow> jval \<Rightarrow> jval" where
  "restore_count counts v =
     (case v of
        JObj ns \<Rightarrow>
          (case map_of counts (as_str (map_of ns ''name'')) of
             Some n \<Rightarrow> JObj (AList.update ''count'' (JInt n) ns)
           | None \<Rightarrow> v)
      | _ \<Rightarrow> v)"

definition sleep_elasticsearch ::
  "float_conv \<Rightarrow> string \<Rightarrow> kobj \<Rightarrow> (kobj \<times> managed_workload) option" where
  "sleep_elasticsearch fc kind x =
     (case ko_body x of
        Custom ct \<Rightarrow>
          (case spec_of ct of
             None \<Rightarrow> None
           | Some sp \<Rightarrow>
             (let sets = as_arr (map_of sp ''nodeSets'') in
              if sets = [] then None
              else (let (counts, pos) = capture_counts fc sets ([], False) in
                    if \<not> pos then None
                    else Some (set_spec ct (AList.update ''nodeSets'' (JArr (map zero_count sets)) sp) x,
                               (managed_of kind x)\<lparr>mw_counts := Some (marshal_counts counts)\<rparr>))))
      | _ \<Rightarrow> None)"

definition wake_elasticsearch :: "managed_workload \<Rightarrow> kobj \<Rightarrow> kobj option" where
  "wake_elasticsearch m x =
     (case (mw_counts m, ko_body x) of
        (Some s, Custom ct) \<Rightarrow>
          (case unmarshal_counts s of
             None \<Rightarrow> None
           | Some counts \<Rightarrow>
             (case spec_of ct of
                None \<Rightarrow> None
              | Some sp \<Rightarrow>
                  Some (case map_of sp ''nodeSets'' of
                          Some (JArr sets) \<Rightarrow>
                            set_spec ct (AList.update ''nodeSets'' (JArr (map (restore_count counts) sets)) sp) x
                        | _ \<Rightarrow> x)))
      | _ \<Rightarrow> None)"

section \<open>What sleep must give back\<close>

text \<open>
  Two objects are in the same state when nothing the API distinguishes for their operator
  differs: an absent suspend flag counts as false, an absent annotation as empty, an absent
  node set count as 0, and a number by its value. Everything else is literally equal.
\<close>

definition num_val :: "jval option \<Rightarrow> rat option" where
  "num_val v =
     (case v of
        Some (JInt i) \<Rightarrow> Some (of_int i)
      | Some (JFloat r) \<Rightarrow> Some r
      | _ \<Rightarrow> None)"

definition count_val :: "jobj \<Rightarrow> rat" where
  "count_val ns = (case num_val (map_of ns ''count'') of None \<Rightarrow> 0 | Some r \<Rightarrow> r)"

definition same_node_set :: "jval \<Rightarrow> jval \<Rightarrow> bool" where
  "same_node_set v w \<longleftrightarrow>
     v = w \<or> (\<exists>a b. v = JObj a \<and> w = JObj b \<and> count_val a = count_val b \<and>
       (\<forall>k. k \<noteq> ''count'' \<longrightarrow> map_of a k = map_of b k))"

definition same_spec :: "jobj \<Rightarrow> jobj \<Rightarrow> bool" where
  "same_spec a b \<longleftrightarrow>
     (\<forall>k. k \<notin> {''suspend'', ''replicas'', ''count'', ''nodeSets''} \<longrightarrow> map_of a k = map_of b k) \<and>
     (as_bool (map_of a ''suspend'') = Some True \<longleftrightarrow> as_bool (map_of b ''suspend'') = Some True) \<and>
     num_val (map_of a ''replicas'') = num_val (map_of b ''replicas'') \<and>
     num_val (map_of a ''count'') = num_val (map_of b ''count'') \<and>
     list_all2 same_node_set (as_arr (map_of a ''nodeSets'')) (as_arr (map_of b ''nodeSets''))"

definition same_body :: "body \<Rightarrow> body \<Rightarrow> bool" where
  "same_body a b \<longleftrightarrow>
     (case (a, b) of
        (Cron s, Cron t) \<Rightarrow> s = Some True \<longleftrightarrow> t = Some True
      | (Custom c, Custom d) \<Rightarrow>
          (\<forall>k. k \<noteq> ''spec'' \<longrightarrow> map_of c k = map_of d k) \<and> same_spec (spec_or_empty c) (spec_or_empty d)
      | _ \<Rightarrow> a = b)"

definition same_state :: "kobj \<Rightarrow> kobj \<Rightarrow> bool" where
  "same_state x y \<longleftrightarrow>
     ko_key x = ko_key y \<and> om_labels (ko_meta x) = om_labels (ko_meta y) \<and>
     (\<forall>k. gget (annotations_of x) k = gget (annotations_of y) k) \<and>
     same_body (ko_body x) (ko_body y)"

text \<open>
  What makes a recorded number exact: replica counts are whole and fit \<open>int32\<close>, as the CRD
  schemas demand, and node sets have different names, as the Elasticsearch operator demands.
\<close>

definition fits32 :: "jval option \<Rightarrow> bool" where
  "fits32 v \<longleftrightarrow>
     (\<forall>r. num_val v = Some r \<longrightarrow> r = of_int \<lfloor>r\<rfloor> \<and> - (2 ^ 31) \<le> \<lfloor>r\<rfloor> \<and> \<lfloor>r\<rfloor> < 2 ^ 31)"

definition set_names :: "jval list \<Rightarrow> string list" where
  "set_names vs = concat (map (\<lambda>v. case v of JObj ns \<Rightarrow> [as_str (map_of ns ''name'')] | _ \<Rightarrow> []) vs)"

definition node_sets_ok :: "jval list \<Rightarrow> bool" where
  "node_sets_ok vs \<longleftrightarrow>
     distinct (set_names vs) \<and> (\<forall>ns. JObj ns \<in> set vs \<longrightarrow> fits32 (map_of ns ''count''))"

definition well_formed :: "kobj \<Rightarrow> bool" where
  "well_formed x \<longleftrightarrow>
     (case ko_body x of
        Custom ct \<Rightarrow>
          (let sp = spec_or_empty ct in
           fits32 (map_of sp ''replicas'') \<and> fits32 (map_of sp ''count'') \<and>
           node_sets_ok (as_arr (map_of sp ''nodeSets'')))
      | _ \<Rightarrow> True)"

lemma same_node_set_refl [simp]: "same_node_set v v"
  by (simp add: same_node_set_def)

lemma same_spec_refl [simp]: "same_spec a a"
  by (simp add: same_spec_def list_all2_refl)

lemma same_body_refl [simp]: "same_body b b"
  by (cases b) (simp_all add: same_body_def)

lemma same_state_refl [simp]: "same_state x x"
  by (simp add: same_state_def)

section \<open>Numbers\<close>

lemma truncate_of_int [simp]: "truncate_rat (of_int i) = i"
  by (simp add: truncate_rat_def)

lemma num32_exact:
  assumes "fits32 v" "num32 fc v = Some n"
  shows "num_val v = Some (of_int n) \<and> - (2 ^ 31) \<le> n \<and> n < 2 ^ 31"
proof -
  consider i where "v = Some (JInt i)" | r where "v = Some (JFloat r)"
    using assms(2) by (auto simp: num32_def split: option.splits jval.splits)
  then show ?thesis
  proof cases
    case 1
    then show ?thesis using assms by (simp add: fits32_def num_val_def num32_def s32_id)
  next
    case 2
    define z where "z = \<lfloor>r\<rfloor>"
    from 2 assms(1) have r: "r = of_int z" "- (2 ^ 31) \<le> z" "z < 2 ^ 31"
      by (auto simp: fits32_def num_val_def z_def)
    with 2 assms(2) show ?thesis by (simp add: num32_def num_val_def float_to_int_def)
  qed
qed

lemma num32_None: "num32 fc v = None \<longleftrightarrow> num_val v = None"
  by (simp add: num32_def num_val_def split: option.splits jval.splits)

lemma num_val_JInt [simp]: "num_val (Some (JInt i)) = Some (of_int i)"
  by (simp add: num_val_def)

section \<open>The contract of a workload kind\<close>

text \<open>
  What \<open>sleepWorkloads\<close> and \<open>wakeWorkloads\<close> rely on for one kind: neither direction changes
  an object's identity, the recorded entry names the object, a sleeping object is left alone,
  and waking with the recorded entry restores the state.
\<close>

definition same_identity :: "kobj \<Rightarrow> kobj \<Rightarrow> bool" where
  "same_identity x y \<longleftrightarrow> ko_key x = ko_key y \<and> om_labels (ko_meta x) = om_labels (ko_meta y)"

lemma same_identity_set_spec [key_simps]: "same_identity (set_spec ct sp x) x"
  by (simp add: same_identity_def set_spec_def ko_key_def)

lemma same_identity_set_annotations [key_simps]: "same_identity (set_annotations a x) x"
  by (simp add: same_identity_def set_annotations_def ko_key_def)

lemma same_identity_body [key_simps]: "same_identity (x\<lparr>ko_body := b\<rparr>) x"
  by (simp add: same_identity_def ko_key_def)

lemma same_identity_refl [key_simps]: "same_identity x x"
  by (simp add: same_identity_def)

locale workload_handler =
  fixes kind :: string
    and slp :: "kobj \<Rightarrow> (kobj \<times> managed_workload) option"
    and wk :: "managed_workload \<Rightarrow> kobj \<Rightarrow> kobj option"
  assumes slp_identity: "slp x = Some (x', m) \<Longrightarrow> same_identity x' x"
    and slp_entry: "slp x = Some (x', m) \<Longrightarrow> mw_kind m = kind \<and> mw_name m = ko_name x"
    and wk_identity: "wk m x = Some x' \<Longrightarrow> same_identity x' x"
    and slp_stable: "slp x = Some (x', m) \<Longrightarrow> slp x' = None"
    and wk_restores: "well_formed x \<Longrightarrow> slp x = Some (x', m) \<Longrightarrow>
      \<exists>y. wk m x' = Some y \<and> same_state y x"
begin

lemma slp_key: "slp x = Some (x', m) \<Longrightarrow> ko_key x' = ko_key x"
  using slp_identity by (simp add: same_identity_def)

lemma wk_key: "wk m x = Some x' \<Longrightarrow> ko_key x' = ko_key x"
  using wk_identity by (simp add: same_identity_def)

lemma slp_name: "slp x = Some (x', m) \<Longrightarrow> mw_name m = ko_name x'"
  using slp_entry slp_key by (fastforce simp: ko_key_def)

end

lemma managed_of_simps [simp]:
  "mw_kind (managed_of k x) = k" "mw_name (managed_of k x) = ko_name x"
  "mw_replicas (managed_of k x) = None" "mw_suspend (managed_of k x) = None"
  "mw_hibernation (managed_of k x) = None" "mw_counts (managed_of k x) = None"
  by (simp_all add: managed_of_def)

lemma annotations_of_simps [simp]:
  "annotations_of (set_annotations a x) = a" "annotations_of (x\<lparr>ko_body := b\<rparr>) = annotations_of x"
  by (simp_all add: annotations_of_def set_annotations_def)

lemma same_state_body: "same_state (x\<lparr>ko_body := b\<rparr>) x \<longleftrightarrow> same_body b (ko_body x)"
  by (simp add: same_state_def ko_key_def)

text \<open>Reading a spec back after writing it.\<close>

lemma spec_of_update [simp]: "spec_of (AList.update ''spec'' (JObj sp) ct) = Some sp"
  by (simp add: spec_of_def update_conv' as_obj_def)

lemma spec_or_empty_update [simp]: "spec_or_empty (AList.update ''spec'' (JObj sp) ct) = sp"
  by (simp add: spec_or_empty_def)

lemma spec_or_empty_Some: "spec_of ct = Some sp \<Longrightarrow> spec_or_empty ct = sp"
  by (simp add: spec_or_empty_def)

lemma set_spec_body [simp]: "ko_body (set_spec ct sp x) = Custom (AList.update ''spec'' (JObj sp) ct)"
  by (simp add: set_spec_def)

text \<open>An object whose spec was written twice is in the old state when the spec is.\<close>

lemma same_state_set_spec:
  assumes "ko_body x = Custom ct" and "same_spec sp' (spec_or_empty ct)"
  shows "same_state (set_spec (AList.update ''spec'' (JObj sp) ct) sp' (set_spec ct sp x)) x"
  using assms
  by (simp add: same_state_def set_spec_def ko_key_def annotations_of_def same_body_def update_conv')

interpretation deployment: workload_handler kind "sleep_scalable kind" wake_scalable
  by unfold_locales
    (auto simp: sleep_scalable_def wake_scalable_def key_simps same_state_body
      split: body.splits option.splits if_splits)

interpretation cron_job: workload_handler kind "sleep_cron_job kind" wake_cron_job
  by unfold_locales
    (auto simp: sleep_cron_job_def wake_cron_job_def key_simps same_state_body same_body_def
      split: body.split_asm option.split_asm if_splits)

interpretation cluster: workload_handler kind "sleep_cluster kind" wake_cluster
proof (unfold_locales, goal_cases)
  case (5 x x' m)
  then show ?case
    by (auto simp: sleep_cluster_def wake_cluster_def Let_def same_state_def
        set_annotations_def ko_key_def annotations_of_def split: if_splits)
qed (auto simp: sleep_cluster_def wake_cluster_def Let_def key_simps split: if_splits)

interpretation suspend_resource: workload_handler kind "sleep_suspend_resource kind" wake_suspend_resource
proof (unfold_locales, goal_cases)
  case (5 x x' m)
  then obtain ct where ct: "ko_body x = Custom ct" by (auto simp: sleep_suspend_resource_def split: body.splits)
  let ?cur = "case spec_of ct of Some sp \<Rightarrow> (case as_bool (map_of sp ''suspend'') of Some b \<Rightarrow> b | None \<Rightarrow> False)
              | None \<Rightarrow> False"
  from 5 ct have awake: "\<not> ?cur" and x': "x' = set_spec ct (AList.update ''suspend'' (JBool True) (spec_or_empty ct)) x"
    and m: "mw_suspend m = Some False"
    by (auto simp: sleep_suspend_resource_def Let_def split: if_splits)
  have "same_spec (AList.update ''suspend'' (JBool False) (AList.update ''suspend'' (JBool True) (spec_or_empty ct)))
      (spec_or_empty ct)"
    using awake
    by (auto simp: same_spec_def update_conv' as_bool_def spec_or_empty_def list_all2_refl
        split: option.splits)
  from same_state_set_spec [OF ct this] show ?case
    by (simp add: wake_suspend_resource_def x' m)
qed (auto simp: sleep_suspend_resource_def wake_suspend_resource_def Let_def key_simps as_bool_def
      update_conv' split: if_splits body.splits)

lemma sleep_numberE:
  assumes "sleep_number fc field kind x = Some (x', m)"
  obtains ct sp n where "ko_body x = Custom ct" "spec_of ct = Some sp"
    "num32 fc (map_of sp field) = Some n" "0 < n"
    "x' = set_spec ct (AList.update field (JInt 0) sp) x"
    "m = (managed_of kind x)\<lparr>mw_replicas := Some n\<rparr>"
  using assms by (auto simp: sleep_number_def split: body.splits option.splits if_splits)

lemma number_handler:
  assumes field: "field \<in> {''replicas'', ''count''}"
  shows "workload_handler kind (sleep_number fc field kind) (wake_number field)"
proof (unfold_locales, goal_cases)
  case (1 x x' m)
  then show ?case by (auto elim!: sleep_numberE simp: key_simps)
next
  case (2 x x' m)
  then show ?case by (auto elim!: sleep_numberE)
next
  case (3 m x x')
  then show ?case by (auto simp: wake_number_def key_simps split: option.splits body.splits)
next
  case (4 x x' m)
  then show ?case
    by (elim sleep_numberE) (simp add: sleep_number_def update_conv' num32_def s32_id)
next
  case (5 x x' m)
  from 5(2) obtain ct sp n where ct: "ko_body x = Custom ct" "spec_of ct = Some sp"
    and n: "num32 fc (map_of sp field) = Some n"
    and x': "x' = set_spec ct (AList.update field (JInt 0) sp) x"
    and m: "m = (managed_of kind x)\<lparr>mw_replicas := Some n\<rparr>" by (rule sleep_numberE)
  from 5(1) ct field have "fits32 (map_of sp field)"
    by (auto simp: well_formed_def spec_or_empty_Some Let_def)
  from num32_exact [OF this n] have "num_val (map_of sp field) = Some (of_int n)" by blast
  then have "same_spec (AList.update field (JInt n) (AList.update field (JInt 0) sp)) sp"
    using field by (auto simp: same_spec_def update_conv' list_all2_refl)
  then show ?case
    using same_state_set_spec [OF ct(1)] by (simp add: wake_number_def x' m ct spec_or_empty_Some)
qed

interpretation replica_resource:
  workload_handler kind "sleep_replica_resource fc kind" wake_replica_resource
  unfolding sleep_replica_resource_def wake_replica_resource_def by (rule number_handler) simp

interpretation count_resource:
  workload_handler kind "sleep_count_resource fc kind" wake_count_resource
  unfolding sleep_count_resource_def wake_count_resource_def by (rule number_handler) simp

section \<open>Elasticsearch node sets\<close>

lemma set_names_simps [simp]:
  "set_names [] = []"
  "set_names (JObj ns # vs) = as_str (map_of ns ''name'') # set_names vs"
  by (simp_all add: set_names_def)

lemma set_names_skip: "\<forall>ns. v \<noteq> JObj ns \<Longrightarrow> set_names (v # vs) = set_names vs"
  by (cases v) (simp_all add: set_names_def)

lemma set_names_mem: "JObj ns \<in> set vs \<Longrightarrow> as_str (map_of ns ''name'') \<in> set (set_names vs)"
  by (force simp: set_names_def)

definition count32 :: "float_conv \<Rightarrow> jobj \<Rightarrow> int" where
  "count32 fc ns = (case num32 fc (map_of ns ''count'') of Some n \<Rightarrow> n | None \<Rightarrow> 0)"

lemma capture_counts_Cons:
  "capture_counts fc (JObj ns # vs) (c, p) =
     capture_counts fc vs (AList.update (as_str (map_of ns ''name'')) (count32 fc ns) c, p \<or> 0 < count32 fc ns)"
  by (simp add: count32_def Let_def)

lemma capture_counts_skip:
  "\<forall>ns. v \<noteq> JObj ns \<Longrightarrow> capture_counts fc (v # vs) (c, p) = capture_counts fc vs (c, p)"
  by (cases v) simp_all

lemma capture_frame:
  "nm \<notin> set (set_names vs) \<Longrightarrow> map_of (fst (capture_counts fc vs (c, p))) nm = map_of c nm"
proof (induction vs arbitrary: c p)
  case Nil
  then show ?case by simp
next
  case (Cons v vs)
  show ?case
  proof (cases "\<exists>ns. v = JObj ns")
    case True
    then obtain ns where v: "v = JObj ns" ..
    have "map_of (fst (capture_counts fc vs (AList.update (as_str (map_of ns ''name'')) (count32 fc ns) c,
        p \<or> 0 < count32 fc ns))) nm = map_of (AList.update (as_str (map_of ns ''name'')) (count32 fc ns) c) nm"
      using Cons v by simp
    then show ?thesis using Cons.prems v by (simp only: v capture_counts_Cons) (simp add: update_conv')
  next
    case False
    with Cons show ?thesis by (simp add: capture_counts_skip set_names_skip del: capture_counts.simps)
  qed
qed

lemma capture_hit:
  "distinct (set_names vs) \<Longrightarrow> JObj ns \<in> set vs \<Longrightarrow>
     map_of (fst (capture_counts fc vs (c, p))) (as_str (map_of ns ''name'')) = Some (count32 fc ns)"
proof (induction vs arbitrary: c p)
  case Nil
  then show ?case by simp
next
  case (Cons v vs)
  show ?case
  proof (cases "\<exists>a. v = JObj a")
    case True
    then obtain a where v: "v = JObj a" ..
    show ?thesis
    proof (cases "JObj ns \<in> set vs")
      case True
      with Cons v show ?thesis by (simp only: v capture_counts_Cons) simp
    next
      case False
      with Cons.prems v have "a = ns" "as_str (map_of ns ''name'') \<notin> set (set_names vs)" by auto
      then show ?thesis by (simp only: v capture_counts_Cons) (simp add: capture_frame update_conv')
    qed
  next
    case False
    with Cons show ?thesis
      by (auto simp: capture_counts_skip set_names_skip simp del: capture_counts.simps)
  qed
qed

lemma capture_distinct:
  "distinct (map fst c) \<Longrightarrow> distinct (map fst (fst (capture_counts fc vs (c, p))))"
  by (induction vs arbitrary: c p) (auto simp: distinct_update Let_def split: jval.splits)

lemma capture_range:
  assumes "\<forall>k i. map_of c k = Some i \<longrightarrow> R i" and "\<forall>ns. JObj ns \<in> set vs \<longrightarrow> R (count32 fc ns)"
    and "map_of (fst (capture_counts fc vs (c, p))) k = Some i"
  shows "R i"
  using assms
proof (induction vs arbitrary: c p)
  case Nil
  then show ?case by simp
next
  case (Cons v vs)
  show ?case
  proof (cases "\<exists>ns. v = JObj ns")
    case True
    then obtain ns where v: "v = JObj ns" ..
    show ?thesis
      using Cons.prems(3) unfolding v capture_counts_Cons
      by (rule Cons.IH [rotated 2]) (use Cons.prems v in \<open>auto simp: update_conv'\<close>)
  next
    case False
    with Cons show ?thesis by (simp add: capture_counts_skip del: capture_counts.simps)
  qed
qed

lemma capture_zero: "snd (capture_counts fc (map zero_count vs) (c, p)) = p"
  by (induction vs arbitrary: c p)
    (auto simp: zero_count_def num32_def s32_id update_conv' split: jval.splits)

lemma count32_exact:
  assumes "fits32 (map_of ns ''count'')"
  shows "count_val ns = of_int (count32 fc ns) \<and> - (2 ^ 31) \<le> count32 fc ns \<and> count32 fc ns < 2 ^ 31"
proof (cases "num32 fc (map_of ns ''count'')")
  case None
  then have "num_val (map_of ns ''count'') = None" by (simp only: num32_None)
  with None show ?thesis by (simp add: count32_def count_val_def)
next
  case (Some n)
  from num32_exact [OF assms Some] Some show ?thesis by (simp add: count32_def count_val_def)
qed

lemma captured_unmarshal:
  assumes "node_sets_ok vs"
  shows "\<exists>counts. unmarshal_counts (marshal_counts (fst (capture_counts fc vs ([], False)))) = Some counts \<and>
    (\<forall>ns. JObj ns \<in> set vs \<longrightarrow> map_of counts (as_str (map_of ns ''name'')) = Some (count32 fc ns))"
proof -
  let ?m = "fst (capture_counts fc vs ([], False))"
  have d: "distinct (map fst ?m)" using capture_distinct [of "[]"] by simp
  have R: "\<forall>ns. JObj ns \<in> set vs \<longrightarrow> - (2 ^ 31) \<le> count32 fc ns \<and> count32 fc ns < 2 ^ 31"
    using assms count32_exact by (auto simp: node_sets_ok_def)
  have "- (2 ^ 31) \<le> i \<and> i < 2 ^ 31" if "map_of ?m k = Some i" for k i
    using capture_range [where c = "[]" and R = "\<lambda>i. - (2 ^ 31) \<le> i \<and> i < 2 ^ 31", OF _ R that]
    by simp
  then have "\<forall>(k, i) \<in> set ?m. - (2 ^ 31) \<le> i \<and> i < 2 ^ 31"
    using map_of_is_SomeI [OF d] by blast
  then have "unmarshal_counts (marshal_counts ?m) = Some (sort_key fst ?m)"
    using d by (intro unmarshal_marshal)
  moreover have "\<forall>ns. JObj ns \<in> set vs \<longrightarrow> map_of ?m (as_str (map_of ns ''name'')) = Some (count32 fc ns)"
    using assms capture_hit by (simp add: node_sets_ok_def)
  ultimately show ?thesis using map_of_sort_key [OF d] by auto
qed

lemma restore_zero_same:
  assumes "\<And>ns. v = JObj ns \<Longrightarrow> fits32 (map_of ns ''count'') \<and>
      map_of counts (as_str (map_of ns ''name'')) = Some (count32 fc ns)"
  shows "same_node_set (restore_count counts (zero_count v)) v"
proof (cases "\<exists>ns. v = JObj ns")
  case True
  then obtain ns where v: "v = JObj ns" ..
  from assms [OF v] count32_exact [of ns fc] show ?thesis
    by (simp add: v zero_count_def restore_count_def update_conv' same_node_set_def)
      (simp add: count_val_def update_conv')
next
  case False
  then show ?thesis by (cases v) (simp_all add: zero_count_def restore_count_def)
qed

lemma sleep_elasticsearchE:
  assumes "sleep_elasticsearch fc kind x = Some (x', m)"
  obtains ct sp vs where "ko_body x = Custom ct" "spec_of ct = Some sp"
    "map_of sp ''nodeSets'' = Some (JArr vs)"
    "snd (capture_counts fc vs ([], False))"
    "x' = set_spec ct (AList.update ''nodeSets'' (JArr (map zero_count vs)) sp) x"
    "m = (managed_of kind x)\<lparr>mw_counts := Some (marshal_counts (fst (capture_counts fc vs ([], False))))\<rparr>"
proof -
  from assms obtain ct sp where ct: "ko_body x = Custom ct" "spec_of ct = Some sp"
    by (auto simp: sleep_elasticsearch_def split: body.splits option.splits)
  moreover from assms ct obtain vs where vs: "map_of sp ''nodeSets'' = Some (JArr vs)"
    by (cases "map_of sp ''nodeSets''") (auto simp: sleep_elasticsearch_def as_arr_def split: jval.splits)
  ultimately show thesis
    using assms that by (auto simp: sleep_elasticsearch_def as_arr_def Let_def split: prod.splits if_splits)
qed

interpretation elasticsearch: workload_handler kind "sleep_elasticsearch fc kind" wake_elasticsearch
proof (unfold_locales, goal_cases)
  case (1 x x' m)
  then show ?case by (auto elim!: sleep_elasticsearchE simp: key_simps)
next
  case (2 x x' m)
  then show ?case by (auto elim!: sleep_elasticsearchE)
next
  case (3 m x x')
  then show ?case by (auto simp: wake_elasticsearch_def key_simps split: option.splits body.splits jval.splits)
next
  case (4 x x' m)
  then obtain ct sp vs where ct: "ko_body x = Custom ct" "spec_of ct = Some sp"
    and x': "x' = set_spec ct (AList.update ''nodeSets'' (JArr (map zero_count vs)) sp) x"
    by (rule sleep_elasticsearchE)
  show ?case
    by (simp add: x' sleep_elasticsearch_def update_conv' as_arr_def Let_def case_prod_beta capture_zero)
next
  case (5 x x' m)
  from 5(2) obtain ct sp vs where ct: "ko_body x = Custom ct" "spec_of ct = Some sp"
    and vs: "map_of sp ''nodeSets'' = Some (JArr vs)"
    and x': "x' = set_spec ct (AList.update ''nodeSets'' (JArr (map zero_count vs)) sp) x"
    and m: "m = (managed_of kind x)\<lparr>mw_counts := Some (marshal_counts (fst (capture_counts fc vs ([], False))))\<rparr>"
    by (rule sleep_elasticsearchE)
  from 5(1) ct vs have ok: "node_sets_ok vs"
    by (simp add: well_formed_def spec_or_empty_Some Let_def as_arr_def)
  from captured_unmarshal [OF this] obtain counts where
    u: "unmarshal_counts (marshal_counts (fst (capture_counts fc vs ([], False)))) = Some counts"
    and hit: "\<And>ns. JObj ns \<in> set vs \<Longrightarrow> map_of counts (as_str (map_of ns ''name'')) = Some (count32 fc ns)"
    by blast
  let ?vs = "map (restore_count counts) (map zero_count vs)"
  have "same_node_set (restore_count counts (zero_count v)) v" if "v \<in> set vs" for v
    using ok hit that by (intro restore_zero_same [where fc = fc]) (simp add: node_sets_ok_def)
  then have "list_all2 same_node_set ?vs vs"
    by (simp add: list_all2_conv_all_nth)
  then have "same_spec (AList.update ''nodeSets'' (JArr ?vs) (AList.update ''nodeSets'' (JArr (map zero_count vs)) sp))
      (spec_or_empty ct)"
    using ct vs by (simp add: same_spec_def update_conv' as_arr_def spec_or_empty_Some)
  from same_state_set_spec [OF ct(1) this] show ?case
    by (simp add: wake_elasticsearch_def x' m u update_conv')
qed

end
