(* ===== verification/Sleep_Ops.thy ===== *)
theory Sleep_Ops
  imports Workloads
begin

text \<open>
  \<open>sleepWorkloads\<close>, \<open>wakeWorkloads\<close> and \<open>verifyAndCorrectWorkloads\<close> of the sleep
  controller, over an arbitrary client. The state of a run is the cluster, the controller's
  copy of the schedule, and the map \<open>managed\<close> of the workloads already recorded, whose
  values are all true. Logging has no effect and is left out.
\<close>

section \<open>The table of kinds\<close>

text \<open>
  One row per workload kind, in the order of \<open>sleepWorkloads\<close>: its type, whether a missing
  CRD is skipped, whether it is an operator resource (woken in the second pass), and its two
  functions. The source has one block or one call per row.
\<close>

record handler =
  h_gvk :: gvk
  h_crd :: bool
  h_operator :: bool
  h_sleep :: "kobj \<Rightarrow> (kobj \<times> managed_workload) option"
  h_wake :: "managed_workload \<Rightarrow> kobj \<Rightarrow> kobj option"

abbreviation h_kind :: "handler \<Rightarrow> string" where
  "h_kind h \<equiv> gvk_kind (h_gvk h)"

definition row ::
  "gvk \<Rightarrow> bool \<Rightarrow> bool \<Rightarrow> (string \<Rightarrow> kobj \<Rightarrow> (kobj \<times> managed_workload) option) \<Rightarrow>
   (managed_workload \<Rightarrow> kobj \<Rightarrow> kobj option) \<Rightarrow> handler" where
  "row g crd op slp wk =
     \<lparr>h_gvk = g, h_crd = crd, h_operator = op, h_sleep = slp (gvk_kind g), h_wake = wk\<rparr>"

definition operator_handlers :: "handler list" where
  "operator_handlers =
     [row flux_helm_release_gvk True True sleep_suspend_resource wake_suspend_resource,
      row flux_kustomization_gvk True True sleep_suspend_resource wake_suspend_resource,
      row mariadb_gvk True True sleep_suspend_resource wake_suspend_resource,
      row mariadb_max_scale_gvk True True sleep_suspend_resource wake_suspend_resource]"

definition workload_handlers :: "float_conv \<Rightarrow> handler list" where
  "workload_handlers fc =
     [row deployment_gvk False False sleep_scalable wake_scalable,
      row stateful_set_gvk False False sleep_scalable wake_scalable,
      row cron_job_gvk False False sleep_cron_job wake_cron_job,
      row cnpg_cluster_gvk True False sleep_cluster wake_cluster,
      row prom_thanos_ruler_gvk True False (sleep_replica_resource fc) wake_replica_resource,
      row prom_alertmanager_gvk True False (sleep_replica_resource fc) wake_replica_resource,
      row prom_prometheus_gvk True False (sleep_replica_resource fc) wake_replica_resource,
      row eck_kibana_gvk True False (sleep_count_resource fc) wake_count_resource,
      row eck_elasticsearch_gvk True False (sleep_elasticsearch fc) wake_elasticsearch]"

definition handlers :: "float_conv \<Rightarrow> handler list" where
  "handlers fc = operator_handlers @ workload_handlers fc"

section \<open>Sleeping\<close>

definition should_manage_type :: "sleep_schedule \<Rightarrow> string \<Rightarrow> bool" where
  "should_manage_type sch kind =
     (let types = wsel_types (ss_selector (sch_spec sch))
      in types = [] \<or> list_ex (\<lambda>t. t = kind) types)"

record 'w sleep_st =
  ws_world :: 'w
  ws_sched :: sleep_schedule
  ws_marked :: "string set"

definition workload_key :: "string \<Rightarrow> string \<Rightarrow> string" where
  "workload_key kind name = kind @ ''/'' @ name"

definition append_managed :: "managed_workload \<Rightarrow> sleep_schedule \<Rightarrow> sleep_schedule" where
  "append_managed m sch =
     sch\<lparr>sch_status := (sch_status sch)\<lparr>sst_managed := sst_managed (sch_status sch) @ [m]\<rparr>\<rparr>"

text \<open>
  The body shared by the loops: skip what is already recorded or needs no change, otherwise
  update the object, append its entry, persist the status, mark the object as recorded.
\<close>

definition sleep_item ::
  "'w kube \<Rightarrow> string \<Rightarrow> (kobj \<Rightarrow> (kobj \<times> managed_workload) option) \<Rightarrow> kobj \<Rightarrow>
   'w sleep_st \<Rightarrow> kerr option \<times> 'w sleep_st" where
  "sleep_item c kind slp x st =
     (if workload_key kind (ko_name x) \<in> ws_marked st then (None, st)
      else
        (case slp x of
           None \<Rightarrow> (None, st)
         | Some (x', m) \<Rightarrow>
           (case k_update c x' (ws_world st) of
              (Some e, w) \<Rightarrow> (Some e, st\<lparr>ws_world := w\<rparr>)
            | (None, w) \<Rightarrow>
              (let sch = append_managed m (ws_sched st) in
               case k_update_status c sch w of
                 (Inl e, w') \<Rightarrow> (Some e, st\<lparr>ws_world := w', ws_sched := sch\<rparr>)
               | (Inr sch', w') \<Rightarrow>
                   (None, st\<lparr>ws_world := w', ws_sched := sch',
                             ws_marked := insert (workload_key kind (ko_name x)) (ws_marked st)\<rparr>)))))"

text \<open>One block of \<open>sleepWorkloads\<close>: the type check, the list call, the loop.\<close>

definition sleep_phase ::
  "'w kube \<Rightarrow> handler \<Rightarrow> 'w sleep_st \<Rightarrow> kerr option \<times> 'w sleep_st" where
  "sleep_phase c h st =
     (if \<not> should_manage_type (ws_sched st) (h_kind h) then (None, st)
      else
        (case k_list c (h_gvk h) (sch_namespace (ws_sched st))
                (wsel_labels (ss_selector (sch_spec (ws_sched st)))) (ws_world st) of
           Inl e \<Rightarrow> if h_crd h \<and> is_no_match e then (None, st) else (Some e, st)
         | Inr xs \<Rightarrow> run_steps (map (sleep_item c (h_kind h) (h_sleep h)) xs) st))"

definition managed_keys :: "sleep_schedule \<Rightarrow> string set" where
  "managed_keys sch =
     (\<lambda>m. workload_key (mw_kind m) (mw_name m)) ` set (sst_managed (sch_status sch))"

definition sleep_workloads ::
  "float_conv \<Rightarrow> 'w kube \<Rightarrow> sleep_schedule \<Rightarrow> 'w \<Rightarrow> kerr option \<times> 'w sleep_st" where
  "sleep_workloads fc c sch w =
     run_steps (map (sleep_phase c) (handlers fc))
       \<lparr>ws_world = w, ws_sched = sch, ws_marked = managed_keys sch\<rparr>"

section \<open>Waking\<close>

text \<open>
  The \<open>switch\<close> over the kind of a recorded workload. An object that cannot be read is
  skipped; only the error of an update ends the run.
\<close>

definition wake_item ::
  "'w kube \<Rightarrow> sleep_schedule \<Rightarrow> handler \<Rightarrow> managed_workload \<Rightarrow> 'w \<Rightarrow> kerr option \<times> 'w" where
  "wake_item c sch h m w =
     (case k_get c (h_gvk h) (sch_namespace sch) (mw_name m) w of
        Inl e \<Rightarrow> (None, w)
      | Inr x \<Rightarrow>
        (case h_wake h m x of
           None \<Rightarrow> (None, w)
         | Some x' \<Rightarrow> k_update c x' w))"

definition wake_switch ::
  "'w kube \<Rightarrow> sleep_schedule \<Rightarrow> handler list \<Rightarrow> managed_workload \<Rightarrow> 'w \<Rightarrow> kerr option \<times> 'w" where
  "wake_switch c sch hs m w =
     (case find (\<lambda>h. h_kind h = mw_kind m) hs of
        None \<Rightarrow> (None, w)
      | Some h \<Rightarrow> wake_item c sch h m w)"

text \<open>The first pass wakes the workloads, the second one the operator resources.\<close>

definition wake_workloads ::
  "float_conv \<Rightarrow> 'w kube \<Rightarrow> sleep_schedule \<Rightarrow> 'w \<Rightarrow> kerr option \<times> 'w" where
  "wake_workloads fc c sch w =
     (let ms = sst_managed (sch_status sch) in
      case run_steps (map (wake_switch c sch (workload_handlers fc)) ms) w of
        (Some e, w') \<Rightarrow> (Some e, w')
      | (None, w') \<Rightarrow> run_steps (map (wake_switch c sch operator_handlers) ms) w')"

section \<open>Verifying after a wake\<close>

text \<open>Is an object still asleep although its entry says that it was awake? One test per kind.\<close>

definition desync_scalable :: "managed_workload \<Rightarrow> kobj \<Rightarrow> bool" where
  "desync_scalable m x =
     (case ko_body x of
        Scalable r _ \<Rightarrow> r = Some 0 \<and> (case mw_replicas m of Some n \<Rightarrow> 0 < n | None \<Rightarrow> False)
      | _ \<Rightarrow> False)"

definition desync_cron_job :: "managed_workload \<Rightarrow> kobj \<Rightarrow> bool" where
  "desync_cron_job m x =
     (case ko_body x of Cron s \<Rightarrow> s = Some True \<and> mw_suspend m = Some False | _ \<Rightarrow> False)"

definition desync_suspend :: "managed_workload \<Rightarrow> kobj \<Rightarrow> bool" where
  "desync_suspend m x =
     (case ko_body x of
        Custom ct \<Rightarrow>
          (case spec_of ct of
             None \<Rightarrow> False
           | Some sp \<Rightarrow> as_bool (map_of sp ''suspend'') = Some True \<and> mw_suspend m = Some False)
      | _ \<Rightarrow> False)"

definition desync_cluster :: "managed_workload \<Rightarrow> kobj \<Rightarrow> bool" where
  "desync_cluster m x = (gget (annotations_of x) hibernation_annotation = ''on'')"

definition int64_or_zero :: "float_conv \<Rightarrow> jval option \<Rightarrow> int" where
  "int64_or_zero fc v = (case num64 fc v of Some n \<Rightarrow> n | None \<Rightarrow> 0)"

definition desync_number :: "float_conv \<Rightarrow> string \<Rightarrow> managed_workload \<Rightarrow> kobj \<Rightarrow> bool" where
  "desync_number fc field m x =
     (case ko_body x of
        Custom ct \<Rightarrow>
          (case spec_of ct of
             None \<Rightarrow> False
           | Some sp \<Rightarrow> int64_or_zero fc (map_of sp field) = 0 \<and>
               (case mw_replicas m of Some n \<Rightarrow> 0 < n | None \<Rightarrow> False))
      | _ \<Rightarrow> False)"

definition desync_elasticsearch :: "float_conv \<Rightarrow> managed_workload \<Rightarrow> kobj \<Rightarrow> bool" where
  "desync_elasticsearch fc m x =
     (case ko_body x of
        Custom ct \<Rightarrow>
          mw_counts m \<noteq> None \<and>
          (case spec_of ct of
             None \<Rightarrow> False
           | Some sp \<Rightarrow>
               list_ex (\<lambda>v. case v of JObj ns \<Rightarrow> int64_or_zero fc (map_of ns ''count'') = 0 | _ \<Rightarrow> False)
                 (as_arr (map_of sp ''nodeSets'')))
      | _ \<Rightarrow> False)"

record verifier =
  v_gvk :: gvk
  v_crd :: bool
  v_desync :: "managed_workload \<Rightarrow> kobj \<Rightarrow> bool"

definition verifiers :: "float_conv \<Rightarrow> verifier list" where
  "verifiers fc =
     map (\<lambda>(g, crd, d). \<lparr>v_gvk = g, v_crd = crd, v_desync = d\<rparr>)
       [(deployment_gvk, False, desync_scalable),
        (stateful_set_gvk, False, desync_scalable),
        (cron_job_gvk, False, desync_cron_job),
        (flux_helm_release_gvk, True, desync_suspend),
        (flux_kustomization_gvk, True, desync_suspend),
        (mariadb_gvk, True, desync_suspend),
        (mariadb_max_scale_gvk, True, desync_suspend),
        (cnpg_cluster_gvk, True, desync_cluster),
        (prom_thanos_ruler_gvk, True, desync_number fc ''replicas''),
        (prom_alertmanager_gvk, True, desync_number fc ''replicas''),
        (prom_prometheus_gvk, True, desync_number fc ''replicas''),
        (eck_kibana_gvk, True, desync_number fc ''count''),
        (eck_elasticsearch_gvk, True, desync_elasticsearch fc)]"

text \<open>\<open>managedSet\<close>: a later entry for the same kind and name replaces an earlier one.\<close>

definition managed_set :: "managed_workload list \<Rightarrow> string \<times> string \<Rightarrow> managed_workload option" where
  "managed_set ms = map_of (rev (map (\<lambda>m. ((mw_kind m, mw_name m), m)) ms))"

fun verify_scan ::
  "'w kube \<Rightarrow> sleep_schedule \<Rightarrow> verifier list \<Rightarrow> 'w \<Rightarrow> bool \<Rightarrow> kerr + bool" where
  "verify_scan c sch [] w desynced = Inr desynced"
| "verify_scan c sch (v # vs) w desynced =
     (if \<not> should_manage_type sch (gvk_kind (v_gvk v)) then verify_scan c sch vs w desynced
      else
        (case k_list c (v_gvk v) (sch_namespace sch) (wsel_labels (ss_selector (sch_spec sch))) w of
           Inl e \<Rightarrow> if v_crd v \<and> is_no_match e then verify_scan c sch vs w desynced else Inl e
         | Inr xs \<Rightarrow>
             verify_scan c sch vs w
               (desynced \<or>
                list_ex (\<lambda>x. case managed_set (sst_managed (sch_status sch)) (gvk_kind (v_gvk v), ko_name x) of
                               None \<Rightarrow> False
                             | Some m \<Rightarrow> v_desync v m x) xs)))"

definition verify_and_correct_workloads ::
  "float_conv \<Rightarrow> 'w kube \<Rightarrow> sleep_schedule \<Rightarrow> 'w \<Rightarrow> (kerr + bool) \<times> 'w" where
  "verify_and_correct_workloads fc c sch w =
     (if sst_managed (sch_status sch) = [] then (Inr False, w)
      else
        (case verify_scan c sch (verifiers fc) w False of
           Inl e \<Rightarrow> (Inl e, w)
         | Inr False \<Rightarrow> (Inr False, w)
         | Inr True \<Rightarrow>
           (case wake_workloads fc c sch w of
              (Some e, w') \<Rightarrow> (Inl e, w')
            | (None, w') \<Rightarrow> (Inr True, w'))))"

end
