(* ===== verification/Kube_Api.thy ===== *)
theory Kube_Api
  imports Kube_Client
begin

text \<open>
  The documented behaviour of the Kubernetes API that theorems about the cluster rely on, as
  named predicates over a client, and a server in memory that has it. The predicates speak of
  one controller at a time: between two calls of a run nobody else writes. Failures are not
  restricted: any call may return any error, an optimistic-locking conflict among them.
\<close>

section \<open>Laws\<close>

text \<open>A label selector given as a map selects the objects that carry all its labels.\<close>

definition selected :: "smap \<Rightarrow> kobj \<Rightarrow> bool" where
  "selected sel x \<longleftrightarrow> (\<forall>(k, v) \<in> set sel. map_of (om_labels (ko_meta x)) k = Some v)"

text \<open>Reads answer with objects of the requested type, namespace and name.\<close>

definition api_typed :: "'w kube \<Rightarrow> bool" where
  "api_typed c \<longleftrightarrow>
     (\<forall>g ns n w x. k_get c g ns n w = Inr x \<longrightarrow> ko_key x = (g, ns, n)) \<and>
     (\<forall>g ns sel w xs x. k_list c g ns sel w = Inr xs \<longrightarrow> x \<in> set xs \<longrightarrow>
        ko_gvk x = g \<and> om_namespace (ko_meta x) = ns)"

text \<open>
  What is written is read: an update that succeeds replaces the object under its key and no
  other one, an update that fails changes nothing, and writing the status of a schedule
  touches no workload.
\<close>

definition api_store :: "'w kube \<Rightarrow> bool" where
  "api_store c \<longleftrightarrow>
     (\<forall>x w w'. k_update c x w = (None, w') \<longrightarrow>
        (\<forall>g ns n. k_get c g ns n w' = (if (g, ns, n) = ko_key x then Inr x else k_get c g ns n w))) \<and>
     (\<forall>x w e w'. k_update c x w = (Some e, w') \<longrightarrow> (\<forall>g ns n. k_get c g ns n w' = k_get c g ns n w)) \<and>
     (\<forall>s w r w'. k_update_status c s w = (r, w') \<longrightarrow> (\<forall>g ns n. k_get c g ns n w' = k_get c g ns n w))"

text \<open>A list holds exactly the selected objects that reads find, each name once.\<close>

definition api_list :: "'w kube \<Rightarrow> bool" where
  "api_list c \<longleftrightarrow>
     (\<forall>g ns sel w xs. k_list c g ns sel w = Inr xs \<longrightarrow>
        distinct (map ko_name xs) \<and>
        (\<forall>x. x \<in> set xs \<longleftrightarrow> k_get c g ns (ko_name x) w = Inr x \<and> selected sel x))"

text \<open>
  The answer to a status update is the stored schedule. \<open>metav1.Time\<close> is written in
  RFC 3339 without fractional seconds, so what comes back is cut to full seconds.
\<close>

definition full_seconds :: "instant \<Rightarrow> instant" where
  "full_seconds t = t div second * second"

definition stored :: "sleep_schedule \<Rightarrow> sleep_schedule" where
  "stored s =
     s\<lparr>sch_status := (sch_status s)
        \<lparr>sst_last_transition := map_option full_seconds (sst_last_transition (sch_status s)),
         sst_conditions := map (\<lambda>d. d\<lparr>cd_transition := map_option full_seconds (cd_transition d)\<rparr>)
           (sst_conditions (sch_status s))\<rparr>\<rparr>"

definition api_status :: "'w kube \<Rightarrow> bool" where
  "api_status c \<longleftrightarrow>
     (\<forall>s w r w'. k_update_status c s w = (Inr r, w') \<longrightarrow> r = stored s)"

lemma stored_simps [simp]:
  "sch_name (stored s) = sch_name s" "sch_namespace (stored s) = sch_namespace s"
  "sch_spec (stored s) = sch_spec s" "sch_generation (stored s) = sch_generation s"
  "sst_managed (sch_status (stored s)) = sst_managed (sch_status s)"
  "sst_sleeping (sch_status (stored s)) = sst_sleeping (sch_status s)"
  "sst_days_display (sch_status (stored s)) = sst_days_display (sch_status s)"
  by (simp_all add: stored_def)

lemma api_store_updated:
  "api_store c \<Longrightarrow> k_update c x w = (None, w') \<Longrightarrow>
     k_get c g ns n w' = (if (g, ns, n) = ko_key x then Inr x else k_get c g ns n w)"
  unfolding api_store_def by blast

lemma api_store_failed:
  "api_store c \<Longrightarrow> k_update c x w = (Some e, w') \<Longrightarrow> k_get c g ns n w' = k_get c g ns n w"
  unfolding api_store_def by blast

lemma api_store_status:
  "api_store c \<Longrightarrow> k_update_status c s w = (r, w') \<Longrightarrow> k_get c g ns n w' = k_get c g ns n w"
  unfolding api_store_def by blast

lemma api_statusD: "api_status c \<Longrightarrow> k_update_status c s w = (Inr r, w') \<Longrightarrow> r = stored s"
  unfolding api_status_def by blast

lemma api_typed_get: "api_typed c \<Longrightarrow> k_get c g ns n w = Inr x \<Longrightarrow> ko_key x = (g, ns, n)"
  unfolding api_typed_def by blast

lemma api_typed_list:
  "api_typed c \<Longrightarrow> k_list c g ns sel w = Inr xs \<Longrightarrow> x \<in> set xs \<Longrightarrow>
     ko_gvk x = g \<and> om_namespace (ko_meta x) = ns"
  unfolding api_typed_def by blast

lemma api_listD:
  assumes "api_list c" "k_list c g ns sel w = Inr xs"
  shows "distinct (map ko_name xs)"
    "x \<in> set xs \<longleftrightarrow> k_get c g ns (ko_name x) w = Inr x \<and> selected sel x"
  using assms unfolding api_list_def by blast+

section \<open>A server in memory\<close>

text \<open>
  Objects by key, in a list without two objects of one key, and the schedules. \<open>fail\<close> says
  which updates are refused, by the number of updates so far.
\<close>

record memory =
  mem_objects :: "kobj list"
  mem_schedules :: "sleep_schedule list"
  mem_writes :: nat

definition mem_get :: "gvk \<Rightarrow> string \<Rightarrow> string \<Rightarrow> memory \<Rightarrow> kerr + kobj" where
  "mem_get g ns n w =
     (case find (\<lambda>x. ko_key x = (g, ns, n)) (mem_objects w) of None \<Rightarrow> Inl ErrNotFound | Some x \<Rightarrow> Inr x)"

text \<open>A list of all objects, without those hidden by an earlier one of the same key.\<close>

fun first_of_key :: "kobj list \<Rightarrow> kobj list" where
  "first_of_key [] = []"
| "first_of_key (x # xs) = x # filter (\<lambda>y. ko_key y \<noteq> ko_key x) (first_of_key xs)"

definition mem_list :: "gvk \<Rightarrow> string \<Rightarrow> smap \<Rightarrow> memory \<Rightarrow> kerr + kobj list" where
  "mem_list g ns sel w =
     Inr (filter (\<lambda>x. ko_gvk x = g \<and> om_namespace (ko_meta x) = ns \<and>
              list_all (\<lambda>(k, v). map_of (om_labels (ko_meta x)) k = Some v) sel)
            (first_of_key (mem_objects w)))"

definition mem_update :: "(nat \<Rightarrow> bool) \<Rightarrow> kobj \<Rightarrow> memory \<Rightarrow> kerr option \<times> memory" where
  "mem_update fail x w =
     (let w' = w\<lparr>mem_writes := Suc (mem_writes w)\<rparr> in
      if fail (mem_writes w) then (Some (ErrOther ''conflict''), w')
      else if list_ex (\<lambda>y. ko_key y = ko_key x) (mem_objects w)
      then (None, w'\<lparr>mem_objects := map (\<lambda>y. if ko_key y = ko_key x then x else y) (mem_objects w)\<rparr>)
      else (Some ErrNotFound, w'))"

definition mem_get_sched :: "string \<Rightarrow> string \<Rightarrow> memory \<Rightarrow> kerr + sleep_schedule" where
  "mem_get_sched ns n w =
     (case find (\<lambda>s. sch_namespace s = ns \<and> sch_name s = n) (mem_schedules w) of
        None \<Rightarrow> Inl ErrNotFound | Some s \<Rightarrow> Inr s)"

definition mem_update_status ::
  "(nat \<Rightarrow> bool) \<Rightarrow> sleep_schedule \<Rightarrow> memory \<Rightarrow> (kerr + sleep_schedule) \<times> memory" where
  "mem_update_status fail s w =
     (let w' = w\<lparr>mem_writes := Suc (mem_writes w)\<rparr> in
      if fail (mem_writes w) then (Inl (ErrOther ''conflict''), w')
      else if list_ex (\<lambda>s'. sch_namespace s' = sch_namespace s \<and> sch_name s' = sch_name s) (mem_schedules w)
      then (Inr (stored s),
            w'\<lparr>mem_schedules := map (\<lambda>s'. if sch_namespace s' = sch_namespace s \<and> sch_name s' = sch_name s
                                         then stored s else s') (mem_schedules w)\<rparr>)
      else (Inl ErrNotFound, w'))"

definition mem_kube :: "(nat \<Rightarrow> bool) \<Rightarrow> memory kube" where
  "mem_kube fail =
     \<lparr>k_get = mem_get, k_list = mem_list, k_update = mem_update fail,
      k_get_sched = mem_get_sched, k_update_status = mem_update_status fail\<rparr>"

lemma mem_kube_simps [simp]:
  "k_get (mem_kube f) = mem_get" "k_list (mem_kube f) = mem_list"
  "k_update (mem_kube f) = mem_update f" "k_get_sched (mem_kube f) = mem_get_sched"
  "k_update_status (mem_kube f) = mem_update_status f"
  by (simp_all add: mem_kube_def)

lemma find_map_key:
  "find (\<lambda>y. ko_key y = k) (map (\<lambda>y. if ko_key y = ko_key x then x else y) ys) =
     (if k = ko_key x then (if \<exists>y \<in> set ys. ko_key y = k then Some x else None)
      else find (\<lambda>y. ko_key y = k) ys)"
  by (induction ys) auto

lemma mem_get_update:
  "mem_update f x w = (None, w') \<Longrightarrow>
     mem_get g ns n w' = (if (g, ns, n) = ko_key x then Inr x else mem_get g ns n w)"
  by (auto simp: mem_update_def mem_get_def Let_def find_map_key list_ex_iff split: if_splits)

lemma mem_get_frame:
  "mem_objects w' = mem_objects w \<Longrightarrow> mem_get g ns n w' = mem_get g ns n w"
  by (simp add: mem_get_def)

lemma mem_api_store: "api_store (mem_kube f)"
  unfolding api_store_def mem_kube_simps
proof (intro conjI allI impI, goal_cases)
  case (1 x w w' g ns n)
  then show ?case by (rule mem_get_update)
next
  case (2 x w e w' g ns n)
  then have "mem_objects w' = mem_objects w" by (auto simp: mem_update_def Let_def split: if_splits)
  then show ?case by (rule mem_get_frame)
next
  case (3 s w r w' g ns n)
  then have "mem_objects w' = mem_objects w" by (auto simp: mem_update_status_def Let_def split: if_splits)
  then show ?case by (rule mem_get_frame)
qed

lemma mem_api_status: "api_status (mem_kube f)"
  by (auto simp: api_status_def mem_update_status_def Let_def split: if_splits)

lemma first_of_key_subset: "set (first_of_key xs) \<subseteq> set xs"
  by (induction xs) auto

lemma first_of_key_find:
  "x \<in> set (first_of_key xs) \<longleftrightarrow> find (\<lambda>y. ko_key y = ko_key x) xs = Some x"
  by (induction xs) auto

lemma find_key: "find (\<lambda>y. ko_key y = k) xs = Some x \<Longrightarrow> ko_key x = k"
  by (induction xs) (auto split: if_splits)

lemma mem_get_Inr:
  "mem_get g ns n w = Inr x \<longleftrightarrow> ko_key x = (g, ns, n) \<and> x \<in> set (first_of_key (mem_objects w))"
proof -
  have "mem_get g ns n w = Inr x \<longleftrightarrow> find (\<lambda>y. ko_key y = (g, ns, n)) (mem_objects w) = Some x"
    by (simp add: mem_get_def split: option.splits)
  also have "\<dots> \<longleftrightarrow> ko_key x = (g, ns, n) \<and> find (\<lambda>y. ko_key y = ko_key x) (mem_objects w) = Some x"
    using find_key [of "(g, ns, n)" "mem_objects w" x] by metis
  finally show ?thesis by (simp only: first_of_key_find)
qed

lemma first_of_key_distinct: "distinct (map ko_key (first_of_key xs))"
  by (induction xs) (auto simp: distinct_map inj_on_def)

lemma mem_api_typed: "api_typed (mem_kube f)"
  by (auto simp: api_typed_def mem_get_def mem_list_def find_Some_iff split: option.splits)

lemma mem_api_list: "api_list (mem_kube f)"
  unfolding api_list_def mem_kube_simps
proof (intro allI impI conjI)
  fix g ns sel w xs
  assume xs: "mem_list g ns sel w = Inr xs"
  have key: "x \<in> set xs \<Longrightarrow> ko_key x = (g, ns, ko_name x)" for x
    using xs by (auto simp: mem_list_def ko_key_def)
  have "distinct (map ko_key xs)"
    using xs first_of_key_distinct [of "mem_objects w"] by (auto simp: mem_list_def distinct_map_filter)
  then show "distinct (map ko_name xs)"
    using key by (auto simp: distinct_map inj_on_def)
  fix x
  show "x \<in> set xs \<longleftrightarrow> mem_get g ns (ko_name x) w = Inr x \<and> selected sel x"
    using xs by (auto simp: mem_list_def mem_get_Inr selected_def list_all_iff ko_key_def)
qed

lemmas mem_api_laws = mem_api_typed mem_api_store mem_api_list mem_api_status

end
