(* ===== verification/Sleep_Trace.thy ===== *)
theory Sleep_Trace
  imports Sleep_Ops Kube_Api
begin

text \<open>
  What a run of \<open>sleepWorkloads\<close> or \<open>wakeWorkloads\<close> sends to the API server, for any client
  and any failures: every change is recorded, recorded workloads are left alone, and operator
  resources are changed before the workloads they manage and restored after them.
\<close>

section \<open>The handlers keep their contract\<close>

lemma handler_contract:
  "h \<in> set (handlers fc) \<Longrightarrow> workload_handler (h_kind h) (h_sleep h) (h_wake h)"
  by (auto simp: handlers_def operator_handlers_def workload_handlers_def row_def
      intro: deployment.workload_handler_axioms cron_job.workload_handler_axioms
        cluster.workload_handler_axioms suspend_resource.workload_handler_axioms
        replica_resource.workload_handler_axioms count_resource.workload_handler_axioms
        elasticsearch.workload_handler_axioms)

lemma operator_handlers_subset: "set operator_handlers \<subseteq> set (handlers fc)"
  by (simp add: handlers_def)

lemma workload_handlers_subset: "set (workload_handlers fc) \<subseteq> set (handlers fc)"
  by (simp add: handlers_def)

lemma handler_kinds_distinct: "distinct (map h_kind (handlers fc))"
  by (simp add: handlers_def operator_handlers_def workload_handlers_def row_def gvk_defs)

lemma handler_kind_inj:
  "h \<in> set (handlers fc) \<Longrightarrow> h' \<in> set (handlers fc) \<Longrightarrow> h_kind h = h_kind h' \<Longrightarrow> h = h'"
  using handler_kinds_distinct [of fc] by (auto simp: distinct_map inj_on_def)

lemmas handler_facts =
  workload_handler.slp_identity workload_handler.slp_entry workload_handler.wk_identity
  workload_handler.slp_stable workload_handler.wk_restores workload_handler.slp_key
  workload_handler.wk_key workload_handler.slp_name

section \<open>A client that remembers its successful writes\<close>

datatype event = Updated kobj | Recorded "managed_workload list"

definition traced :: "'w kube \<Rightarrow> ('w \<times> event list) kube" where
  "traced c =
     \<lparr>k_get = (\<lambda>g ns n (w, l). k_get c g ns n w),
      k_list = (\<lambda>g ns sel (w, l). k_list c g ns sel w),
      k_update = (\<lambda>x (w, l).
        case k_update c x w of
          (Some e, w') \<Rightarrow> (Some e, (w', l))
        | (None, w') \<Rightarrow> (None, (w', l @ [Updated x]))),
      k_get_sched = (\<lambda>ns n (w, l). k_get_sched c ns n w),
      k_update_status = (\<lambda>s (w, l).
        case k_update_status c s w of
          (Inl e, w') \<Rightarrow> (Inl e, (w', l))
        | (Inr r, w') \<Rightarrow> (Inr r, (w', l @ [Recorded (sst_managed (sch_status r))])))\<rparr>"

definition updated :: "event list \<Rightarrow> kobj list" where
  "updated l = concat (map (\<lambda>e. case e of Updated x \<Rightarrow> [x] | Recorded ms \<Rightarrow> []) l)"

text \<open>The list of workloads in the stored status, when it was \<open>ms\<close> before.\<close>

fun recorded :: "managed_workload list \<Rightarrow> event list \<Rightarrow> managed_workload list" where
  "recorded ms [] = ms"
| "recorded ms (Updated x # l) = recorded ms l"
| "recorded ms (Recorded ms' # l) = recorded ms' l"

lemma updated_simps [simp]:
  "updated [] = []" "updated (l @ l') = updated l @ updated l'"
  "updated (Updated x # l) = x # updated l" "updated (Recorded ms # l) = updated l"
  by (simp_all add: updated_def)

lemma recorded_append [simp]: "recorded ms (l @ l') = recorded (recorded ms l) l'"
  by (induction ms l rule: recorded.induct) auto

lemma traced_simps [simp]:
  "k_get (traced c) g ns n wl = k_get c g ns n (fst wl)"
  "k_list (traced c) g ns sel wl = k_list c g ns sel (fst wl)"
  by (simp_all add: traced_def case_prod_beta)

lemma traced_update:
  "k_update (traced c) x wl = (r, wl') \<Longrightarrow>
     k_update c x (fst wl) = (r, fst wl') \<and>
     snd wl' = snd wl @ (case r of None \<Rightarrow> [Updated x] | Some e \<Rightarrow> [])"
  by (cases wl) (auto simp: traced_def split: option.splits prod.splits)

lemma traced_status:
  "k_update_status (traced c) s wl = (r, wl') \<Longrightarrow>
     k_update_status c s (fst wl) = (r, fst wl') \<and>
     snd wl' = snd wl @ (case r of Inr s' \<Rightarrow> [Recorded (sst_managed (sch_status s'))] | Inl e \<Rightarrow> [])"
  by (cases wl) (auto simp: traced_def split: sum.splits prod.splits)

text \<open>The one way an item changes anything.\<close>

lemma sleep_item_cases:
  assumes "sleep_item c kind slp x st = (r, st')"
  obtains (skipped) "r = None" "st' = st"
      "workload_key kind (ko_name x) \<in> ws_marked st \<or> slp x = None"
  | (refused) x' m e w where "slp x = Some (x', m)" "workload_key kind (ko_name x) \<notin> ws_marked st"
      "k_update c x' (ws_world st) = (Some e, w)" "r = Some e" "st' = st\<lparr>ws_world := w\<rparr>"
  | (unrecorded) x' m e w w' where "slp x = Some (x', m)" "workload_key kind (ko_name x) \<notin> ws_marked st"
      "k_update c x' (ws_world st) = (None, w)"
      "k_update_status c (append_managed m (ws_sched st)) w = (Inl e, w')" "r = Some e"
      "st' = st\<lparr>ws_world := w', ws_sched := append_managed m (ws_sched st)\<rparr>"
  | (slept) x' m w w' s where "slp x = Some (x', m)" "workload_key kind (ko_name x) \<notin> ws_marked st"
      "k_update c x' (ws_world st) = (None, w)"
      "k_update_status c (append_managed m (ws_sched st)) w = (Inr s, w')" "r = None"
      "st' = st\<lparr>ws_world := w', ws_sched := s,
                ws_marked := insert (workload_key kind (ko_name x)) (ws_marked st)\<rparr>"
  using assms unfolding sleep_item_def Let_def
  by (auto split: if_splits option.splits prod.splits sum.splits)

lemma managed_append [simp]:
  "sst_managed (sch_status (append_managed m sch)) = sst_managed (sch_status sch) @ [m]"
  "sch_spec (append_managed m sch) = sch_spec sch"
  "sch_namespace (append_managed m sch) = sch_namespace sch"
  by (simp_all add: append_managed_def)

section \<open>Every change is recorded\<close>

definition names :: "managed_workload \<Rightarrow> kobj \<Rightarrow> bool" where
  "names m x \<longleftrightarrow> mw_kind m = gvk_kind (ko_gvk x) \<and> mw_name m = ko_name x"

abbreviation managed_list :: "'w sleep_st \<Rightarrow> managed_workload list" where
  "managed_list st \<equiv> sst_managed (sch_status (ws_sched st))"

text \<open>While no call has failed, memory and stored status agree and name every changed object.\<close>

definition all_recorded :: "managed_workload list \<Rightarrow> ('w \<times> event list) sleep_st \<Rightarrow> bool" where
  "all_recorded init st \<longleftrightarrow>
     managed_list st = recorded init (snd (ws_world st)) \<and>
     (\<forall>x \<in> set (updated (snd (ws_world st))). \<exists>m \<in> set (managed_list st). names m x)"

text \<open>After a failure at most the last entry of the memory is missing from the stored status.\<close>

definition one_lost :: "managed_workload list \<Rightarrow> ('w \<times> event list) sleep_st \<Rightarrow> bool" where
  "one_lost init st \<longleftrightarrow>
     (managed_list st = recorded init (snd (ws_world st)) \<or>
      (\<exists>m. managed_list st = recorded init (snd (ws_world st)) @ [m])) \<and>
     (\<forall>x \<in> set (updated (snd (ws_world st))). \<exists>m \<in> set (managed_list st). names m x)"

lemma names_slept:
  assumes h: "h \<in> set (handlers fc)" and "h_sleep h x = Some (x', m)" and "gvk_kind (ko_gvk x) = h_kind h"
  shows "names m x'"
  using handler_facts(2,6) [OF handler_contract [OF h] assms(2)] assms(3)
  by (simp add: names_def ko_key_def)

lemma sleep_item_recorded:
  assumes st: "api_status c" and h: "h \<in> set (handlers fc)" "gvk_kind (ko_gvk x) = h_kind h"
    and pre: "all_recorded init s" and run: "sleep_item (traced c) (h_kind h) (h_sleep h) x s = (r, s')"
  shows "case r of None \<Rightarrow> all_recorded init s' | Some e \<Rightarrow> one_lost init s'"
  using run
proof (cases rule: sleep_item_cases)
  case skipped
  with pre show ?thesis by simp
next
  case (refused x' m e w)
  from traced_update [OF refused(3)] refused pre show ?thesis
    by (auto simp: all_recorded_def one_lost_def)
next
  case (unrecorded x' m e w w')
  note n = names_slept [OF h(1) unrecorded(1) h(2)]
  from traced_update [OF unrecorded(3)] traced_status [OF unrecorded(4)] unrecorded(5,6) pre n
  show ?thesis by (auto simp: all_recorded_def one_lost_def)
next
  case (slept x' m w w' t)
  note n = names_slept [OF h(1) slept(1) h(2)]
  note ws = traced_update [OF slept(3)] traced_status [OF slept(4)]
  then have "t = stored (append_managed m (ws_sched s))" using api_statusD [OF st] by blast
  with ws slept(5,6) pre n show ?thesis by (auto simp: all_recorded_def)
qed

lemma all_recorded_one_lost: "all_recorded init s \<Longrightarrow> one_lost init s"
  by (auto simp: all_recorded_def one_lost_def)

text \<open>Lifting a property of the items to a block of \<open>sleepWorkloads\<close>.\<close>

lemma sleep_phase_outcome:
  assumes typed: "api_typed c"
    and item: "\<And>x s r s'. gvk_kind (ko_gvk x) = h_kind h \<Longrightarrow> ko_gvk x = h_gvk h \<Longrightarrow> P s \<Longrightarrow>
      sleep_item (traced c) (h_kind h) (h_sleep h) x s = (r, s') \<Longrightarrow>
      (case r of None \<Rightarrow> P s' | Some e \<Rightarrow> Q e s')"
    and weaker: "\<And>s e. P s \<Longrightarrow> Q e s"
    and pre: "P s" and run: "sleep_phase (traced c) h s = (r, s')"
  shows "case r of None \<Rightarrow> P s' | Some e \<Rightarrow> Q e s'"
proof (cases "should_manage_type (ws_sched s) (h_kind h)")
  case False
  with run pre show ?thesis by (auto simp: sleep_phase_def)
next
  case True
  define q where "q = k_list c (h_gvk h) (sch_namespace (ws_sched s))
    (wsel_labels (ss_selector (sch_spec (ws_sched s)))) (fst (ws_world s))"
  show ?thesis
  proof (cases q)
    case (Inl e)
    with True run pre show ?thesis
      by (auto simp: sleep_phase_def q_def intro: weaker split: if_splits)
  next
    case (Inr xs)
    then have g: "x \<in> set xs \<Longrightarrow> ko_gvk x = h_gvk h" for x
      using api_typed_list [OF typed] by (auto simp: q_def)
    from Inr True run have
      "run_steps (map (sleep_item (traced c) (h_kind h) (h_sleep h)) xs) s = (r, s')"
      by (simp add: sleep_phase_def q_def)
    with pre show ?thesis
    proof (rule run_steps_outcome [rotated])
      fix f s1 r1 s2
      assume "f \<in> set (map (sleep_item (traced c) (h_kind h) (h_sleep h)) xs)"
        and inv: "P s1" "f s1 = (r1, s2)"
      then obtain x where x: "x \<in> set xs" "f = sleep_item (traced c) (h_kind h) (h_sleep h) x" by auto
      show "case r1 of None \<Rightarrow> P s2 | Some e \<Rightarrow> Q e s2"
        using inv unfolding x(2) by (intro item) (simp_all add: g x)
    qed
  qed
qed

lemma sleep_phase_recorded:
  assumes "api_status c" "api_typed c" "h \<in> set (handlers fc)"
    and "all_recorded init s" and "sleep_phase (traced c) h s = (r, s')"
  shows "case r of None \<Rightarrow> all_recorded init s' | Some e \<Rightarrow> one_lost init s'"
proof (rule sleep_phase_outcome [where P = "all_recorded init" and Q = "\<lambda>_. one_lost init", OF assms(2) _ _ assms(4,5)])
  fix x s r s'
  assume x: "gvk_kind (ko_gvk x) = h_kind h" and "all_recorded init s"
    "sleep_item (traced c) (h_kind h) (h_sleep h) x s = (r, s')"
  then show "case r of None \<Rightarrow> all_recorded init s' | Some e \<Rightarrow> one_lost init s'"
    by (rule sleep_item_recorded [OF assms(1,3)])
qed (rule all_recorded_one_lost)

text \<open>
  C2: Whatever calls fail, every object that \<open>sleepWorkloads\<close> has changed is named in the
  controller's copy of \<open>status.managedWorkloads\<close>, and the stored status holds the same list,
  except that after an error its last entry may be missing. On success nothing is missing.
\<close>

theorem sleep_records_changes:
  assumes "api_status c" "api_typed c"
    and "sleep_workloads fc (traced c) sch (w, []) = (r, st)"
  shows "(\<forall>x \<in> set (updated (snd (ws_world st))). \<exists>m \<in> set (managed_list st). names m x) \<and>
    (managed_list st = recorded (sst_managed (sch_status sch)) (snd (ws_world st)) \<or>
     r \<noteq> None \<and> (\<exists>m. managed_list st = recorded (sst_managed (sch_status sch)) (snd (ws_world st)) @ [m]))"
proof -
  let ?init = "sst_managed (sch_status sch)"
  have "all_recorded ?init \<lparr>ws_world = (w, []), ws_sched = sch, ws_marked = managed_keys sch\<rparr>"
    by (simp add: all_recorded_def)
  then have "case r of None \<Rightarrow> all_recorded ?init st | Some e \<Rightarrow> one_lost ?init st"
    using assms(3) unfolding sleep_workloads_def
    by (rule run_steps_outcome [rotated]) (use sleep_phase_recorded [OF assms(1,2)] in auto)
  then show ?thesis by (auto simp: all_recorded_def one_lost_def split: option.splits)
qed

text \<open>On a cluster in memory where the third write, the status after it, is refused.\<close>

definition web :: kobj where
  "web = \<lparr>ko_gvk = deployment_gvk,
          ko_meta = \<lparr>om_name = ''web'', om_namespace = ''dev'', om_labels = [], om_annotations = None\<rparr>,
          ko_body = Scalable (Some 3) None\<rparr>"

definition nightly :: kobj where
  "nightly = \<lparr>ko_gvk = cron_job_gvk,
          ko_meta = \<lparr>om_name = ''nightly'', om_namespace = ''dev'', om_labels = [], om_annotations = None\<rparr>,
          ko_body = Cron None\<rparr>"

definition dev_schedule :: sleep_schedule where
  "dev_schedule =
     \<lparr>sch_name = ''s'', sch_namespace = ''dev'', sch_labels = [], sch_generation = 1,
      sch_spec = \<lparr>ss_suspend = False,
        ss_selector = \<lparr>wsel_labels = [], wsel_names = [], wsel_types = []\<rparr>,
        ss_schedule = Some \<lparr>sw_start = ''22:00'', sw_end = ''06:00'', sw_timezone = [], sw_days = []\<rparr>,
        ss_schedules = [], ss_interval = None\<rparr>,
      sch_status = \<lparr>sst_sleeping = False, sst_days_display = [], sst_managed = [],
        sst_last_transition = None, sst_conditions = []\<rparr>\<rparr>"

definition dev_cluster :: memory where
  "dev_cluster = \<lparr>mem_objects = [web, nightly], mem_schedules = [dev_schedule], mem_writes = 0\<rparr>"

theorem sleep_records_changes_witness:
  "\<exists>r st. sleep_workloads (\<lambda>_ _. 0) (traced (mem_kube (\<lambda>i. i = 3))) dev_schedule (dev_cluster, []) = (r, st) \<and>
    map ko_name (updated (snd (ws_world st))) = [''web'', ''nightly''] \<and>
    map mw_name (recorded [] (snd (ws_world st))) = [''web''] \<and>
    (\<forall>x \<in> set (updated (snd (ws_world st))). \<exists>m \<in> set (managed_list st). names m x)"
proof -
  let ?c = "traced (mem_kube (\<lambda>i. i = 3))"
  obtain r st where run: "sleep_workloads (\<lambda>_ _. 0) ?c dev_schedule (dev_cluster, []) = (r, st)"
    by (cases "sleep_workloads (\<lambda>_ _. 0) ?c dev_schedule (dev_cluster, [])")
  have "let st = snd (sleep_workloads (\<lambda>_ _. 0) ?c dev_schedule (dev_cluster, [])) in
    map ko_name (updated (snd (ws_world st))) = [''web'', ''nightly''] \<and>
    map mw_name (recorded [] (snd (ws_world st))) = [''web'']"
    by code_simp
  with run sleep_records_changes [OF mem_api_status mem_api_typed run] show ?thesis
    by (simp add: Let_def)
qed

section \<open>Recorded workloads are left alone\<close>

abbreviation object_key :: "kobj \<Rightarrow> string" where
  "object_key x \<equiv> workload_key (gvk_kind (ko_gvk x)) (ko_name x)"

definition once :: "string set \<Rightarrow> ('w \<times> event list) sleep_st \<Rightarrow> bool" where
  "once M s \<longleftrightarrow>
     distinct (map object_key (updated (snd (ws_world s)))) \<and>
     object_key ` set (updated (snd (ws_world s))) \<inter> M = {}"

definition once_marked :: "string set \<Rightarrow> ('w \<times> event list) sleep_st \<Rightarrow> bool" where
  "once_marked M s \<longleftrightarrow>
     once M s \<and> M \<subseteq> ws_marked s \<and> object_key ` set (updated (snd (ws_world s))) \<subseteq> ws_marked s"

lemma sleep_item_once:
  assumes h: "h \<in> set (handlers fc)" "gvk_kind (ko_gvk x) = h_kind h"
    and pre: "once_marked M s" and run: "sleep_item (traced c) (h_kind h) (h_sleep h) x s = (r, s')"
  shows "case r of None \<Rightarrow> once_marked M s' | Some e \<Rightarrow> once M s'"
proof -
  have key: "object_key x' = workload_key (h_kind h) (ko_name x)" if "h_sleep h x = Some (x', m)" for x' m
    using handler_facts(6) [OF handler_contract [OF h(1)] that] h(2) by (simp add: ko_key_def)
  from run show ?thesis
  proof (cases rule: sleep_item_cases)
    case skipped
    with pre show ?thesis by simp
  next
    case (refused x' m e w)
    from traced_update [OF refused(3)] refused pre show ?thesis
      by (auto simp: once_marked_def once_def)
  next
    case (unrecorded x' m e w w')
    from traced_update [OF unrecorded(3)] traced_status [OF unrecorded(4)] unrecorded(2,5,6) pre
      key [OF unrecorded(1)]
    show ?thesis by (auto simp: once_marked_def once_def)
  next
    case (slept x' m w w' t)
    from traced_update [OF slept(3)] traced_status [OF slept(4)] slept(2,5,6) pre key [OF slept(1)]
    show ?thesis by (auto simp: once_marked_def once_def)
  qed
qed

lemma once_markedD: "once_marked M s \<Longrightarrow> once M s"
  by (simp add: once_marked_def)

text \<open>
  \<open>sleepWorkloads\<close> updates no object that the status already lists, and no object twice,
  whatever calls fail.
\<close>

theorem sleep_leaves_recorded_alone:
  assumes "api_typed c" and "sleep_workloads fc (traced c) sch (w, []) = (r, st)"
  shows "distinct (map object_key (updated (snd (ws_world st)))) \<and>
    object_key ` set (updated (snd (ws_world st))) \<inter> managed_keys sch = {}"
proof -
  let ?M = "managed_keys sch"
  have "once_marked ?M \<lparr>ws_world = (w, []), ws_sched = sch, ws_marked = managed_keys sch\<rparr>"
    by (simp add: once_marked_def once_def)
  then have "case r of None \<Rightarrow> once_marked ?M st | Some e \<Rightarrow> once ?M st"
    using assms(2) unfolding sleep_workloads_def
  proof (rule run_steps_outcome [rotated])
    fix f s r s'
    assume "f \<in> set (map (sleep_phase (traced c)) (handlers fc))" and s: "once_marked ?M s" "f s = (r, s')"
    then obtain h where h: "h \<in> set (handlers fc)" "f = sleep_phase (traced c) h" by auto
    show "case r of None \<Rightarrow> once_marked ?M s' | Some e \<Rightarrow> once ?M s'"
    proof (rule sleep_phase_outcome [where P = "once_marked ?M" and Q = "\<lambda>_. once ?M", OF assms(1) _ _ s(1)])
      fix x t r t'
      assume "gvk_kind (ko_gvk x) = h_kind h" "once_marked ?M t"
        "sleep_item (traced c) (h_kind h) (h_sleep h) x t = (r, t')"
      then show "case r of None \<Rightarrow> once_marked ?M t' | Some e \<Rightarrow> once ?M t'"
        by (rule sleep_item_once [OF h(1)])
    qed (use s h once_markedD in auto)
  qed
  then show ?thesis by (auto simp: once_marked_def once_def split: option.splits)
qed

text \<open>The web deployment is listed from an earlier run; only the cron job is suspended.\<close>

definition web_entry :: managed_workload where
  "web_entry = (managed_of ''Deployment'' web)\<lparr>mw_replicas := Some 3\<rparr>"

theorem sleep_leaves_recorded_alone_witness:
  "\<exists>r st. sleep_workloads (\<lambda>_ _. 0) (traced (mem_kube (\<lambda>_. False))) (append_managed web_entry dev_schedule)
      (dev_cluster, []) = (r, st) \<and>
    map ko_name (updated (snd (ws_world st))) = [''nightly''] \<and>
    object_key ` set (updated (snd (ws_world st))) \<inter> {''Deployment/web''} = {}"
proof -
  let ?c = "traced (mem_kube (\<lambda>_. False))" and ?s = "append_managed web_entry dev_schedule"
  obtain r st where run: "sleep_workloads (\<lambda>_ _. 0) ?c ?s (dev_cluster, []) = (r, st)"
    by (cases "sleep_workloads (\<lambda>_ _. 0) ?c ?s (dev_cluster, [])")
  have "map ko_name (updated (snd (ws_world (snd (sleep_workloads (\<lambda>_ _. 0) ?c ?s (dev_cluster, [])))))) = [''nightly'']"
    by code_simp
  moreover have "managed_keys ?s = {''Deployment/web''}"
    by code_simp
  ultimately show ?thesis
    using run sleep_leaves_recorded_alone [OF mem_api_typed run] by auto
qed

section \<open>The order of changes\<close>

definition extends :: "gvk set \<Rightarrow> event list \<Rightarrow> event list \<Rightarrow> bool" where
  "extends G l l' \<longleftrightarrow> (\<exists>us. updated l' = updated l @ us \<and> (\<forall>x \<in> set us. ko_gvk x \<in> G))"

lemma extends_refl: "extends G l l"
  by (simp add: extends_def)

lemma extends_update: "extends G l l' \<Longrightarrow> ko_gvk x \<in> G \<Longrightarrow> extends G l (l' @ [Updated x])"
  by (auto simp: extends_def)

lemma extends_record: "extends G l l' \<Longrightarrow> extends G l (l' @ [Recorded ms])"
  by (simp add: extends_def)

lemma sleep_item_extends:
  assumes h: "h \<in> set (handlers fc)" "ko_gvk x \<in> G" and pre: "extends G l (snd (ws_world s))"
    and run: "sleep_item (traced c) (h_kind h) (h_sleep h) x s = (r, s')"
  shows "extends G l (snd (ws_world s'))"
proof -
  have g: "ko_gvk x' \<in> G" if "h_sleep h x = Some (x', m)" for x' m
    using handler_facts(6) [OF handler_contract [OF h(1)] that] h(2) by (simp add: ko_key_def)
  from run show ?thesis
  proof (cases rule: sleep_item_cases)
    case skipped
    with pre show ?thesis by simp
  next
    case (refused x' m e w)
    from traced_update [OF refused(3)] refused pre show ?thesis by simp
  next
    case (unrecorded x' m e w w')
    from traced_update [OF unrecorded(3)] traced_status [OF unrecorded(4)] unrecorded(5,6) pre
      g [OF unrecorded(1)] extends_update
    show ?thesis by simp
  next
    case (slept x' m w w' t)
    from traced_update [OF slept(3)] traced_status [OF slept(4)] slept(5,6)
      extends_record [OF extends_update [OF pre g [OF slept(1)]]]
    show ?thesis by simp
  qed
qed

lemma sleep_phases_extend:
  assumes typed: "api_typed c" and hs: "set hs \<subseteq> set (handlers fc)"
    and run: "run_steps (map (sleep_phase (traced c)) hs) s = (r, s')"
  shows "extends (h_gvk ` set hs) (snd (ws_world s)) (snd (ws_world s'))"
proof (rule run_steps_invariant [where P = "\<lambda>t. extends (h_gvk ` set hs) (snd (ws_world s)) (snd (ws_world t))",
      OF _ extends_refl run])
  fix f t r t'
  assume "f \<in> set (map (sleep_phase (traced c)) hs)"
    and t: "extends (h_gvk ` set hs) (snd (ws_world s)) (snd (ws_world t))" "f t = (r, t')"
  then obtain h where h: "h \<in> set hs" "f = sleep_phase (traced c) h" by auto
  let ?P = "\<lambda>t. extends (h_gvk ` set hs) (snd (ws_world s)) (snd (ws_world t))"
  have "case r of None \<Rightarrow> ?P t' | Some e \<Rightarrow> ?P t'"
  proof (rule sleep_phase_outcome [where P = ?P and Q = "\<lambda>_. ?P", OF typed _ _ t(1)])
    fix x u r u'
    assume x: "ko_gvk x = h_gvk h" "?P u" "sleep_item (traced c) (h_kind h) (h_sleep h) x u = (r, u')"
    from h hs have h': "h \<in> set (handlers fc)" "ko_gvk x \<in> h_gvk ` set hs" using x(1) by auto
    from sleep_item_extends [OF h' x(2,3)] show "case r of None \<Rightarrow> ?P u' | Some e \<Rightarrow> ?P u'"
      by (simp split: option.split)
  qed (use h t in auto)
  then show "?P t'" by (simp split: option.splits)
qed

lemma wake_switch_extends:
  assumes typed: "api_typed c" and hs: "set hs \<subseteq> set (handlers fc)"
    and pre: "extends (h_gvk ` set hs) l (snd wl)" and run: "wake_switch (traced c) sch hs m wl = (r, wl')"
  shows "extends (h_gvk ` set hs) l (snd wl')"
proof (cases "find (\<lambda>h. h_kind h = mw_kind m) hs")
  case None
  with run pre show ?thesis by (simp add: wake_switch_def)
next
  case (Some h)
  then have h: "h \<in> set hs" by (auto simp: find_Some_iff)
  show ?thesis
  proof (cases "k_get c (h_gvk h) (sch_namespace sch) (mw_name m) (fst wl)")
    case (Inl e)
    with run pre Some show ?thesis by (simp add: wake_switch_def wake_item_def)
  next
    case (Inr x)
    show ?thesis
    proof (cases "h_wake h m x")
      case None
      with Inr run pre Some show ?thesis by (simp add: wake_switch_def wake_item_def)
    next
      case (Some x')
      with \<open>find _ hs = Some h\<close> Inr run have "k_update (traced c) x' wl = (r, wl')"
        by (simp add: wake_switch_def wake_item_def)
      from traced_update [OF this]
      have l: "snd wl' = snd wl @ (case r of None \<Rightarrow> [Updated x'] | Some e \<Rightarrow> [])" by blast
      have "h \<in> set (handlers fc)" using h hs by blast
      from handler_facts(7) [OF handler_contract [OF this] Some] api_typed_get [OF typed Inr]
      have "ko_gvk x' \<in> h_gvk ` set hs" using h by (simp add: ko_key_def)
      with l pre show ?thesis by (simp add: extends_update split: option.split)
    qed
  qed
qed

lemma wake_pass_extends:
  assumes "api_typed c" "set hs \<subseteq> set (handlers fc)"
    and run: "run_steps (map (wake_switch (traced c) sch hs) ms) wl = (r, wl')"
  shows "extends (h_gvk ` set hs) (snd wl) (snd wl')"
  by (rule run_steps_invariant [where P = "\<lambda>t. extends (h_gvk ` set hs) (snd wl) (snd t)", OF _ extends_refl run])
    (use wake_switch_extends [OF assms(1,2)] in auto)

definition is_operator_object :: "kobj \<Rightarrow> bool" where
  "is_operator_object x \<longleftrightarrow> ko_gvk x \<in> h_gvk ` set operator_handlers"

lemma not_operator_workload: "h_gvk ` set (workload_handlers fc) \<inter> h_gvk ` set operator_handlers = {}"
  by (simp add: operator_handlers_def workload_handlers_def row_def gvk_defs)

lemma extends_operators: "extends (h_gvk ` set operator_handlers) l l' \<Longrightarrow>
    \<exists>us. updated l' = updated l @ us \<and> list_all is_operator_object us"
  by (auto simp: extends_def is_operator_object_def list_all_iff)

lemma extends_workloads: "extends (h_gvk ` set (workload_handlers fc)) l l' \<Longrightarrow>
    \<exists>us. updated l' = updated l @ us \<and> list_all (\<lambda>x. \<not> is_operator_object x) us"
  using not_operator_workload [of fc] by (force simp: extends_def is_operator_object_def list_all_iff)


text \<open>
  \<open>wakeWorkloads\<close> restores operator resources only after all other workloads.
\<close>

theorem operators_wake_last:
  assumes "api_typed c" and run: "wake_workloads fc (traced c) sch (w, []) = (r, wl)"
  shows "\<exists>us vs. updated (snd wl) = us @ vs \<and>
    list_all (\<lambda>x. \<not> is_operator_object x) us \<and> list_all is_operator_object vs"
proof -
  let ?ms = "sst_managed (sch_status sch)"
  obtain r1 w1 where r1: "run_steps (map (wake_switch (traced c) sch (workload_handlers fc)) ?ms) (w, []) = (r1, w1)"
    by (cases "run_steps (map (wake_switch (traced c) sch (workload_handlers fc)) ?ms) (w, [])")
  from extends_workloads [OF wake_pass_extends [OF assms(1) workload_handlers_subset r1]]
  obtain us where us: "updated (snd w1) = us" "list_all (\<lambda>x. \<not> is_operator_object x) us" by auto
  show ?thesis
  proof (cases r1)
    case None
    with run r1 have "run_steps (map (wake_switch (traced c) sch operator_handlers) ?ms) w1 = (r, wl)"
      by (simp add: wake_workloads_def Let_def)
    from extends_operators [OF wake_pass_extends [OF assms(1) operator_handlers_subset this]] us
    show ?thesis by auto
  next
    case (Some e)
    with run r1 have "wl = w1" by (simp add: wake_workloads_def Let_def)
    with us show ?thesis by (intro exI [of _ us] exI [of _ "[]"]) simp
  qed
qed

text \<open>A Flux release beside the deployment, to sleep and to wake.\<close>

definition release :: kobj where
  "release = \<lparr>ko_gvk = flux_helm_release_gvk,
          ko_meta = \<lparr>om_name = ''rel'', om_namespace = ''dev'', om_labels = [], om_annotations = None\<rparr>,
          ko_body = Custom [(''spec'', JObj [(''interval'', JStr ''5m'')])]\<rparr>"

definition flux_cluster :: memory where
  "flux_cluster = \<lparr>mem_objects = [web, release], mem_schedules = [dev_schedule], mem_writes = 0\<rparr>"

definition slept_schedule :: sleep_schedule where
  "slept_schedule =
     append_managed ((managed_of ''HelmRelease'' release)\<lparr>mw_suspend := Some False\<rparr>)
       (append_managed web_entry dev_schedule)"


theorem operators_wake_last_witness:
  "\<exists>r wl us vs. wake_workloads (\<lambda>_ _. 0) (traced (mem_kube (\<lambda>_. False))) slept_schedule (flux_cluster, []) = (r, wl) \<and>
    map ko_name (updated (snd wl)) = [''web'', ''rel''] \<and> updated (snd wl) = us @ vs \<and>
    list_all (\<lambda>x. \<not> is_operator_object x) us \<and> list_all is_operator_object vs"
proof -
  let ?c = "traced (mem_kube (\<lambda>_. False))"
  obtain r wl where run: "wake_workloads (\<lambda>_ _. 0) ?c slept_schedule (flux_cluster, []) = (r, wl)"
    by (cases "wake_workloads (\<lambda>_ _. 0) ?c slept_schedule (flux_cluster, [])")
  have "map ko_name (updated (snd (snd (wake_workloads (\<lambda>_ _. 0) ?c slept_schedule (flux_cluster, []))))) = [''web'', ''rel'']"
    by code_simp
  with run operators_wake_last [OF mem_api_typed run] show ?thesis by simp
qed

end
