(* ===== verification/Sleep_Restore.thy ===== *)
theory Sleep_Restore
  imports Sleep_Trace
begin

text \<open>
  What a run of \<open>sleepWorkloads\<close> does to the cluster when the API server keeps its laws, and
  that \<open>wakeWorkloads\<close> undoes it. The state of the cluster after a sleep is the state before,
  overlaid with the changed objects; an entry of the overlay is the handler used, the object
  before, the object sent, and the recorded workload.
\<close>

type_synonym entry = "handler \<times> kobj \<times> kobj \<times> managed_workload"

abbreviation e_before :: "entry \<Rightarrow> kobj" where "e_before e \<equiv> fst (snd e)"
abbreviation e_after :: "entry \<Rightarrow> kobj" where "e_after e \<equiv> fst (snd (snd e))"
abbreviation e_record :: "entry \<Rightarrow> managed_workload" where "e_record e \<equiv> snd (snd (snd e))"

abbreviation e_key :: "entry \<Rightarrow> gvk \<times> string \<times> string" where
  "e_key e \<equiv> ko_key (e_before e)"

definition read_key :: "'w kube \<Rightarrow> 'w \<Rightarrow> gvk \<times> string \<times> string \<Rightarrow> kerr + kobj" where
  "read_key c w k = k_get c (fst k) (fst (snd k)) (snd (snd k)) w"

definition overlay :: "entry list \<Rightarrow> gvk \<times> string \<times> string \<Rightarrow> kobj option" where
  "overlay es = map_of (map (\<lambda>e. (e_key e, e_after e)) es)"

definition entry_ok :: "float_conv \<Rightarrow> 'w kube \<Rightarrow> 'w \<Rightarrow> string \<Rightarrow> entry \<Rightarrow> bool" where
  "entry_ok fc c w0 ns e \<longleftrightarrow>
     fst e \<in> set (handlers fc) \<and> h_sleep (fst e) (e_before e) = Some (e_after e, e_record e) \<and>
     ko_gvk (e_before e) = h_gvk (fst e) \<and> om_namespace (ko_meta (e_before e)) = ns \<and>
     read_key c w0 (e_key e) = Inr (e_before e)"

definition overlaid :: "'w kube \<Rightarrow> 'w \<Rightarrow> entry list \<Rightarrow> 'w \<Rightarrow> bool" where
  "overlaid c w0 es w \<longleftrightarrow>
     (\<forall>k. read_key c w k = (case overlay es k of Some x \<Rightarrow> Inr x | None \<Rightarrow> read_key c w0 k))"

lemma overlaidD:
  "overlaid c w0 es w \<Longrightarrow> read_key c w k = (case overlay es k of Some x \<Rightarrow> Inr x | None \<Rightarrow> read_key c w0 k)"
  unfolding overlaid_def by blast

lemma overlaid_same: "overlaid c w0 es w \<Longrightarrow> (\<And>k. read_key c w' k = read_key c w k) \<Longrightarrow> overlaid c w0 es w'"
  unfolding overlaid_def by metis

definition asleep :: "float_conv \<Rightarrow> 'w kube \<Rightarrow> 'w \<Rightarrow> string \<Rightarrow> entry list \<Rightarrow> 'w sleep_st \<Rightarrow> bool" where
  "asleep fc c w0 ns es st \<longleftrightarrow>
     sch_namespace (ws_sched st) = ns \<and> managed_list st = map e_record es \<and>
     list_all (entry_ok fc c w0 ns) es \<and> distinct (map e_key es) \<and>
     overlaid c w0 es (ws_world st)"

definition marked :: "entry list \<Rightarrow> 'w sleep_st \<Rightarrow> bool" where
  "marked es st \<longleftrightarrow>
     ws_marked st = (\<lambda>e. workload_key (h_kind (fst e)) (ko_name (e_before e))) ` set es"

lemma read_key_updated:
  "api_store c \<Longrightarrow> k_update c x w = (None, w') \<Longrightarrow>
     read_key c w' k = (if k = ko_key x then Inr x else read_key c w k)"
  by (cases k) (auto simp: read_key_def api_store_updated)

lemma read_key_failed: "api_store c \<Longrightarrow> k_update c x w = (Some e, w') \<Longrightarrow> read_key c w' k = read_key c w k"
  by (simp add: read_key_def api_store_failed)

lemma read_key_status: "api_store c \<Longrightarrow> k_update_status c s w = (r, w') \<Longrightarrow> read_key c w' k = read_key c w k"
  by (simp add: read_key_def api_store_status)

lemma overlay_snoc:
  "e_key e \<notin> set (map e_key es) \<Longrightarrow>
     overlay (es @ [e]) k = (if k = e_key e then Some (e_after e) else overlay es k)"
proof -
  assume "e_key e \<notin> set (map e_key es)"
  then have "overlay es (e_key e) = None" by (simp add: overlay_def map_of_eq_None_iff image_image)
  then show ?thesis by (auto simp: overlay_def map_add_def split: option.split)
qed

lemma overlay_None: "overlay es k = None \<longleftrightarrow> k \<notin> set (map e_key es)"
  by (simp add: overlay_def map_of_eq_None_iff image_image)

lemma overlay_hit: "distinct (map e_key es) \<Longrightarrow> e \<in> set es \<Longrightarrow> overlay es (e_key e) = Some (e_after e)"
  unfolding overlay_def by (intro map_of_is_SomeI) (auto simp: o_def)

text \<open>An object that is not marked is not in the overlay.\<close>

lemma unmarked_fresh:
  assumes "list_all (entry_ok fc c w0 ns) es" "marked es st"
    and "ko_gvk x = h_gvk h" "workload_key (h_kind h) (ko_name x) \<notin> ws_marked st"
  shows "ko_key x \<notin> set (map e_key es)"
proof
  assume "ko_key x \<in> set (map e_key es)"
  then obtain e where e: "e \<in> set es" "e_key e = ko_key x" by auto
  with assms(1,3) have "h_kind (fst e) = h_kind h" "ko_name (e_before e) = ko_name x"
    by (auto simp: list_all_iff entry_ok_def ko_key_def)
  with assms(2,4) e(1) show False by (force simp: marked_def)
qed

lemma asleep_extend:
  assumes s: "asleep fc c w0 ns es s"
    and e: "entry_ok fc c w0 ns (h, x, x', m)" and fresh: "ko_key x \<notin> set (map e_key es)"
    and ns: "sch_namespace (ws_sched t) = ns" and ms: "managed_list t = managed_list s @ [m]"
    and rd: "\<And>k. read_key c (ws_world t) k = (if k = ko_key x' then Inr x' else read_key c (ws_world s) k)"
  shows "asleep fc c w0 ns (es @ [(h, x, x', m)]) t"
proof -
  have "h \<in> set (handlers fc)" "h_sleep h x = Some (x', m)" using e by (auto simp: entry_ok_def)
  then have key: "ko_key x' = ko_key x" using handler_facts(6) handler_contract by blast
  have "overlaid c w0 es (ws_world s)" using s by (simp add: asleep_def)
  then have "read_key c (ws_world t) k =
      (case overlay (es @ [(h, x, x', m)]) k of Some x \<Rightarrow> Inr x | None \<Rightarrow> read_key c w0 k)" for k
    using rd [of k] key overlay_snoc [of "(h, x, x', m)" es k] fresh overlaidD [of c w0 es _ k] by simp
  then have "overlaid c w0 (es @ [(h, x, x', m)]) (ws_world t)" unfolding overlaid_def by blast
  then show ?thesis using s e ns ms fresh by (simp add: asleep_def)
qed

definition grown :: "float_conv \<Rightarrow> 'w kube \<Rightarrow> 'w \<Rightarrow> string \<Rightarrow> entry list \<Rightarrow> 'w sleep_st \<Rightarrow> bool" where
  "grown fc c w0 ns es1 st \<longleftrightarrow> (\<exists>es2. asleep fc c w0 ns (es1 @ es2) st \<and> marked (es1 @ es2) st)"

lemma sleep_item_asleep:
  assumes laws: "api_store c" "api_status c" and h: "h \<in> set (handlers fc)"
    and x: "ko_gvk x = h_gvk h" "om_namespace (ko_meta x) = ns"
    and orig: "ko_key x \<notin> set (map e_key es1) \<Longrightarrow> read_key c w0 (ko_key x) = Inr x"
    and pre: "grown fc c w0 ns es1 s"
    and run: "sleep_item c (h_kind h) (h_sleep h) x s = (r, s')"
  shows "case r of None \<Rightarrow> grown fc c w0 ns es1 s' | Some e \<Rightarrow> \<exists>es. asleep fc c w0 ns es s'"
proof -
  from pre obtain es2 where es: "asleep fc c w0 ns (es1 @ es2) s" "marked (es1 @ es2) s"
    by (auto simp: grown_def)
  let ?es = "es1 @ es2"
  have entry: "entry_ok fc c w0 ns (h, x, x', m) \<and> ko_key x \<notin> set (map e_key ?es)"
    if "h_sleep h x = Some (x', m)" "workload_key (h_kind h) (ko_name x) \<notin> ws_marked s" for x' m
  proof -
    have "ko_key x \<notin> set (map e_key ?es)"
      using es that(2) x(1) by (intro unmarked_fresh) (auto simp: asleep_def)
    then show ?thesis using h x that(1) orig by (simp add: entry_ok_def)
  qed
  from run show ?thesis
  proof (cases rule: sleep_item_cases)
    case skipped
    with pre show ?thesis by simp
  next
    case (refused x' m e w)
    then have "asleep fc c w0 ns ?es s'"
      using es(1) overlaid_same [OF _ read_key_failed [OF laws(1) refused(3)]] by (simp add: asleep_def)
    with refused show ?thesis by auto
  next
    case (unrecorded x' m e w w')
    have "asleep fc c w0 ns (?es @ [(h, x, x', m)]) s'"
    proof (rule asleep_extend [OF es(1)])
      show "read_key c (ws_world s') k = (if k = ko_key x' then Inr x' else read_key c (ws_world s) k)" for k
        using unrecorded(6) read_key_status [OF laws(1) unrecorded(4)]
          read_key_updated [OF laws(1) unrecorded(3)] by simp
    qed (use es(1) entry [OF unrecorded(1,2)] unrecorded(6) in \<open>simp_all add: asleep_def\<close>)
    with unrecorded show ?thesis by auto
  next
    case (slept x' m w w' t)
    have t: "t = stored (append_managed m (ws_sched s))" by (rule api_statusD [OF laws(2) slept(4)])
    have "asleep fc c w0 ns (?es @ [(h, x, x', m)]) s'"
    proof (rule asleep_extend [OF es(1)])
      show "read_key c (ws_world s') k = (if k = ko_key x' then Inr x' else read_key c (ws_world s) k)" for k
        using slept(6) read_key_status [OF laws(1) slept(4)] read_key_updated [OF laws(1) slept(3)] by simp
    qed (use es(1) entry [OF slept(1,2)] slept(6) t in \<open>simp_all add: asleep_def\<close>)
    moreover have "marked (?es @ [(h, x, x', m)]) s'"
      using es(2) slept(6) by (auto simp: marked_def)
    ultimately show ?thesis using slept(5) by (auto simp: grown_def intro!: exI [of _ "es2 @ [(h, x, x', m)]"])
  qed
qed

lemma grown_weaken: "grown fc c w0 ns es1 s \<Longrightarrow> grown fc c w0 ns [] s"
  unfolding grown_def by (metis append_Nil)

lemma grown_asleep: "grown fc c w0 ns es1 s \<Longrightarrow> \<exists>es. asleep fc c w0 ns es s"
  by (auto simp: grown_def)

lemma sleep_phase_asleep:
  assumes laws: "api_store c" "api_status c" "api_typed c" "api_list c" and h: "h \<in> set (handlers fc)"
    and pre: "grown fc c w0 ns [] s" and run: "sleep_phase c h s = (r, s')"
  shows "case r of None \<Rightarrow> grown fc c w0 ns [] s' | Some e \<Rightarrow> \<exists>es. asleep fc c w0 ns es s'"
proof (cases "should_manage_type (ws_sched s) (h_kind h)")
  case False
  with run pre show ?thesis by (auto simp: sleep_phase_def)
next
  case True
  from pre obtain es1 where es1: "asleep fc c w0 ns es1 s" "marked es1 s"
    by (auto simp: grown_def)
  then have ns: "sch_namespace (ws_sched s) = ns" by (simp add: asleep_def)
  define q where "q = k_list c (h_gvk h) ns (wsel_labels (ss_selector (sch_spec (ws_sched s)))) (ws_world s)"
  show ?thesis
  proof (cases q)
    case (Inl e)
    with True run pre ns show ?thesis
      by (auto simp: sleep_phase_def q_def intro: grown_asleep split: if_splits)
  next
    case (Inr xs)
    have x: "ko_gvk x = h_gvk h" "om_namespace (ko_meta x) = ns"
      "ko_key x \<notin> set (map e_key es1) \<Longrightarrow> read_key c w0 (ko_key x) = Inr x" if "x \<in> set xs" for x
    proof -
      from that Inr api_typed_list [OF laws(3)] show t: "ko_gvk x = h_gvk h" "om_namespace (ko_meta x) = ns"
        by (auto simp: q_def)
      from that Inr api_listD(2) [OF laws(4)] have "k_get c (h_gvk h) ns (ko_name x) (ws_world s) = Inr x"
        by (auto simp: q_def)
      then have "read_key c (ws_world s) (ko_key x) = Inr x"
        using t by (simp add: read_key_def ko_key_def)
      moreover have "overlaid c w0 es1 (ws_world s)" using es1(1) by (simp add: asleep_def)
      ultimately show "ko_key x \<notin> set (map e_key es1) \<Longrightarrow> read_key c w0 (ko_key x) = Inr x"
        using overlaidD [of c w0 es1 "ws_world s" "ko_key x"] overlay_None [of es1 "ko_key x"] by simp
    qed
    have start: "grown fc c w0 ns es1 s" unfolding grown_def by (rule exI [of _ "[]"]) (simp add: es1)
    from Inr True run ns have "run_steps (map (sleep_item c (h_kind h) (h_sleep h)) xs) s = (r, s')"
      by (simp add: sleep_phase_def q_def)
    with start have "case r of None \<Rightarrow> grown fc c w0 ns es1 s' | Some e \<Rightarrow> \<exists>es. asleep fc c w0 ns es s'"
    proof (rule run_steps_outcome [rotated])
      fix f t r t'
      assume "f \<in> set (map (sleep_item c (h_kind h) (h_sleep h)) xs)"
        and t: "grown fc c w0 ns es1 t" "f t = (r, t')"
      then obtain y where y: "y \<in> set xs" "f = sleep_item c (h_kind h) (h_sleep h) y" by auto
      show "case r of None \<Rightarrow> grown fc c w0 ns es1 t' | Some e \<Rightarrow> \<exists>es. asleep fc c w0 ns es t'"
      proof (rule sleep_item_asleep [OF laws(1,2) h x(1,2) [OF y(1)] _ t(1)])
        show "sleep_item c (h_kind h) (h_sleep h) y t = (r, t')" using t(2) y(2) by simp
      qed (rule x(3) [OF y(1)])
    qed
    then show ?thesis by (auto intro: grown_weaken split: option.splits)
  qed
qed

lemma sleep_workloads_asleep:
  assumes laws: "api_store c" "api_status c" "api_typed c" "api_list c"
    and start: "sst_managed (sch_status sch) = []" and run: "sleep_workloads fc c sch w = (r, st)"
  shows "\<exists>es. asleep fc c w (sch_namespace sch) es st"
proof -
  let ?ns = "sch_namespace sch" and ?s = "\<lparr>ws_world = w, ws_sched = sch, ws_marked = managed_keys sch\<rparr>"
  have "asleep fc c w ?ns [] ?s" "marked [] ?s"
    using start by (simp_all add: asleep_def overlaid_def overlay_def marked_def managed_keys_def)
  then have "grown fc c w ?ns [] ?s" unfolding grown_def by (intro exI [of _ "[]"]) simp
  then have "case r of None \<Rightarrow> grown fc c w ?ns [] st | Some e \<Rightarrow> \<exists>es. asleep fc c w ?ns es st"
    using run unfolding sleep_workloads_def
    by (rule run_steps_outcome [rotated]) (use sleep_phase_asleep [OF laws] in auto)
  then show ?thesis by (auto intro: grown_asleep split: option.splits)
qed

section \<open>Sleeping is complete\<close>

text \<open>A kind's name contains no slash, so the keys of the map \<open>managed\<close> are unambiguous.\<close>

lemma handler_kind_plain: "h \<in> set (handlers fc) \<Longrightarrow> CHR ''/'' \<notin> set (h_kind h)"
  by (auto simp: handlers_def operator_handlers_def workload_handlers_def row_def gvk_defs)

lemma workload_key_inj:
  assumes "CHR ''/'' \<notin> set k" "CHR ''/'' \<notin> set k'" "workload_key k n = workload_key k' n'"
  shows "k = k' \<and> n = n'"
proof -
  have "takeWhile (\<lambda>c. c \<noteq> CHR ''/'') (workload_key k n) = k" if "CHR ''/'' \<notin> set k" for k n
    using that unfolding workload_key_def by (subst takeWhile_append2) auto
  with assms have "k = k'" by metis
  with assms(3) show ?thesis by (simp add: workload_key_def)
qed

definition settled :: "handler \<Rightarrow> entry list \<Rightarrow> kobj \<Rightarrow> bool" where
  "settled h es x \<longleftrightarrow> h_sleep h x = None \<or> ko_key x \<in> set (map e_key es)"

definition sleeping_run ::
  "float_conv \<Rightarrow> 'w kube \<Rightarrow> 'w \<Rightarrow> sleep_schedule \<Rightarrow> entry list \<Rightarrow> 'w sleep_st \<Rightarrow> bool" where
  "sleeping_run fc c w0 sch es st \<longleftrightarrow>
     asleep fc c w0 (sch_namespace sch) es st \<and> marked es st \<and> sch_spec (ws_sched st) = sch_spec sch"

lemma sleep_item_settles:
  assumes laws: "api_store c" "api_status c" and h: "h \<in> set (handlers fc)"
    and x: "ko_gvk x = h_gvk h" "om_namespace (ko_meta x) = sch_namespace sch"
    and orig: "ko_key x \<notin> set (map e_key es) \<Longrightarrow> read_key c w0 (ko_key x) = Inr x"
    and pre: "sleeping_run fc c w0 sch es s"
    and run: "sleep_item c (h_kind h) (h_sleep h) x s = (None, s')"
  shows "\<exists>es2. sleeping_run fc c w0 sch (es @ es2) s' \<and> settled h (es @ es2) x"
  using run
proof (cases rule: sleep_item_cases)
  case skipped
  have "settled h es x"
  proof (cases "h_sleep h x = None")
    case False
    with skipped pre obtain e where e: "e \<in> set es"
      "workload_key (h_kind (fst e)) (ko_name (e_before e)) = workload_key (h_kind h) (ko_name x)"
      by (auto simp: sleeping_run_def marked_def)
    from pre e(1) have ok: "entry_ok fc c w0 (sch_namespace sch) e"
      by (simp add: sleeping_run_def asleep_def list_all_iff)
    then have "fst e \<in> set (handlers fc)" by (simp add: entry_ok_def)
    with e(2) h have "h_kind (fst e) = h_kind h" "ko_name (e_before e) = ko_name x"
      using workload_key_inj handler_kind_plain by blast+
    moreover from this have "fst e = h"
      using handler_kind_inj \<open>fst e \<in> set (handlers fc)\<close> h by blast
    ultimately have "e_key e = ko_key x" using ok x by (simp add: entry_ok_def ko_key_def)
    with e(1) show ?thesis by (force simp: settled_def)
  qed (simp add: settled_def)
  with pre skipped show ?thesis by (intro exI [of _ "[]"]) simp
next
  case (slept x' m w w' t)
  have t: "t = stored (append_managed m (ws_sched s))" by (rule api_statusD [OF laws(2) slept(4)])
  have fresh: "ko_key x \<notin> set (map e_key es)"
    using pre slept(2) x(1) by (intro unmarked_fresh) (auto simp: sleeping_run_def asleep_def)
  have "asleep fc c w0 (sch_namespace sch) (es @ [(h, x, x', m)]) s'"
  proof (rule asleep_extend)
    show "asleep fc c w0 (sch_namespace sch) es s" using pre by (simp add: sleeping_run_def)
    show "entry_ok fc c w0 (sch_namespace sch) (h, x, x', m)"
      using h x slept(1) orig [OF fresh] by (simp add: entry_ok_def)
    show "read_key c (ws_world s') k = (if k = ko_key x' then Inr x' else read_key c (ws_world s) k)" for k
      using slept(6) read_key_status [OF laws(1) slept(4)] read_key_updated [OF laws(1) slept(3)] by simp
  qed (use pre slept(6) t fresh in \<open>simp_all add: sleeping_run_def asleep_def\<close>)
  moreover have "marked (es @ [(h, x, x', m)]) s'"
    using pre slept(6) by (auto simp: sleeping_run_def marked_def)
  ultimately show ?thesis
    using slept(6) t pre by (intro exI [of _ "[(h, x, x', m)]"]) (simp add: sleeping_run_def settled_def)
qed simp_all

lemma settled_mono: "settled h es x \<Longrightarrow> settled h (es @ es') x"
  by (auto simp: settled_def)

lemma sleep_items_settle:
  assumes laws: "api_store c" "api_status c" and h: "h \<in> set (handlers fc)"
    and xs: "\<And>x. x \<in> set xs \<Longrightarrow> ko_gvk x = h_gvk h \<and> om_namespace (ko_meta x) = sch_namespace sch \<and>
      (ko_key x \<notin> set (map e_key es) \<longrightarrow> read_key c w0 (ko_key x) = Inr x)"
    and pre: "sleeping_run fc c w0 sch es s"
    and run: "run_steps (map (sleep_item c (h_kind h) (h_sleep h)) xs) s = (None, s')"
  shows "\<exists>es2. sleeping_run fc c w0 sch (es @ es2) s' \<and> (\<forall>x \<in> set xs. settled h (es @ es2) x)"
  using xs pre run
proof (induction xs arbitrary: es s)
  case Nil
  then show ?case by (intro exI [of _ "[]"]) simp
next
  case (Cons x xs)
  obtain s1 where s1: "sleep_item c (h_kind h) (h_sleep h) x s = (None, s1)"
    and rest: "run_steps (map (sleep_item c (h_kind h) (h_sleep h)) xs) s1 = (None, s')"
    using Cons.prems(3) by (auto split: prod.splits option.splits)
  from sleep_item_settles [OF laws h _ _ _ Cons.prems(2) s1] Cons.prems(1)
  obtain es1 where es1: "sleeping_run fc c w0 sch (es @ es1) s1" "settled h (es @ es1) x" by auto
  from Cons.IH [OF _ es1(1) rest] Cons.prems(1)
  obtain es2 where es2: "sleeping_run fc c w0 sch ((es @ es1) @ es2) s'"
    "\<forall>x \<in> set xs. settled h ((es @ es1) @ es2) x" by auto
  with settled_mono [OF es1(2)] show ?case by (intro exI [of _ "es1 @ es2"]) simp
qed

text \<open>What a block has to put to sleep: the selected objects of a managed, installed kind.\<close>

definition targeted :: "'w kube \<Rightarrow> 'w \<Rightarrow> sleep_schedule \<Rightarrow> handler \<Rightarrow> kobj \<Rightarrow> bool" where
  "targeted c w0 sch h x \<longleftrightarrow>
     should_manage_type sch (h_kind h) \<and>
     (\<forall>ns sel w e. k_list c (h_gvk h) ns sel w = Inl e \<longrightarrow> \<not> is_no_match e) \<and>
     ko_gvk x = h_gvk h \<and> om_namespace (ko_meta x) = sch_namespace sch \<and>
     selected (wsel_labels (ss_selector (sch_spec sch))) x \<and> read_key c w0 (ko_key x) = Inr x"

text \<open>The loop over the listed objects settles every object that is targeted.\<close>

lemma listed_items_settle:
  assumes laws: "api_store c" "api_status c" "api_typed c" "api_list c" and h: "h \<in> set (handlers fc)"
    and pre: "sleeping_run fc c w0 sch es s"
    and list: "k_list c (h_gvk h) (sch_namespace sch) (wsel_labels (ss_selector (sch_spec sch))) (ws_world s) = Inr xs"
    and items: "run_steps (map (sleep_item c (h_kind h) (h_sleep h)) xs) s = (None, s')"
  shows "\<exists>es2. sleeping_run fc c w0 sch (es @ es2) s' \<and> (\<forall>x. targeted c w0 sch h x \<longrightarrow> settled h (es @ es2) x)"
proof -
  have over: "overlaid c w0 es (ws_world s)" using pre by (simp add: sleeping_run_def asleep_def)
  have untouched: "read_key c (ws_world s) (ko_key x) = read_key c w0 (ko_key x)"
    if "ko_key x \<notin> set (map e_key es)" for x
    using overlaidD [OF over, of "ko_key x"] overlay_None [of es "ko_key x"] that by simp
  have listed: "x \<in> set xs \<longleftrightarrow>
      k_get c (h_gvk h) (sch_namespace sch) (ko_name x) (ws_world s) = Inr x \<and>
      selected (wsel_labels (ss_selector (sch_spec sch))) x" for x
    by (rule api_listD(2) [OF laws(4) list])
  have typed: "ko_gvk x = h_gvk h \<and> om_namespace (ko_meta x) = sch_namespace sch" if "x \<in> set xs" for x
    using api_typed_list [OF laws(3) list] that by simp
  have "\<exists>es2. sleeping_run fc c w0 sch (es @ es2) s' \<and> (\<forall>x \<in> set xs. settled h (es @ es2) x)"
  proof (rule sleep_items_settle [OF laws(1,2) h _ pre items], intro conjI impI)
    fix x assume x: "x \<in> set xs"
    from typed [OF x] show "ko_gvk x = h_gvk h" "om_namespace (ko_meta x) = sch_namespace sch" by simp_all
    assume "ko_key x \<notin> set (map e_key es)"
    from untouched [OF this] listed [of x] x typed [OF x] show "read_key c w0 (ko_key x) = Inr x"
      by (simp add: read_key_def ko_key_def)
  qed
  then obtain es2 where es2: "sleeping_run fc c w0 sch (es @ es2) s'" "\<forall>x \<in> set xs. settled h (es @ es2) x"
    by blast
  have "settled h (es @ es2) x" if t: "targeted c w0 sch h x" for x
  proof (cases "ko_key x \<in> set (map e_key es)")
    case False
    from t have "ko_gvk x = h_gvk h" "om_namespace (ko_meta x) = sch_namespace sch"
      "selected (wsel_labels (ss_selector (sch_spec sch))) x" "read_key c w0 (ko_key x) = Inr x"
      by (simp_all add: targeted_def)
    with untouched [OF False] have "x \<in> set xs" using listed [of x] by (simp add: read_key_def ko_key_def)
    with es2(2) show ?thesis by blast
  qed (simp add: settled_def)
  with es2(1) show ?thesis by blast
qed

lemma sleep_phase_settles:
  assumes laws: "api_store c" "api_status c" "api_typed c" "api_list c" and h: "h \<in> set (handlers fc)"
    and pre: "sleeping_run fc c w0 sch es s" and run: "sleep_phase c h s = (None, s')"
  shows "\<exists>es2. sleeping_run fc c w0 sch (es @ es2) s' \<and> (\<forall>x. targeted c w0 sch h x \<longrightarrow> settled h (es @ es2) x)"
proof -
  have sp: "sch_spec (ws_sched s) = sch_spec sch" and ns: "sch_namespace (ws_sched s) = sch_namespace sch"
    using pre by (simp_all add: sleeping_run_def asleep_def)
  then have manage: "should_manage_type (ws_sched s) (h_kind h) = should_manage_type sch (h_kind h)"
    by (simp add: should_manage_type_def)
  show ?thesis
  proof (cases "should_manage_type sch (h_kind h)")
    case False
    with run manage have "s' = s" by (simp add: sleep_phase_def)
    with False pre show ?thesis by (intro exI [of _ "[]"]) (simp add: targeted_def)
  next
    case True
    show ?thesis
    proof (cases "k_list c (h_gvk h) (sch_namespace sch) (wsel_labels (ss_selector (sch_spec sch))) (ws_world s)")
      case (Inl e)
      with True run manage sp ns have "s' = s" "is_no_match e"
        by (auto simp: sleep_phase_def split: if_splits)
      with Inl pre show ?thesis
        by (intro exI [of _ "[]"]) (auto simp: targeted_def)
    next
      case (Inr xs)
      with True run manage sp ns have "run_steps (map (sleep_item c (h_kind h) (h_sleep h)) xs) s = (None, s')"
        by (simp add: sleep_phase_def)
      then show ?thesis by (rule listed_items_settle [OF laws h pre Inr])
    qed
  qed
qed

lemma sleep_phases_settle:
  assumes laws: "api_store c" "api_status c" "api_typed c" "api_list c" and hs: "set hs \<subseteq> set (handlers fc)"
    and pre: "sleeping_run fc c w0 sch es s" and run: "run_steps (map (sleep_phase c) hs) s = (None, s')"
  shows "\<exists>es2. sleeping_run fc c w0 sch (es @ es2) s' \<and>
    (\<forall>h \<in> set hs. \<forall>x. targeted c w0 sch h x \<longrightarrow> settled h (es @ es2) x)"
  using hs pre run
proof (induction hs arbitrary: es s)
  case Nil
  then show ?case by (intro exI [of _ "[]"]) simp
next
  case (Cons h hs)
  obtain s1 where s1: "sleep_phase c h s = (None, s1)"
    and rest: "run_steps (map (sleep_phase c) hs) s1 = (None, s')"
    using Cons.prems(3) by (auto split: prod.splits option.splits)
  from Cons.prems(1) have h: "h \<in> set (handlers fc)" "set hs \<subseteq> set (handlers fc)" by auto
  from sleep_phase_settles [OF laws h(1) Cons.prems(2) s1] obtain es1 where
    es1: "sleeping_run fc c w0 sch (es @ es1) s1" "\<forall>x. targeted c w0 sch h x \<longrightarrow> settled h (es @ es1) x" by blast
  from Cons.IH [OF h(2) es1(1) rest] obtain es2 where es2: "sleeping_run fc c w0 sch ((es @ es1) @ es2) s'"
    "\<forall>h \<in> set hs. \<forall>x. targeted c w0 sch h x \<longrightarrow> settled h ((es @ es1) @ es2) x" by blast
  with es1(2) settled_mono [of _ "es @ es1" _ es2] show ?case
    by (intro exI [of _ "es1 @ es2"]) auto
qed

text \<open>
  A run of \<open>sleepWorkloads\<close> without error that started from an empty list is complete: every
  object of a managed kind whose CRD is installed, in the schedule's namespace and with the
  selected labels, is afterwards in a state in which there is nothing left to put to sleep.
\<close>

theorem sleep_is_complete:
  assumes "api_store c" "api_status c" "api_typed c" "api_list c"
    and start: "sst_managed (sch_status sch) = []"
    and run: "sleep_workloads fc c sch w = (None, st)"
    and h: "h \<in> set (handlers fc)" and x: "targeted c w sch h x"
  shows "\<exists>y. read_key c (ws_world st) (ko_key x) = Inr y \<and> h_sleep h y = None"
proof -
  let ?s = "\<lparr>ws_world = w, ws_sched = sch, ws_marked = managed_keys sch\<rparr>"
  have "sleeping_run fc c w sch [] ?s"
    using start by (simp add: sleeping_run_def asleep_def overlaid_def overlay_def marked_def managed_keys_def)
  from sleep_phases_settle [OF assms(1-4) subset_refl this] run obtain es where
    es: "sleeping_run fc c w sch es st" "settled h es x"
    using h x by (auto simp: sleep_workloads_def)
  from es(1) have d: "distinct (map e_key es)" and over: "overlaid c w es (ws_world st)"
    and ok: "list_all (entry_ok fc c w (sch_namespace sch)) es"
    by (simp_all add: sleeping_run_def asleep_def)
  show ?thesis
  proof (cases "ko_key x \<in> set (map e_key es)")
    case True
    then obtain e where e: "e \<in> set es" "e_key e = ko_key x" by auto
    obtain h' x0 x' m where ee: "e = (h', x0, x', m)" by (cases e)
    from ok e(1) ee have h': "h' \<in> set (handlers fc)" "h_sleep h' x0 = Some (x', m)" "ko_gvk x0 = h_gvk h'"
      by (auto simp: list_all_iff entry_ok_def)
    with x e(2) ee have "h_gvk h' = h_gvk h" by (simp add: targeted_def ko_key_def)
    then have "h' = h" using handler_kind_inj [OF h'(1) h] by simp
    then have "h_sleep h x' = None" using handler_facts(4) [OF handler_contract [OF h'(1)] h'(2)] by simp
    moreover have "read_key c (ws_world st) (ko_key x) = Inr x'"
      using overlaidD [OF over, of "ko_key x"] overlay_hit [OF d e(1)] e(2) ee by simp
    ultimately show ?thesis by blast
  next
    case False
    with es(2) have "h_sleep h x = None" by (simp add: settled_def)
    moreover have "read_key c (ws_world st) (ko_key x) = Inr x"
      using overlaidD [OF over, of "ko_key x"] overlay_None [of es "ko_key x"] False x by (simp add: targeted_def)
    ultimately show ?thesis by blast
  qed
qed

theorem sleep_is_complete_witness:
  "\<exists>st y. sleep_workloads (\<lambda>_ _. 0) (mem_kube (\<lambda>_. False)) dev_schedule dev_cluster = (None, st) \<and>
    mem_get cron_job_gvk ''dev'' ''nightly'' (ws_world st) = Inr y \<and> sleep_cron_job ''CronJob'' y = None"
proof -
  let ?c = "mem_kube (\<lambda>_. False)" and ?h = "row cron_job_gvk False False sleep_cron_job wake_cron_job"
  let ?run = "sleep_workloads (\<lambda>_ _. 0) ?c dev_schedule dev_cluster"
  have "fst ?run = None" by code_simp
  then obtain st where run: "?run = (None, st)" by (metis prod.collapse)
  have h: "?h \<in> set (handlers (\<lambda>_ _. 0))" by (simp add: handlers_def workload_handlers_def)
  have "read_key ?c dev_cluster (ko_key nightly) = Inr nightly"
    unfolding read_key_def by code_simp
  then have x: "targeted ?c dev_cluster dev_schedule ?h nightly"
    by (simp add: targeted_def row_def should_manage_type_def dev_schedule_def nightly_def mem_list_def selected_def)
  have start: "sst_managed (sch_status dev_schedule) = []" by (simp add: dev_schedule_def)
  from sleep_is_complete [OF mem_api_store mem_api_status mem_api_typed mem_api_list start run h x] run
  show ?thesis by (simp add: row_def read_key_def ko_key_def nightly_def cron_job_gvk_def)
qed

section \<open>Waking\<close>

text \<open>The state while waking: the objects with a key in \<open>A\<close> are restored already.\<close>

definition waking :: "'w kube \<Rightarrow> 'w \<Rightarrow> entry list \<Rightarrow> (gvk \<times> string \<times> string) set \<Rightarrow> 'w \<Rightarrow> bool" where
  "waking c w0 es A w \<longleftrightarrow>
     (\<forall>k \<in> A. \<exists>x y. read_key c w0 k = Inr x \<and> read_key c w k = Inr y \<and> same_state y x) \<and>
     (\<forall>k. k \<notin> A \<longrightarrow> read_key c w k = (case overlay es k of Some x \<Rightarrow> Inr x | None \<Rightarrow> read_key c w0 k))"

lemma waking_asleep: "waking c w0 es A w \<Longrightarrow> k \<notin> A \<Longrightarrow> overlay es k = Some x \<Longrightarrow> read_key c w k = Inr x"
  unfolding waking_def by (metis option.case(2))

lemma waking_insert:
  assumes "waking c w0 es A w" and "read_key c w0 k = Inr x" "same_state y x"
    and "\<And>k'. read_key c w' k' = (if k' = k then Inr y else read_key c w k')"
  shows "waking c w0 es (insert k A) w'"
  using assms unfolding waking_def by (metis insert_iff)

lemma wake_switch_restores:
  assumes store: "api_store c" and hs: "set hs \<subseteq> set (handlers fc)"
    and e: "entry_ok fc c w0 (sch_namespace sch) e" "fst e \<in> set hs" "well_formed (e_before e)"
    and hit: "overlay es (e_key e) = Some (e_after e)"
    and pre: "waking c w0 es A w" "e_key e \<notin> A"
    and run: "wake_switch c sch hs (e_record e) w = (None, w')"
  shows "waking c w0 es (insert (e_key e) A) w'"
proof -
  obtain h x x' m where ee: "e = (h, x, x', m)" by (cases e)
  from e ee have h: "h \<in> set (handlers fc)" "h_sleep h x = Some (x', m)" "ko_gvk x = h_gvk h"
    "om_namespace (ko_meta x) = sch_namespace sch" "read_key c w0 (ko_key x) = Inr x"
    by (simp_all add: entry_ok_def)
  note con = handler_contract [OF h(1)]
  have m: "mw_kind m = h_kind h" "mw_name m = ko_name x" using handler_facts(2) [OF con h(2)] by simp_all
  obtain y where y: "h_wake h m x' = Some y" "same_state y x"
    using handler_facts(5) [OF con _ h(2)] e(3) ee by auto
  have "find (\<lambda>h'. h_kind h' = mw_kind m) hs = Some h"
  proof -
    have "find (\<lambda>h'. h_kind h' = mw_kind m) hs \<noteq> None"
      using e(2) ee m by (auto simp: find_None_iff)
    then obtain h' where h': "find (\<lambda>h'. h_kind h' = mw_kind m) hs = Some h'" by blast
    then have "h' \<in> set hs" "h_kind h' = h_kind h" using m by (auto simp: find_Some_iff)
    then have "h' = h" using handler_kind_inj h(1) hs by blast
    with h' show ?thesis by simp
  qed
  moreover have "k_get c (h_gvk h) (sch_namespace sch) (mw_name m) w = Inr x'"
    using waking_asleep [OF pre hit] ee h m by (simp add: read_key_def ko_key_def)
  ultimately have upd: "k_update c y w = (None, w')"
    using run ee y(1) by (simp add: wake_switch_def wake_item_def)
  have "ko_key y = ko_key x" using y(2) by (simp add: same_state_def)
  then show ?thesis
    using waking_insert [OF pre(1) h(5) y(2)] read_key_updated [OF store upd] ee by simp
qed

lemma wake_switch_other:
  assumes hs: "set hs \<subseteq> set (handlers fc)" and e: "entry_ok fc c w0 ns e" "fst e \<notin> set hs"
  shows "wake_switch c sch hs (e_record e) w = (None, w)"
proof -
  obtain h x x' m where ee: "e = (h, x, x', m)" by (cases e)
  from e ee have h: "h \<in> set (handlers fc)" "h_sleep h x = Some (x', m)" by (simp_all add: entry_ok_def)
  have m: "mw_kind m = h_kind h" using handler_facts(2) [OF handler_contract [OF h(1)] h(2)] by simp
  have "find (\<lambda>h'. h_kind h' = mw_kind m) hs = None"
    using handler_kind_inj h(1) hs e(2) ee m by (auto simp: find_None_iff)
  then show ?thesis using ee by (simp add: wake_switch_def)
qed

lemma wake_pass_restores:
  assumes store: "api_store c" and hs: "set hs \<subseteq> set (handlers fc)"
    and ok: "list_all (\<lambda>e. entry_ok fc c w0 (sch_namespace sch) e \<and> well_formed (e_before e)
      \<and> overlay es (e_key e) = Some (e_after e)) es'"
    and d: "distinct (map e_key es')" "\<forall>e \<in> set es'. fst e \<in> set hs \<longrightarrow> e_key e \<notin> A"
    and pre: "waking c w0 es A w"
    and run: "run_steps (map (wake_switch c sch hs) (map e_record es')) w = (None, w')"
  shows "waking c w0 es (A \<union> e_key ` {e \<in> set es'. fst e \<in> set hs}) w'"
  using ok d pre run
proof (induction es' arbitrary: A w)
  case Nil
  then show ?case by simp
next
  case (Cons e es')
  obtain w1 where w1: "wake_switch c sch hs (e_record e) w = (None, w1)"
    and rest: "run_steps (map (wake_switch c sch hs) (map e_record es')) w1 = (None, w')"
    using Cons.prems(5) by (auto split: prod.splits option.splits)
  show ?case
  proof (cases "fst e \<in> set hs")
    case True
    have woken: "waking c w0 es (insert (e_key e) A) w1"
      using Cons.prems True by (intro wake_switch_restores [OF store hs _ _ _ _ _ _ w1]) auto
    have fresh: "\<forall>e' \<in> set es'. fst e' \<in> set hs \<longrightarrow> e_key e' \<notin> insert (e_key e) A"
    proof (intro ballI impI)
      fix e' assume e': "e' \<in> set es'" "fst e' \<in> set hs"
      have "e_key e \<notin> e_key ` set es'"
        using Cons.prems(2) by (simp only: list.map distinct.simps set_map) simp
      moreover have "e_key e' \<in> e_key ` set es'" using e'(1) by (rule imageI)
      ultimately have "e_key e' \<noteq> e_key e" by (intro notI) simp
      moreover have "e_key e' \<notin> A" using bspec [OF Cons.prems(3), of e'] e' by simp
      ultimately show "e_key e' \<notin> insert (e_key e) A" by simp
    qed
    have "waking c w0 es (insert (e_key e) A \<union> e_key ` {e \<in> set es'. fst e \<in> set hs}) w'"
      using Cons.prems(1,2) by (intro Cons.IH [OF _ _ fresh woken rest]) simp_all
    moreover have "insert (e_key e) A \<union> e_key ` {e \<in> set es'. fst e \<in> set hs} =
        A \<union> e_key ` {e' \<in> set (e # es'). fst e' \<in> set hs}" using True by auto
    ultimately show ?thesis by simp
  next
    case False
    have "entry_ok fc c w0 (sch_namespace sch) e" using Cons.prems(1) by simp
    from wake_switch_other [OF hs this False, of sch w] w1 have "w1 = w" by simp
    with rest have rest': "run_steps (map (wake_switch c sch hs) (map e_record es')) w = (None, w')" by simp
    have "waking c w0 es (A \<union> e_key ` {e \<in> set es'. fst e \<in> set hs}) w'"
      using Cons.prems(1-3) by (intro Cons.IH [OF _ _ _ Cons.prems(4) rest']) simp_all
    moreover have "{e' \<in> set (e # es'). fst e' \<in> set hs} = {e \<in> set es'. fst e \<in> set hs}" using False by auto
    ultimately show ?thesis by simp
  qed
qed

text \<open>The two passes share no key, so that together they restore every entry.\<close>

lemma wake_restores_entries:
  assumes store: "api_store c" and es: "asleep fc c w (sch_namespace (ws_sched st)) es st"
    and wf: "\<And>k x. read_key c w k = Inr x \<Longrightarrow> well_formed x"
    and wake: "wake_workloads fc c (ws_sched st) (ws_world st) = (None, w')"
  shows "waking c w es (e_key ` set es) w'"
proof -
  let ?s = "ws_sched st"
  from es have ms: "managed_list st = map e_record es" and d: "distinct (map e_key es)" and over: "overlaid c w es (ws_world st)"
    and entries: "\<forall>e \<in> set es. entry_ok fc c w (sch_namespace ?s) e"
    by (simp_all add: asleep_def list_all_iff)
  have ok: "list_all (\<lambda>e. entry_ok fc c w (sch_namespace ?s) e \<and> well_formed (e_before e)
      \<and> overlay es (e_key e) = Some (e_after e)) es"
    unfolding list_all_iff using entries wf overlay_hit [OF d] by (metis entry_ok_def)
  have start: "waking c w es {} (ws_world st)" using over by (simp only: waking_def overlaid_def) simp
  from wake ms obtain w1
    where pass1: "run_steps (map (wake_switch c ?s (workload_handlers fc)) (map e_record es)) (ws_world st) = (None, w1)"
      and pass2: "run_steps (map (wake_switch c ?s operator_handlers) (map e_record es)) w1 = (None, w')"
    unfolding wake_workloads_def Let_def by (auto split: prod.splits option.splits)
  define A where "A = e_key ` {e \<in> set es. fst e \<in> set (workload_handlers fc)}"
  have "waking c w es ({} \<union> A) w1"
    unfolding A_def by (rule wake_pass_restores [OF store workload_handlers_subset ok d _ start pass1]) simp
  moreover have "\<forall>e \<in> set es. fst e \<in> set operator_handlers \<longrightarrow> e_key e \<notin> {} \<union> A"
  proof (intro ballI impI notI)
    fix e assume e: "e \<in> set es" "fst e \<in> set operator_handlers" "e_key e \<in> {} \<union> A"
    then obtain e' where e': "e' \<in> set es" "fst e' \<in> set (workload_handlers fc)" "e_key e' = e_key e"
      by (auto simp: A_def)
    from entries e(1) e' have "h_gvk (fst e) = h_gvk (fst e')" by (fastforce simp: entry_ok_def ko_key_def)
    then show False using not_operator_workload [of fc] e(2) e'(2) by (metis IntI empty_iff imageI)
  qed
  ultimately have "waking c w es (({} \<union> A) \<union> e_key ` {e \<in> set es. fst e \<in> set operator_handlers}) w'"
    by (intro wake_pass_restores [OF store operator_handlers_subset ok d _ _ pass2])
  moreover have "({} \<union> A) \<union> e_key ` {e \<in> set es. fst e \<in> set operator_handlers} = e_key ` set es"
    using entries by (force simp: A_def handlers_def entry_ok_def)
  ultimately show ?thesis by simp
qed


text \<open>The Flux release and the deployment, to sleep and back.\<close>

lemma flux_cluster_well_formed:
  assumes "read_key (mem_kube f) flux_cluster k = Inr x"
  shows "well_formed x"
proof -
  from assms have "x \<in> set (first_of_key [web, release])"
    by (simp add: read_key_def mem_get_Inr flux_cluster_def)
  then have "x = web \<or> x = release" using first_of_key_subset [of "[web, release]"] by auto
  moreover have "well_formed web" by (simp add: well_formed_def web_def)
  moreover have "well_formed release"
    by (simp add: well_formed_def release_def spec_or_empty_def spec_of_def as_obj_def as_arr_def
        Let_def fits32_def num_val_def node_sets_ok_def)
  ultimately show ?thesis by blast
qed


end
