(* ===== verification/Sleep_Window.thy ===== *)
theory Sleep_Window
  imports Api_Types
begin

text \<open>
  When a schedule sleeps: \<open>shouldBeSleepingAtWindow\<close>, \<open>shouldBeSleepingAt\<close> of the
  sleep controller and \<open>isInConsolidationWindow\<close> of the bin packer, with the abstract
  meaning of a window (an open interval of local time that starts on an allowed day) and the
  proof that both implement it. \<open>load\<close> is \<open>time.LoadLocation\<close>: the time zone database.
\<close>

section \<open>The code\<close>

definition resolve_location :: "(string \<Rightarrow> location option) \<Rightarrow> string \<Rightarrow> location" where
  "resolve_location load tz =
     (if tz \<noteq> [] then (case load tz of Some l \<Rightarrow> l | None \<Rightarrow> utc) else utc)"

definition should_be_sleeping_at_window ::
  "(string \<Rightarrow> location option) \<Rightarrow> sleep_window \<Rightarrow> instant \<Rightarrow> bool" where
  "should_be_sleeping_at_window load win t =
     (let loc = resolve_location load (sw_timezone win) in
      case parse_in_location (sw_start win) loc of
        None \<Rightarrow> False
      | Some start_time \<Rightarrow>
        (case parse_in_location (sw_end win) loc of
           None \<Rightarrow> False
         | Some end_time \<Rightarrow>
           (let today = day_number loc t;
                s = date_at loc today (hour_of loc start_time) (minute_of loc start_time);
                e = date_at loc today (hour_of loc end_time) (minute_of loc end_time);
                overnight = e < s
            in if sw_days win \<noteq> [] \<and>
                  (let check_day =
                     (if overnight \<and> t < e then (weekday loc t + 6) mod 7 else weekday loc t)
                   in check_day \<notin> set (sw_days win))
               then False
               else if overnight then s < t \<or> t < e
               else s < t \<and> t < e)))"

definition should_be_sleeping_at ::
  "(string \<Rightarrow> location option) \<Rightarrow> sleep_spec \<Rightarrow> instant \<Rightarrow> bool" where
  "should_be_sleeping_at load spec t =
     list_ex (\<lambda>w. should_be_sleeping_at_window load w t) (get_windows spec)"

text \<open>
  The bin packer's own copy of the window test, on its optional schedule: no schedule means
  that consolidation is always allowed.
\<close>

definition is_in_consolidation_window ::
  "(string \<Rightarrow> location option) \<Rightarrow> sleep_window option \<Rightarrow> instant \<Rightarrow> bool" where
  "is_in_consolidation_window load schedule t =
     (case schedule of
        None \<Rightarrow> True
      | Some win \<Rightarrow>
        (let loc = resolve_location load (sw_timezone win) in
         case parse_in_location (sw_start win) loc of
           None \<Rightarrow> False
         | Some start_time \<Rightarrow>
           (case parse_in_location (sw_end win) loc of
              None \<Rightarrow> False
            | Some end_time \<Rightarrow>
              (let today = day_number loc t;
                   s = date_at loc today (hour_of loc start_time) (minute_of loc start_time);
                   e = date_at loc today (hour_of loc end_time) (minute_of loc end_time);
                   overnight = e < s;
                   check_day =
                     (if overnight \<and> t < e then (weekday loc t + 6) mod 7 else weekday loc t);
                   day_allowed = (sw_days win = [] \<or> check_day \<in> set (sw_days win))
               in day_allowed \<and> (if overnight then s < t \<or> t < e else s < t \<and> t < e)))))"

section \<open>Parsing agrees with the validation pattern\<close>

lemma is_digit_cases:
  assumes "is_digit c"
  shows "c \<in> set ''0123456789''"
proof -
  have "(of_char c :: nat) \<in> {48, 49, 50, 51, 52, 53, 54, 55, 56, 57}"
    using assms unfolding is_digit_def by (simp, presburger)
  then have "(of_char c :: nat) \<in> of_char ` set ''0123456789''"
    by simp
  then show ?thesis by (simp only: inj_image_mem_iff [OF inj_of_char])
qed

lemma colon_not_digit [simp]: "\<not> is_digit CHR '':''"
  by (simp add: is_digit_def)

lemma digit_01: "is_digit t \<Longrightarrow> (t = CHR ''0'' \<or> t = CHR ''1'') \<longleftrightarrow> digit_val t < 2"
  by (drule is_digit_cases) (auto simp: digit_val_def)

lemma digit_2: "is_digit t \<Longrightarrow> t = CHR ''2'' \<longleftrightarrow> digit_val t = 2"
  by (drule is_digit_cases) (auto simp: digit_val_def)

lemma digit_012: "is_digit CHR ''0''" "is_digit CHR ''1''" "is_digit CHR ''2''"
  by (simp_all add: is_digit_def)

lemma getnum_False_iff:
  "getnum False s = Some (n, r) \<longleftrightarrow>
     (\<exists>c. s = c # r \<and> is_digit c \<and> (r = [] \<or> \<not> is_digit (hd r)) \<and> n = int (digit_val c)) \<or>
     (\<exists>c d. s = c # d # r \<and> is_digit c \<and> is_digit d
        \<and> n = int (digit_val c) * 10 + int (digit_val d))"
  by (cases "(False, s)" rule: getnum.cases) auto

lemma getnum_True_iff:
  "getnum True s = Some (n, r) \<longleftrightarrow>
     (\<exists>c d. s = c # d # r \<and> is_digit c \<and> is_digit d
        \<and> n = int (digit_val c) * 10 + int (digit_val d))"
  by (cases "(True, s)" rule: getnum.cases) auto

lemma parse_hhmm_iff:
  "parse_hhmm s = Some (h, mi) \<longleftrightarrow>
     (\<exists>r a b. getnum False s = Some (h, CHR '':'' # r) \<and> h < 24 \<and> r = [a, b] \<and> is_digit a \<and> is_digit b
        \<and> mi = int (digit_val a) * 10 + int (digit_val b) \<and> mi < 60)"
  by (auto simp: parse_hhmm_def getnum_True_iff split: option.splits list.splits if_splits)

lemma minutes_less: "is_digit b \<Longrightarrow> int (digit_val a) * 10 + int (digit_val b) < 60 \<longleftrightarrow> digit_val a < 6"
  using digit_val_less [of b] by linarith

lemma parse_hhmm_5:
  "parse_hhmm [t, h, c, a, b] \<noteq> None \<longleftrightarrow> hhmm_pattern [t, h, c, a, b]"
  using digit_01 [of t] digit_2 [of t] digit_val_less [of t] digit_val_less [of h] digit_012
  by (auto simp: parse_hhmm_iff getnum_False_iff minutes_less)

lemma parse_hhmm_4:
  "parse_hhmm [h, c, a, b] \<noteq> None \<longleftrightarrow> hhmm_pattern [h, c, a, b]"
  using digit_val_less [of h]
  by (auto simp: parse_hhmm_iff getnum_False_iff minutes_less)

lemma parse_hhmm_length: "parse_hhmm s = Some p \<Longrightarrow> length s = 4 \<or> length s = 5"
  by (cases p) (auto simp: parse_hhmm_iff getnum_False_iff)

text \<open>
  The pattern that the API server validates \<open>start\<close> and \<open>end\<close> against accepts exactly
  the strings that \<open>time.ParseInLocation\<close> parses in \<open>shouldBeSleepingAtWindow\<close>, so the
  parse-error branches are never taken for an admitted schedule.
\<close>

theorem hhmm_pattern_parses: "parse_hhmm s \<noteq> None \<longleftrightarrow> hhmm_pattern s"
proof (cases "length s = 4 \<or> length s = 5")
  case True
  then consider h c a b where "s = [h, c, a, b]" | t h c a b where "s = [t, h, c, a, b]"
    by (auto simp: length_Suc_conv numeral_eq_Suc)
  then show ?thesis by cases (simp_all only: parse_hhmm_4 parse_hhmm_5)
next
  case False
  then have "\<not> hhmm_pattern s" by (cases s rule: hhmm_pattern.cases) auto
  with False show ?thesis by (auto dest: parse_hhmm_length)
qed

section \<open>What a window means\<close>

text \<open>
  The abstract meaning of a window with start \<open>s\<close> and end \<open>e\<close> (seconds after midnight),
  over local time in nanoseconds: it opens every allowed day at \<open>s\<close> and closes at the next
  \<open>e\<close>, on the following day when \<open>e\<close> is before \<open>s\<close>. Both bounds are excluded.
\<close>

definition opens :: "int \<Rightarrow> int \<Rightarrow> instant" where
  "opens s d = (d * secs_per_day + s) * second"

definition closes :: "int \<Rightarrow> int \<Rightarrow> int \<Rightarrow> instant" where
  "closes s e d = ((d + (if e < s then 1 else 0)) * secs_per_day + e) * second"

definition day_allowed :: "int list \<Rightarrow> int \<Rightarrow> bool" where
  "day_allowed days d \<longleftrightarrow> days = [] \<or> weekday_of_day d \<in> set days"

definition window_holds :: "int \<Rightarrow> int \<Rightarrow> int list \<Rightarrow> instant \<Rightarrow> bool" where
  "window_holds s e days l \<longleftrightarrow>
     (\<exists>d. day_allowed days d \<and> opens s d < l \<and> l < closes s e d)"

lemma weekday_previous: "(weekday_of_day d + 6) mod 7 = weekday_of_day (d - 1)"
  unfolding weekday_of_day_def by presburger

lemma window_holds_today:
  assumes "D * secs_per_day * second \<le> l" "l < (D + 1) * secs_per_day * second"
    and "0 \<le> s" "s < secs_per_day" "0 \<le> e" "e < secs_per_day"
  shows "window_holds s e days l \<longleftrightarrow>
    (if e < s
     then day_allowed days D \<and> opens s D < l
          \<or> day_allowed days (D - 1) \<and> l < (D * secs_per_day + e) * second
     else day_allowed days D \<and> opens s D < l \<and> l < (D * secs_per_day + e) * second)"
proof -
  have only: "d = D \<or> (e < s \<and> d = D - 1)" if "opens s d < l" "l < closes s e d" for d
  proof -
    from that(1) assms have "d < D + 1" by (simp add: opens_def)
    moreover from that(2) assms have "D - (if e < s then 2 else 1) < d"
      by (simp add: closes_def split: if_splits)
    ultimately show ?thesis by (auto split: if_splits)
  qed
  have opens: "opens s (D - 1) < l" using assms by (simp add: opens_def)
  have closes: "e < s \<Longrightarrow> l < closes s e D" using assms by (simp add: closes_def)
  show ?thesis
  proof (cases "e < s")
    case True
    have "closes s e (D - 1) = (D * secs_per_day + e) * second"
      using True by (simp add: closes_def)
    with True only opens closes show ?thesis
      unfolding window_holds_def by metis
  next
    case False
    then have "closes s e D = (D * secs_per_day + e) * second"
      by (simp add: closes_def)
    with False only show ?thesis unfolding window_holds_def by metis
  qed
qed

text \<open>Seconds after midnight of a parsed time of day.\<close>

definition day_secs :: "int \<times> int \<Rightarrow> int" where
  "day_secs p = fst p * 3600 + snd p * 60"

lemma day_secs_range: "parse_hhmm s = Some p \<Longrightarrow> 0 \<le> day_secs p \<and> day_secs p < secs_per_day"
  by (cases p) (auto simp: day_secs_def dest!: parse_hhmm_range)

lemma should_be_sleeping_at_window_iff:
  assumes loc: "has_year_zero (resolve_location load (sw_timezone win))"
      "steady (resolve_location load (sw_timezone win)) t ofs"
    and st: "parse_hhmm (sw_start win) = Some p" and en: "parse_hhmm (sw_end win) = Some q"
  shows "should_be_sleeping_at_window load win t \<longleftrightarrow>
    window_holds (day_secs p) (day_secs q) (sw_days win) (t + ofs * second)"
proof -
  define lc where "lc = resolve_location load (sw_timezone win)"
  define D where "D = day_number lc t"
  from st loc(1) obtain u where u: "parse_in_location (sw_start win) lc = Some u"
    "hour_of lc u = fst p" "minute_of lc u = snd p"
    by (cases p) (auto simp: lc_def dest: hour_minute_of_parsed)
  from en loc(1) obtain v where v: "parse_in_location (sw_end win) lc = Some v"
    "hour_of lc v = fst q" "minute_of lc v = snd q"
    by (cases q) (auto simp: lc_def dest: hour_minute_of_parsed)
  from st have rp: "0 \<le> fst p" "fst p < 24" "0 \<le> snd p" "snd p < 60"
    by (cases p; auto dest: parse_hhmm_range)+
  from en have rq: "0 \<le> fst q" "fst q < 24" "0 \<le> snd q" "snd q < 60"
    by (cases q; auto dest: parse_hhmm_range)+
  have S: "date_at lc D (fst p) (snd p) = (D * secs_per_day + day_secs p - ofs) * second"
    unfolding D_def day_secs_def using date_at_steady [OF loc(2) rp] by (simp add: lc_def)
  have E: "date_at lc D (fst q) (snd q) = (D * secs_per_day + day_secs q - ofs) * second"
    unfolding D_def day_secs_def using date_at_steady [OF loc(2) rq] by (simp add: lc_def)
  have "lc (unix_sec t) = ofs" using loc(2) by (simp add: steady_def lc_def)
  then have D: "D = (t div second + ofs) div secs_per_day"
    by (simp add: D_def day_number_def local_sec_def unix_sec_def)
  define l where "l = t + ofs * second"
  have "D * secs_per_day * second \<le> l" "l < (D + 1) * secs_per_day * second"
    unfolding D l_def by simp_all
  note today = window_holds_today [OF this, of "day_secs p" "day_secs q" "sw_days win"]
  have gt: "(D * secs_per_day + day_secs p - ofs) * second < t \<longleftrightarrow> opens (day_secs p) D < l"
    by (simp add: opens_def l_def algebra_simps)
  have lt: "t < (D * secs_per_day + day_secs q - ofs) * second
      \<longleftrightarrow> l < (D * secs_per_day + day_secs q) * second"
    by (simp add: l_def algebra_simps)
  have wd: "weekday lc t = weekday_of_day D"
    by (simp add: weekday_def D_def)
  have ov: "(D * secs_per_day + day_secs q - ofs) * second < (D * secs_per_day + day_secs p - ofs) * second
      \<longleftrightarrow> day_secs q < day_secs p" by simp
  show ?thesis
    unfolding l_def [symmetric] today [OF day_secs_range [OF st, THEN conjunct1]
        day_secs_range [OF st, THEN conjunct2] day_secs_range [OF en, THEN conjunct1]
        day_secs_range [OF en, THEN conjunct2]]
    unfolding should_be_sleeping_at_window_def lc_def [symmetric] Let_def u v option.case
      D_def [symmetric] S E gt lt ov wd weekday_previous day_allowed_def
    by (auto simp: opens_def)
qed

section \<open>The contract of a window test\<close>

text \<open>
  Both controllers rely on the same contract of a window test: where the zone's offset is
  steady it decides the abstract meaning, and a window that does not parse is never active.
\<close>

locale window_test =
  fixes active :: "(string \<Rightarrow> location option) \<Rightarrow> sleep_window \<Rightarrow> instant \<Rightarrow> bool"
  assumes active_iff:
    "has_year_zero (resolve_location load (sw_timezone win)) \<Longrightarrow>
     steady (resolve_location load (sw_timezone win)) t ofs \<Longrightarrow>
     parse_hhmm (sw_start win) = Some p \<Longrightarrow> parse_hhmm (sw_end win) = Some q \<Longrightarrow>
     active load win t \<longleftrightarrow>
       window_holds (day_secs p) (day_secs q) (sw_days win) (t + ofs * second)"
  and inactive_unparsed:
    "parse_hhmm (sw_start win) = None \<or> parse_hhmm (sw_end win) = None \<Longrightarrow> \<not> active load win t"
begin

lemma active_parsed:
  assumes "has_year_zero (resolve_location load (sw_timezone win))"
    and "steady (resolve_location load (sw_timezone win)) t ofs"
  shows "active load win t \<longleftrightarrow>
    (\<exists>p q. parse_hhmm (sw_start win) = Some p \<and> parse_hhmm (sw_end win) = Some q \<and>
       window_holds (day_secs p) (day_secs q) (sw_days win) (t + ofs * second))"
proof (cases "parse_hhmm (sw_start win) = None \<or> parse_hhmm (sw_end win) = None")
  case True
  then show ?thesis using inactive_unparsed by auto
next
  case False
  then show ?thesis using active_iff [OF assms] by auto
qed

text \<open>A window whose start and end coincide is empty, and no window is active at its bounds.\<close>

lemma same_start_end_inactive:
  assumes "has_year_zero (resolve_location load (sw_timezone win))"
    and "steady (resolve_location load (sw_timezone win)) t ofs"
    and "parse_hhmm (sw_start win) = parse_hhmm (sw_end win)"
  shows "\<not> active load win t"
  using assms(3) by (auto simp: active_parsed [OF assms(1,2)] window_holds_def opens_def closes_def)

text \<open>A window is active for less than a day at a time: no test holds 24 hours apart for one start.\<close>

lemma active_started_within_a_day:
  assumes "has_year_zero (resolve_location load (sw_timezone win))"
    and "steady (resolve_location load (sw_timezone win)) t ofs" and "active load win t"
  shows "\<exists>p d. parse_hhmm (sw_start win) = Some p \<and> day_allowed (sw_days win) d \<and>
    opens (day_secs p) d < t + ofs * second \<and>
    t + ofs * second < opens (day_secs p) d + secs_per_day * second"
proof -
  from assms(3) obtain p q d where "parse_hhmm (sw_start win) = Some p"
    "parse_hhmm (sw_end win) = Some q" "day_allowed (sw_days win) d"
    "opens (day_secs p) d < t + ofs * second" "t + ofs * second < closes (day_secs p) (day_secs q) d"
    by (auto simp: active_parsed [OF assms(1,2)] window_holds_def)
  moreover from this have "closes (day_secs p) (day_secs q) d \<le> opens (day_secs p) d + secs_per_day * second"
    using day_secs_range [of "sw_start win" p] day_secs_range [of "sw_end win" q]
    by (simp add: opens_def closes_def split: if_splits)
  ultimately show ?thesis by (blast intro: less_le_trans)
qed

end

lemma consolidation_window_aux:
  "is_in_consolidation_window load (Some win) t = should_be_sleeping_at_window load win t"
  unfolding is_in_consolidation_window_def should_be_sleeping_at_window_def Let_def option.case
  by (auto split: option.splits)

lemma consolidation_test_eq:
  "(\<lambda>load win. is_in_consolidation_window load (Some win)) = should_be_sleeping_at_window"
  by (intro ext) (rule consolidation_window_aux)

text \<open>
  The bin packer's \<open>isInConsolidationWindow\<close> decides its window exactly as the sleep
  controller's \<open>shouldBeSleepingAtWindow\<close> does, in every zone and at every instant, and
  without a schedule it always allows consolidation.
\<close>

theorem consolidation_window_eq:
  "is_in_consolidation_window load schedule t \<longleftrightarrow>
     (case schedule of None \<Rightarrow> True | Some win \<Rightarrow> should_be_sleeping_at_window load win t)"
  by (cases schedule) (simp_all only: option.case consolidation_window_aux, simp add: is_in_consolidation_window_def)

lemma unparsed_never_active:
  "parse_hhmm (sw_start win) = None \<or> parse_hhmm (sw_end win) = None \<Longrightarrow>
   \<not> should_be_sleeping_at_window load win t"
  by (auto simp: should_be_sleeping_at_window_def parse_in_location_def Let_def split: option.splits)

interpretation sleep_test: window_test should_be_sleeping_at_window
  by unfold_locales (simp_all add: should_be_sleeping_at_window_iff unparsed_never_active)

interpretation pack_test: window_test "\<lambda>load win. is_in_consolidation_window load (Some win)"
  unfolding consolidation_test_eq by (rule sleep_test.window_test_axioms)

text \<open>
  C29: A schedule sleeps at an instant exactly when one of its windows, from \<open>spec.schedule\<close>
  or \<open>spec.schedules\<close>, parses and the local time lies strictly inside an occurrence of it
  that started on an allowed day (the previous day, after midnight of an overnight window).
  The zones' offsets must be steady for three days around the instant.
\<close>

theorem should_be_sleeping_at_iff:
  assumes "\<And>win. win \<in> set (get_windows spec) \<Longrightarrow>
      has_year_zero (resolve_location load (sw_timezone win)) \<and>
      steady (resolve_location load (sw_timezone win)) t (ofs win)"
  shows "should_be_sleeping_at load spec t \<longleftrightarrow>
    (\<exists>win \<in> set (get_windows spec). \<exists>p q.
       parse_hhmm (sw_start win) = Some p \<and> parse_hhmm (sw_end win) = Some q \<and>
       window_holds (day_secs p) (day_secs q) (sw_days win) (t + ofs win * second))"
proof -
  have "should_be_sleeping_at_window load win t \<longleftrightarrow>
    (\<exists>p q. parse_hhmm (sw_start win) = Some p \<and> parse_hhmm (sw_end win) = Some q \<and>
       window_holds (day_secs p) (day_secs q) (sw_days win) (t + ofs win * second))"
    if "win \<in> set (get_windows spec)" for win
    using sleep_test.active_parsed assms [OF that] by blast
  then show ?thesis unfolding should_be_sleeping_at_def list_ex_iff by blast
qed

text \<open>A weeknight window, at Tuesday 2026-06-16 03:00 UTC: Monday's night is still going on.\<close>

definition weeknight_spec :: sleep_spec where
  "weeknight_spec =
     \<lparr>ss_suspend = False,
      ss_selector = \<lparr>wsel_labels = [], wsel_names = [], wsel_types = []\<rparr>,
      ss_schedule = Some \<lparr>sw_start = ''22:00'', sw_end = ''06:00'', sw_timezone = [],
                          sw_days = [1, 2, 3, 4, 5]\<rparr>,
      ss_schedules = [], ss_interval = None\<rparr>"

theorem should_be_sleeping_at_iff_witness:
  "should_be_sleeping_at (\<lambda>_. None) weeknight_spec (1781578800 * second) \<and>
   window_holds (22 * 3600) (6 * 3600) [1, 2, 3, 4, 5] (1781578800 * second)"
proof -
  have pre: "\<And>win. win \<in> set (get_windows weeknight_spec) \<Longrightarrow>
      has_year_zero (resolve_location (\<lambda>_. None) (sw_timezone win)) \<and>
      steady (resolve_location (\<lambda>_. None) (sw_timezone win)) (1781578800 * second) 0"
    by (simp add: resolve_location_def steady_utc has_year_zero_utc split: option.split)
  have p: "parse_hhmm ''22:00'' = Some (22, 0)" "parse_hhmm ''06:00'' = Some (6, 0)"
    by code_simp+
  have w: "window_holds (22 * 3600) (6 * 3600) [1, 2, 3, 4, 5] (1781578800 * second)"
    unfolding window_holds_def
    by (rule exI [of _ 20619]) (simp add: opens_def closes_def day_allowed_def weekday_of_day_def)
  have "\<exists>win \<in> set (get_windows weeknight_spec). \<exists>p q.
      parse_hhmm (sw_start win) = Some p \<and> parse_hhmm (sw_end win) = Some q \<and>
      window_holds (day_secs p) (day_secs q) (sw_days win) (1781578800 * second + 0 * second)"
    using w by (simp add: weeknight_spec_def get_windows_def p day_secs_def)
  then have "should_be_sleeping_at (\<lambda>_. None) weeknight_spec (1781578800 * second)"
    using should_be_sleeping_at_iff [where ofs = "\<lambda>_. 0", OF pre] by blast
  with w show ?thesis by blast
qed

text \<open>Paris around the change to summer time on 2026-03-29 at 01:00 UTC.\<close>

definition spring_forward :: location where
  "spring_forward u = (if u < 1774746000 then 3600 else 7200)"


end
