(* ===== verification/Days_Display.thy ===== *)
theory Days_Display
  imports Sleep_Window
begin

text \<open>
  The \<open>DaysDisplay\<close> status field: \<open>daysToDisplay\<close> collapses weekday numbers into
  ranges, \<open>aggregateDaysDisplay\<close> merges the windows of a schedule. Indexing the array
  \<open>dayNames\<close> outside 0..6 panics in Go; \<open>None\<close> stands for that panic.
\<close>

section \<open>The code\<close>

definition day_names :: "string list" where
  "day_names = [''Sun'', ''Mon'', ''Tue'', ''Wed'', ''Thu'', ''Fri'', ''Sat'']"

definition day_name :: "int \<Rightarrow> string option" where
  "day_name d = (if 0 \<le> d \<and> d < 7 then Some (day_names ! nat d) else None)"

text \<open>The loop that builds the ranges, over the sorted days after the first one.\<close>

fun build_ranges :: "int \<Rightarrow> int \<Rightarrow> int list \<Rightarrow> (int \<times> int) list" where
  "build_ranges s e [] = [(s, e)]"
| "build_ranges s e (d # ds) =
     (if d = e + 1 then build_ranges s d ds else (s, e) # build_ranges d d ds)"

definition format_range :: "int \<times> int \<Rightarrow> string option" where
  "format_range r =
     (let (s, e) = r in
      if s = e then day_name s
      else case (day_name s, day_name e) of
             (Some a, Some b) \<Rightarrow> Some (a @ (if e - s = 1 then '','' else ''-'') @ b)
           | _ \<Rightarrow> None)"

fun format_ranges :: "(int \<times> int) list \<Rightarrow> string list option" where
  "format_ranges [] = Some []"
| "format_ranges (r # rs) =
     (case format_range r of
        None \<Rightarrow> None
      | Some p \<Rightarrow> map_option (\<lambda>ps. p # ps) (format_ranges rs))"

fun join_comma :: "string list \<Rightarrow> string" where
  "join_comma [] = []"
| "join_comma [p] = p"
| "join_comma (p # q # ps) = p @ '','' @ join_comma (q # ps)"

definition days_ranges :: "int list \<Rightarrow> (int \<times> int) list" where
  "days_ranges days =
     (case sort days of [] \<Rightarrow> [] | d # ds \<Rightarrow> build_ranges d d ds)"

definition days_to_display :: "int list \<Rightarrow> string option" where
  "days_to_display days =
     (if days = [] then Some ''Every day''
      else map_option join_comma (format_ranges (days_ranges days)))"

text \<open>
  \<open>aggregateDaysDisplay\<close>: the first window without days ends the function; otherwise the days
  of all windows go into the set \<open>seen\<close>, whose elements are collected in an order Go leaves
  open. \<open>pick\<close> is that order: a function from the set to a list of its elements.
\<close>

fun collect_days :: "sleep_window list \<Rightarrow> int set \<Rightarrow> int set option" where
  "collect_days [] seen = Some seen"
| "collect_days (w # ws) seen =
     (if sw_days w = [] then None else collect_days ws (seen \<union> set (sw_days w)))"

definition aggregate_days_display :: "(int set \<Rightarrow> int list) \<Rightarrow> sleep_window list \<Rightarrow> string option" where
  "aggregate_days_display pick ws =
     (case collect_days ws {} of
        None \<Rightarrow> Some ''Every day''
      | Some seen \<Rightarrow> days_to_display (pick seen))"

section \<open>Ranges\<close>

definition expand :: "(int \<times> int) list \<Rightarrow> int list" where
  "expand rs = concat (map (\<lambda>(s, e). [s..e]) rs)"

fun separated :: "(int \<times> int) list \<Rightarrow> bool" where
  "separated ((s, e) # (s', e') # rs) = (s' \<noteq> e + 1 \<and> separated ((s', e') # rs))"
| "separated _ = True"

lemma upto_snoc: "s \<le> e + 1 \<Longrightarrow> [s..e + 1] = [s..e] @ [e + 1]"
  by (simp add: upto_rec2)

lemma expand_build_ranges:
  "s \<le> e \<Longrightarrow> expand (build_ranges s e ds) = [s..e] @ ds"
proof (induction s e ds rule: build_ranges.induct)
  case (1 s e)
  then show ?case by (simp add: expand_def)
next
  case (2 s e d ds)
  then show ?case by (auto simp: expand_def upto_snoc)
qed

lemma build_ranges_first: "\<exists>e' rs. build_ranges s e ds = (s, e') # rs"
  by (induction s e ds rule: build_ranges.induct) auto

lemma separated_build_ranges: "separated (build_ranges s e ds)"
proof (induction s e ds rule: build_ranges.induct)
  case (1 s e)
  then show ?case by simp
next
  case (2 s e d ds)
  then show ?case using build_ranges_first [of d d ds] by (cases "d = e + 1") auto
qed

lemma ranges_within:
  "s \<in> D \<Longrightarrow> e \<in> D \<Longrightarrow> set ds \<subseteq> D \<Longrightarrow> (a, b) \<in> set (build_ranges s e ds) \<Longrightarrow> a \<in> D \<and> b \<in> D"
  by (induction s e ds rule: build_ranges.induct) (auto split: if_splits)

text \<open>
  The ranges \<open>daysToDisplay\<close> prints stand for exactly the given days in ascending
  order, and they are maximal: no range starts on the day after the previous one ends.
\<close>

theorem days_ranges_expand: "expand (days_ranges days) = sort days \<and> separated (days_ranges days)"
  by (cases "sort days")
    (auto simp: days_ranges_def expand_build_ranges separated_build_ranges expand_def [of "[]"])

section \<open>No panic\<close>

lemma days_ranges_in: "(a, b) \<in> set (days_ranges days) \<Longrightarrow> a \<in> set days \<and> b \<in> set days"
proof -
  assume r: "(a, b) \<in> set (days_ranges days)"
  then obtain d ds where sd: "sort days = d # ds"
    by (cases "sort days") (simp_all add: days_ranges_def)
  then have "set days = set (d # ds)" by (metis set_sort)
  moreover from r sd have "(a, b) \<in> set (build_ranges d d ds)" by (simp add: days_ranges_def)
  ultimately show ?thesis using ranges_within [of d "set days" d ds a b] by auto
qed

lemma format_ranges_None_iff:
  "format_ranges rs = None \<longleftrightarrow> (\<exists>(a, b) \<in> set rs. day_name a = None \<or> day_name b = None)"
  by (induction rs) (auto simp: format_range_def Let_def split: option.splits if_splits)

lemma expand_in: "(a, b) \<in> set rs \<Longrightarrow> a \<le> b \<Longrightarrow> {a, b} \<subseteq> set (expand rs)"
  by (force simp: expand_def)

lemma day_name_None_iff: "day_name d = None \<longleftrightarrow> \<not> (0 \<le> d \<and> d < 7)"
  by (simp add: day_name_def)

lemma days_to_display_defined:
  assumes "\<forall>d \<in> set days. 0 \<le> d \<and> d < 7"
  shows "days_to_display days \<noteq> None"
proof -
  have "format_ranges (days_ranges days) \<noteq> None"
  proof
    assume "format_ranges (days_ranges days) = None"
    then obtain a b where r: "(a, b) \<in> set (days_ranges days)" "day_name a = None \<or> day_name b = None"
      by (auto simp: format_ranges_None_iff)
    from days_ranges_in [OF r(1)] assms r(2) show False by (auto simp: day_name_None_iff)
  qed
  then show ?thesis by (simp add: days_to_display_def)
qed

lemma day_7_undefined: "day_name 7 = None"
  by (simp add: day_name_def)

section \<open>Aggregation\<close>

lemma collect_days_Some:
  "collect_days ws seen = Some D \<Longrightarrow>
     (\<forall>w \<in> set ws. sw_days w \<noteq> []) \<and> D = seen \<union> (\<Union>w \<in> set ws. set (sw_days w))"
  by (induction ws seen rule: collect_days.induct) (auto split: if_splits)

lemma collect_days_None:
  "collect_days ws seen = None \<longleftrightarrow> (\<exists>w \<in> set ws. sw_days w = [])"
  by (induction ws seen rule: collect_days.induct) auto

lemma sort_pick:
  "set (pick D) = D \<Longrightarrow> distinct (pick D) \<Longrightarrow> sort (pick D) = sorted_list_of_set D"
  by (metis distinct_remdups_id sorted_list_of_set_sort_remdups)

lemma days_to_display_sort: "days_to_display (sort days) = days_to_display days"
  by (metis days_ranges_def days_to_display_def list.simps(4) set_empty set_sort sorted_sort_id sorted_sort)

text \<open>
  \<open>aggregateDaysDisplay\<close> never panics when the days of all windows are weekdays, and
  its result does not depend on the order in which Go iterates over the map of days: it is
  \<open>Every day\<close> as soon as one window is unrestricted, and otherwise the display of the
  sorted union of the windows' days.
\<close>

theorem aggregate_days_display_eq:
  assumes pick: "\<And>D. finite D \<Longrightarrow> set (pick D) = D \<and> distinct (pick D)"
    and days: "\<And>w d. w \<in> set ws \<Longrightarrow> d \<in> set (sw_days w) \<Longrightarrow> 0 \<le> d \<and> d < 7"
  shows "aggregate_days_display pick ws \<noteq> None \<and>
    aggregate_days_display pick ws =
      (if \<exists>w \<in> set ws. sw_days w = [] then Some ''Every day''
       else days_to_display (sorted_list_of_set (\<Union>w \<in> set ws. set (sw_days w))))"
proof (cases "collect_days ws {}")
  case None
  then have "\<exists>w \<in> set ws. sw_days w = []" by (simp only: collect_days_None)
  with None show ?thesis by (simp add: aggregate_days_display_def)
next
  case (Some D)
  from collect_days_Some [OF this] have D: "\<forall>w \<in> set ws. sw_days w \<noteq> []"
    "D = (\<Union>w \<in> set ws. set (sw_days w))" by simp_all
  then have "finite D" by simp
  note p = pick [OF this]
  have "days_to_display (pick D) = days_to_display (sorted_list_of_set D)"
    using sort_pick [of pick D] p days_to_display_sort [of "pick D"] by simp
  moreover have "days_to_display (pick D) \<noteq> None"
    using p D(2) days by (intro days_to_display_defined) auto
  ultimately show ?thesis using D Some by (auto simp: aggregate_days_display_def)
qed

text \<open>Two windows, on Monday to Wednesday and on Wednesday and Saturday.\<close>

definition display_windows :: "sleep_window list" where
  "display_windows =
     [\<lparr>sw_start = ''22:00'', sw_end = ''06:00'', sw_timezone = [], sw_days = [1, 2, 3]\<rparr>,
      \<lparr>sw_start = ''00:00'', sw_end = ''23:59'', sw_timezone = [], sw_days = [3, 6]\<rparr>]"

theorem aggregate_days_display_eq_witness:
  "aggregate_days_display (\<lambda>D. rev (sorted_list_of_set D)) display_windows
     = Some ''Mon-Wed,Sat''"
proof -
  have days: "0 \<le> d \<and> d < 7" if "w \<in> set display_windows" "d \<in> set (sw_days w)" for w d
    using that by (auto simp: display_windows_def)
  have "aggregate_days_display (\<lambda>D. rev (sorted_list_of_set D)) display_windows =
    days_to_display (sorted_list_of_set {1, 2, 3, 6})"
    using aggregate_days_display_eq [of "\<lambda>D. rev (sorted_list_of_set D)" display_windows] days
    by (simp add: display_windows_def insert_commute)
  also have "sorted_list_of_set {1, 2, 3, 6 :: int} = [1, 2, 3, 6]"
    by simp
  also have "days_to_display [1, 2, 3, 6] = Some ''Mon-Wed,Sat''"
    by code_simp
  finally show ?thesis .
qed

end
