(* ===== verification/Sleep_Reconcile.thy ===== *)
theory Sleep_Reconcile
  imports Sleep_Restore Days_Display
begin

text \<open>
  \<open>Reconcile\<close> of the sleep controller with its requeue intervals. Parameters are the client
  \<open>c\<close>, the time zone database \<open>load\<close>, the iteration order \<open>pick\<close> of the map of days,
  \<open>meta.SetStatusCondition\<close> as \<open>set_cond\<close>, the conversion \<open>fc\<close>, the controller's default
  interval, and the clock: \<open>now\<close> is the reading \<open>time.Now()\<close> the decisions use, \<open>ts\<close> the later
  one stored as \<open>LastTransitionTime\<close>. Events and metrics are returned as a list of effects.
\<close>

section \<open>Intervals\<close>

abbreviation idle_requeue_interval :: duration where "idle_requeue_interval \<equiv> 5 * minute"
abbreviation approaching_requeue_interval :: duration where "approaching_requeue_interval \<equiv> 30 * second"
abbreviation approaching_window :: duration where "approaching_window \<equiv> 10 * minute"
abbreviation verify_window :: duration where "verify_window \<equiv> 10 * minute"
abbreviation verify_requeue_interval :: duration where "verify_requeue_interval \<equiv> 30 * second"

definition should_verify_workloads :: "sleep_schedule \<Rightarrow> instant \<Rightarrow> bool" where
  "should_verify_workloads sch now =
     (case sst_last_transition (sch_status sch) of
        None \<Rightarrow> False
      | Some t \<Rightarrow>
          if sst_managed (sch_status sch) = [] then False
          else now - t \<le> verify_window)"

text \<open>The loop \<open>for i := 1; i <= 1440; i++\<close> over the next 24 hours, from \<open>i\<close> on.\<close>

function first_minute :: "(int \<Rightarrow> bool) \<Rightarrow> int \<Rightarrow> int option" where
  "first_minute P i =
     (if i \<le> 1440 then (if P i then Some i else first_minute P (i + 1)) else None)"
  by pat_completeness auto
termination
  by (relation "measure (\<lambda>(P, i). nat (1441 - i))") auto

declare first_minute.simps [simp del]

definition time_until_next_transition ::
  "(string \<Rightarrow> location option) \<Rightarrow> sleep_spec \<Rightarrow> instant \<Rightarrow> duration" where
  "time_until_next_transition load spec now =
     (let current = should_be_sleeping_at load spec now in
      case first_minute (\<lambda>i. should_be_sleeping_at load spec (now + i * minute) \<noteq> current) 1 of
        Some i \<Rightarrow> i * minute
      | None \<Rightarrow> 0)"

definition compute_requeue_interval ::
  "(string \<Rightarrow> location option) \<Rightarrow> duration \<Rightarrow> sleep_schedule \<Rightarrow> instant \<Rightarrow> duration" where
  "compute_requeue_interval load dflt sch now =
     (if \<not> sst_sleeping (sch_status sch) \<and> should_verify_workloads sch now
      then verify_requeue_interval
      else (let next_in = time_until_next_transition load (sch_spec sch) now in
            if 0 < next_in \<and> next_in \<le> approaching_window then approaching_requeue_interval
            else (case ss_interval (sch_spec sch) of
                    Some d \<Rightarrow> d
                  | None \<Rightarrow> if 0 < dflt then dflt else idle_requeue_interval)))"

section \<open>Reconcile\<close>

text \<open>\<open>setScheduleCondition\<close>; the transition time is left to \<open>SetStatusCondition\<close>.\<close>

type_synonym set_condition = "condition list \<Rightarrow> condition \<Rightarrow> condition list"

definition set_schedule_condition ::
  "set_condition \<Rightarrow> string \<Rightarrow> string \<Rightarrow> string \<Rightarrow> sleep_schedule \<Rightarrow> sleep_schedule" where
  "set_schedule_condition set_cond status reason message sch =
     sch\<lparr>sch_status := (sch_status sch)
       \<lparr>sst_conditions := set_cond (sst_conditions (sch_status sch))
          \<lparr>cd_type = ''Ready'', cd_status = status, cd_generation = sch_generation sch,
           cd_transition = None, cd_reason = reason, cd_message = message\<rparr>\<rparr>\<rparr>"

definition set_sleeping :: "bool \<Rightarrow> instant \<Rightarrow> sleep_schedule \<Rightarrow> sleep_schedule" where
  "set_sleeping b ts sch =
     sch\<lparr>sch_status := (sch_status sch)\<lparr>sst_sleeping := b, sst_last_transition := Some ts\<rparr>\<rparr>"

definition set_days_display :: "string \<Rightarrow> sleep_schedule \<Rightarrow> sleep_schedule" where
  "set_days_display d sch = sch\<lparr>sch_status := (sch_status sch)\<lparr>sst_days_display := d\<rparr>\<rparr>"

definition clear_managed :: "sleep_schedule \<Rightarrow> sleep_schedule" where
  "clear_managed sch = sch\<lparr>sch_status := (sch_status sch)\<lparr>sst_managed := []\<rparr>\<rparr>"

datatype effect =
    Emit string
  | Count string
  | SetGauge string string nat
  | DropGauge string string
  | ObserveWake

type_synonym 'w outcome = "result \<times> effect list \<times> 'w"

definition reconcile_suspended ::
  "float_conv \<Rightarrow> set_condition \<Rightarrow> 'w kube \<Rightarrow> instant \<Rightarrow> sleep_schedule \<Rightarrow> 'w \<Rightarrow> 'w outcome" where
  "reconcile_suspended fc set_cond c ts sch w =
     (case (if sst_sleeping (sch_status sch)
            then (case wake_workloads fc c sch w of
                    (Some e, w') \<Rightarrow> (Inl e, w')
                  | (None, w') \<Rightarrow> (Inr (set_sleeping False ts sch), w'))
            else (Inr sch, w)) of
        (Inl e, w') \<Rightarrow> (Done minute (Some e), [], w')
      | (Inr sch', w') \<Rightarrow>
        (case k_update_status c
                (set_schedule_condition set_cond ''False'' ''Suspended'' ''Schedule is suspended'' sch') w' of
           (Inl e, w'') \<Rightarrow> (Done 0 (Some e), [], w'')
         | (Inr r, w'') \<Rightarrow> (Done minute None, [], w'')))"

definition reconcile_invalid ::
  "set_condition \<Rightarrow> 'w kube \<Rightarrow> sleep_schedule \<Rightarrow> 'w \<Rightarrow> 'w outcome" where
  "reconcile_invalid set_cond c sch w =
     (case k_update_status c
             (set_schedule_condition set_cond ''False'' ''InvalidSpec''
                ''No sleep window defined: set spec.schedule or spec.schedules'' sch) w of
        (Inl e, w') \<Rightarrow> (Done 0 (Some e), [], w')
      | (Inr r, w') \<Rightarrow> (Done minute None, [], w'))"

text \<open>
  The middle part: sleep, wake, verify or nothing. \<open>Inl\<close> is an early return, \<open>Inr\<close> the
  controller's copy of the schedule with which the rest goes on.
\<close>

definition apply_transition ::
  "float_conv \<Rightarrow> 'w kube \<Rightarrow> instant \<Rightarrow> bool \<Rightarrow> sleep_schedule \<Rightarrow> 'w \<Rightarrow>
   ((duration \<times> kerr) + sleep_schedule) \<times> effect list \<times> 'w" where
  "apply_transition fc c now should sch w =
     (if should \<noteq> sst_sleeping (sch_status sch) then
        (if should then
           (case sleep_workloads fc c sch w of
              (Some e, st) \<Rightarrow> (Inl (minute, e), [Emit ''SleepStarted'', Count ''sleep''], ws_world st)
            | (None, st) \<Rightarrow>
                (Inr (ws_sched st), [Emit ''SleepStarted'', Count ''sleep'', Emit ''SleepCompleted''], ws_world st))
         else
           (case wake_workloads fc c sch w of
              (Some e, w') \<Rightarrow> (Inl (minute, e), [Emit ''WakeStarted'', Count ''wake''], w')
            | (None, w') \<Rightarrow>
                (Inr sch, [Emit ''WakeStarted'', Count ''wake'', ObserveWake, Emit ''WakeCompleted''], w')))
      else if \<not> should \<and> \<not> sst_sleeping (sch_status sch) then
        (if should_verify_workloads sch now then
           (case verify_and_correct_workloads fc c sch w of
              (Inl e, w') \<Rightarrow> (Inl (verify_requeue_interval, e), [Count ''verify''], w')
            | (Inr desynced, w') \<Rightarrow>
                (Inr sch, Count ''verify'' # (if desynced then [Emit ''DesyncCorrected''] else []), w'))
         else if sst_managed (sch_status sch) \<noteq> [] then
           (case k_update_status c (clear_managed sch) w of
              (Inl e, w') \<Rightarrow> (Inl (0, e), [], w')
            | (Inr r, w') \<Rightarrow> (Inr r, [Count ''noop''], w'))
         else (Inr sch, [Count ''noop''], w))
      else (Inr sch, [Count ''noop''], w))"

definition reconcile_active ::
  "float_conv \<Rightarrow> (string \<Rightarrow> location option) \<Rightarrow> set_condition \<Rightarrow> duration \<Rightarrow> 'w kube \<Rightarrow> instant \<Rightarrow> instant \<Rightarrow>
   string \<Rightarrow> sleep_schedule \<Rightarrow> 'w \<Rightarrow> 'w outcome" where
  "reconcile_active fc load set_cond dflt c now ts days sch w =
     (let should = should_be_sleeping_at load (sch_spec sch) now;
          status_changed = (should \<noteq> sst_sleeping (sch_status sch));
          days_changed = (sst_days_display (sch_status sch) \<noteq> days)
      in
      case apply_transition fc c now should sch w of
        (Inl (after, e), fx, w1) \<Rightarrow> (Done after (Some e), fx, w1)
      | (Inr sch1, fx, w1) \<Rightarrow>
        (let fx1 = fx @ [SetGauge (sch_namespace sch1) (sch_name sch1) (length (sst_managed (sch_status sch1)))];
             sch2 = (if should then set_schedule_condition set_cond ''True'' ''Sleeping'' ''Workloads are sleeping'' sch1
                     else set_schedule_condition set_cond ''True'' ''Active'' ''Schedule is active'' sch1);
             sch3 = (if status_changed \<or> days_changed then set_days_display days sch2 else sch2);
             sch4 = (if status_changed then set_sleeping should ts sch3 else sch3)
         in
         case k_update_status c sch4 w1 of
           (Inl e, w2) \<Rightarrow> (Done 0 (Some e), fx1, w2)
         | (Inr sch5, w2) \<Rightarrow> (Done (compute_requeue_interval load dflt sch5 now) None, fx1, w2)))"

definition reconcile ::
  "float_conv \<Rightarrow> (string \<Rightarrow> location option) \<Rightarrow> (int set \<Rightarrow> int list) \<Rightarrow> set_condition \<Rightarrow> duration \<Rightarrow>
   'w kube \<Rightarrow> instant \<Rightarrow> instant \<Rightarrow> string \<Rightarrow> string \<Rightarrow> 'w \<Rightarrow> 'w outcome" where
  "reconcile fc load pick set_cond dflt c now ts ns name w =
     (case k_get_sched c ns name w of
        Inl e \<Rightarrow> (Done 0 (ignore_not_found e), [DropGauge ns name], w)
      | Inr sch \<Rightarrow>
          if ss_suspend (sch_spec sch) then reconcile_suspended fc set_cond c ts sch w
          else (let windows = get_windows (sch_spec sch) in
                if windows = [] then reconcile_invalid set_cond c sch w
                else (case aggregate_days_display pick windows of
                        None \<Rightarrow> (Panic, [], w)
                      | Some days \<Rightarrow> reconcile_active fc load set_cond dflt c now ts days sch w)))"

section \<open>Requeue intervals\<close>

lemma from_next_minute:
  "(\<forall>j :: int. i \<le> j \<and> Q j \<longrightarrow> R j) \<longleftrightarrow> (Q i \<longrightarrow> R i) \<and> (\<forall>j. i + 1 \<le> j \<and> Q j \<longrightarrow> R j)"
proof -
  have "i \<le> j \<longleftrightarrow> j = i \<or> i + 1 \<le> j" for j by linarith
  then show ?thesis by (simp only: conj_disj_distribR) auto
qed

lemma first_minute_None: "first_minute P i = None \<longleftrightarrow> (\<forall>j. i \<le> j \<and> j \<le> 1440 \<longrightarrow> \<not> P j)"
proof (induction P i rule: first_minute.induct)
  case (1 P i)
  show ?case
    unfolding from_next_minute [of i "\<lambda>j. j \<le> 1440" "\<lambda>j. \<not> P j"]
    using 1 by (auto simp: first_minute.simps [of P i])
qed

lemma first_minute_Some:
  "first_minute P i = Some j \<Longrightarrow> i \<le> j \<and> j \<le> 1440 \<and> P j \<and> (\<forall>k. i \<le> k \<and> k < j \<longrightarrow> \<not> P k)"
proof (induction P i rule: first_minute.induct)
  case (1 P i)
  show ?case
  proof (cases "i \<le> 1440 \<and> \<not> P i")
    case True
    with 1(2) have "first_minute P (i + 1) = Some j" by (simp add: first_minute.simps [of P i])
    with 1(1) True have "i + 1 \<le> j \<and> j \<le> 1440 \<and> P j \<and> (\<forall>k. i + 1 \<le> k \<and> k < j \<longrightarrow> \<not> P k)" by blast
    with True show ?thesis
      unfolding from_next_minute [of i "\<lambda>k. k < j" "\<lambda>k. \<not> P k"] by auto
  next
    case False
    with 1(2) show ?thesis by (auto simp: first_minute.simps [of P i] split: if_splits)
  qed
qed

definition transition_at :: "(string \<Rightarrow> location option) \<Rightarrow> sleep_spec \<Rightarrow> instant \<Rightarrow> int \<Rightarrow> bool" where
  "transition_at load spec now i \<longleftrightarrow>
     should_be_sleeping_at load spec (now + i * minute) \<noteq> should_be_sleeping_at load spec now"

lemma time_until_next_transition_eq:
  "time_until_next_transition load spec now =
     (case first_minute (transition_at load spec now) 1 of Some i \<Rightarrow> i * minute | None \<Rightarrow> 0)"
  unfolding time_until_next_transition_def Let_def transition_at_def ..

lemma next_transition_cases:
  obtains (never) "time_until_next_transition load spec now = 0"
      "\<forall>i. 1 \<le> i \<and> i \<le> 1440 \<longrightarrow> \<not> transition_at load spec now i"
  | (first) i where "time_until_next_transition load spec now = i * minute"
      "1 \<le> i" "i \<le> 1440" "transition_at load spec now i"
      "\<forall>j. 1 \<le> j \<and> j < i \<longrightarrow> \<not> transition_at load spec now j"
proof (cases "first_minute (transition_at load spec now) 1")
  case None
  then have "time_until_next_transition load spec now = 0"
    unfolding time_until_next_transition_eq by (simp only: option.case)
  moreover from None have "\<forall>i. 1 \<le> i \<and> i \<le> 1440 \<longrightarrow> \<not> transition_at load spec now i"
    by (simp add: first_minute_None)
  ultimately show ?thesis by (rule never)
next
  case (Some i)
  then have "1 \<le> i" "i \<le> 1440" "transition_at load spec now i"
    "\<forall>j. 1 \<le> j \<and> j < i \<longrightarrow> \<not> transition_at load spec now j"
    using first_minute_Some by blast+
  moreover from Some have "time_until_next_transition load spec now = i * minute"
    unfolding time_until_next_transition_eq by (simp only: option.case)
  ultimately show ?thesis using first by blast
qed

text \<open>
  \<open>timeUntilNextTransition\<close> answers the first whole number of minutes, up to 24 hours,
  after which the schedule's state differs from the present one, and 0 exactly when it differs
  at none of the 1440 probes.
\<close>

theorem next_transition_is_first:
  "(if time_until_next_transition load spec now = 0
    then \<not> (\<exists>i. 1 \<le> i \<and> i \<le> 1440 \<and> transition_at load spec now i)
    else \<exists>i. time_until_next_transition load spec now = i * minute \<and> 1 \<le> i \<and> i \<le> 1440 \<and>
      transition_at load spec now i \<and> \<not> (\<exists>j. 1 \<le> j \<and> j < i \<and> transition_at load spec now j))"
proof (cases rule: next_transition_cases [of load spec now])
  case never
  then show ?thesis by auto
next
  case (first i)
  then show ?thesis by auto
qed

text \<open>
  After a reconcile the next one comes in 30 seconds when a transition is at most ten
  minutes away or a wake is being verified, and otherwise after the schedule's own interval,
  the controller's default, or five minutes, in this order; so the controller never runs in a
  tight loop unless the schedule configures an interval that is not positive.
\<close>

theorem requeue_interval_eq:
  "compute_requeue_interval load dflt sch now =
     (if (\<exists>i. 1 \<le> i \<and> i \<le> 10 \<and> transition_at load (sch_spec sch) now i) \<or>
         \<not> sst_sleeping (sch_status sch) \<and> should_verify_workloads sch now
      then 30 * second
      else (case ss_interval (sch_spec sch) of
              Some d \<Rightarrow> d | None \<Rightarrow> if 0 < dflt then dflt else 5 * minute)) \<and>
   (0 < compute_requeue_interval load dflt sch now \<or> (\<exists>d \<le> 0. ss_interval (sch_spec sch) = Some d))"
proof (cases rule: next_transition_cases [of load "sch_spec sch" now])
  case never
  then show ?thesis by (auto simp: compute_requeue_interval_def Let_def split: option.splits)
next
  case (first i)
  have "(\<exists>i. 1 \<le> i \<and> i \<le> 10 \<and> transition_at load (sch_spec sch) now i) \<longleftrightarrow> i \<le> 10"
    using first by (metis leD leI order_trans)
  then show ?thesis
    using first(1,2) by (auto simp: compute_requeue_interval_def Let_def split: option.splits)
qed

section \<open>The sleeping flag\<close>

text \<open>
  What the schedule's stored copy does: reads answer with the requested schedule, a status
  update that succeeds is read afterwards, one that fails changes nothing, and updates of
  workloads do not touch schedules.
\<close>

definition api_sched :: "'w kube \<Rightarrow> bool" where
  "api_sched c \<longleftrightarrow>
     (\<forall>ns n w s. k_get_sched c ns n w = Inr s \<longrightarrow> sch_namespace s = ns \<and> sch_name s = n) \<and>
     (\<forall>s w r w'. k_update_status c s w = (Inr r, w') \<longrightarrow>
        k_get_sched c (sch_namespace s) (sch_name s) w' = Inr r) \<and>
     (\<forall>s w e w'. k_update_status c s w = (Inl e, w') \<longrightarrow>
        (\<forall>ns n. k_get_sched c ns n w' = k_get_sched c ns n w)) \<and>
     (\<forall>x w r w'. k_update c x w = (r, w') \<longrightarrow> (\<forall>ns n. k_get_sched c ns n w' = k_get_sched c ns n w))"

lemma api_schedD:
  assumes "api_sched c"
  shows "k_get_sched c ns n w = Inr s \<Longrightarrow> sch_namespace s = ns \<and> sch_name s = n"
    "k_update_status c t w = (Inr r, w') \<Longrightarrow> k_get_sched c (sch_namespace t) (sch_name t) w' = Inr r"
    "k_update_status c t w = (Inl e, w') \<Longrightarrow> k_get_sched c ns n w' = k_get_sched c ns n w"
    "k_update c x w = (o', w') \<Longrightarrow> k_get_sched c ns n w' = k_get_sched c ns n w"
  using assms unfolding api_sched_def by blast+

lemma find_map_sched:
  assumes "P t" "\<exists>s \<in> set ss. P s"
  shows "find P (map (\<lambda>s. if P s then t else s) ss) = Some t"
  using assms by (induction ss) auto

lemma mem_api_sched: "api_sched (mem_kube f)"
  unfolding api_sched_def mem_kube_simps
proof (intro conjI allI impI, goal_cases)
  case (1 ns n w s)
  then show ?case by (auto simp: mem_get_sched_def find_Some_iff split: option.splits)
next
  case (2 ns n w s)
  then show ?case by (auto simp: mem_get_sched_def find_Some_iff split: option.splits)
next
  case (3 s w r w')
  then have "w' = w\<lparr>mem_writes := Suc (mem_writes w), mem_schedules :=
      map (\<lambda>s'. if sch_namespace s' = sch_namespace s \<and> sch_name s' = sch_name s then stored s else s')
        (mem_schedules w)\<rparr>" "r = stored s"
    "\<exists>s' \<in> set (mem_schedules w). sch_namespace s' = sch_namespace s \<and> sch_name s' = sch_name s"
    by (auto simp: mem_update_status_def Let_def list_ex_iff split: if_splits)
  then show ?case
    using find_map_sched [of "\<lambda>s'. sch_namespace s' = sch_namespace s \<and> sch_name s' = sch_name s" "stored s"]
    by (simp add: mem_get_sched_def)
next
  case (4 s w e w' ns n)
  then show ?case by (auto simp: mem_update_status_def mem_get_sched_def Let_def split: if_splits)
next
  case (5 x w r w' ns n)
  then show ?case by (auto simp: mem_update_def mem_get_sched_def Let_def split: if_splits)
qed

text \<open>The identity, specification, flag and days of a schedule, which a run of the loops keeps.\<close>

definition same_schedule :: "sleep_schedule \<Rightarrow> sleep_schedule \<Rightarrow> bool" where
  "same_schedule s t \<longleftrightarrow>
     sch_namespace s = sch_namespace t \<and> sch_name s = sch_name t \<and> sch_spec s = sch_spec t \<and>
     sst_sleeping (sch_status s) = sst_sleeping (sch_status t) \<and>
     sst_days_display (sch_status s) = sst_days_display (sch_status t)"

definition flag_stored :: "'w kube \<Rightarrow> sleep_schedule \<Rightarrow> 'w \<Rightarrow> bool" where
  "flag_stored c sch w \<longleftrightarrow>
     (\<exists>s. k_get_sched c (sch_namespace sch) (sch_name sch) w = Inr s \<and>
       sst_sleeping (sch_status s) = sst_sleeping (sch_status sch))"

lemma same_schedule_simps [simp]:
  "same_schedule s s" "same_schedule s (stored t) = same_schedule s t"
  "same_schedule s (append_managed m t) = same_schedule s t"
  "same_schedule s (clear_managed t) = same_schedule s t"
  "same_schedule s (set_schedule_condition f a b d t) = same_schedule s t"
  by (simp_all add: same_schedule_def append_managed_def clear_managed_def set_schedule_condition_def)

lemma flag_stored_status:
  assumes "api_sched c" "api_status c" "same_schedule sch t" "flag_stored c sch w"
    and "k_update_status c t w = (r, w')"
  shows "flag_stored c sch w'"
proof (cases r)
  case (Inl e)
  with assms show ?thesis using api_schedD(3) by (fastforce simp: flag_stored_def)
next
  case (Inr s)
  with assms have "s = stored t" "k_get_sched c (sch_namespace t) (sch_name t) w' = Inr s"
    by (auto dest: api_statusD api_schedD(2))
  with assms(3) show ?thesis by (simp add: flag_stored_def same_schedule_def)
qed

lemma flag_stored_update:
  "api_sched c \<Longrightarrow> flag_stored c sch w \<Longrightarrow> k_update c x w = (r, w') \<Longrightarrow> flag_stored c sch w'"
  using api_schedD(4) by (fastforce simp: flag_stored_def)

definition flag_kept :: "'w kube \<Rightarrow> sleep_schedule \<Rightarrow> 'w sleep_st \<Rightarrow> bool" where
  "flag_kept c sch st \<longleftrightarrow> same_schedule sch (ws_sched st) \<and> flag_stored c sch (ws_world st)"

lemma sleep_item_flag:
  assumes laws: "api_sched c" "api_status c" and pre: "flag_kept c sch s"
    and run: "sleep_item c kind slp x s = (r, s')"
  shows "flag_kept c sch s'"
  using run
proof (cases rule: sleep_item_cases)
  case skipped
  with pre show ?thesis by simp
next
  case (refused x' m e w)
  with pre flag_stored_update [OF laws(1) _ refused(3)] show ?thesis by (simp add: flag_kept_def)
next
  case (unrecorded x' m e w w')
  with pre flag_stored_update [OF laws(1) _ unrecorded(3)]
    flag_stored_status [OF laws _ _ unrecorded(4), of sch]
  show ?thesis by (simp add: flag_kept_def)
next
  case (slept x' m w w' t)
  then have "t = stored (append_managed m (ws_sched s))" using api_statusD [OF laws(2)] by blast
  with slept pre flag_stored_update [OF laws(1) _ slept(3)] flag_stored_status [OF laws _ _ slept(4), of sch]
  show ?thesis by (simp add: flag_kept_def)
qed

lemma sleep_phase_flag:
  assumes laws: "api_sched c" "api_status c" and pre: "flag_kept c sch s"
    and run: "sleep_phase c h s = (r, s')"
  shows "flag_kept c sch s'"
proof -
  have items: "flag_kept c sch t'"
    if "run_steps (map (sleep_item c (h_kind h) (h_sleep h)) xs) s = (r', t')" for xs r' t'
    by (rule run_steps_invariant [where P = "flag_kept c sch", OF _ pre that])
      (use sleep_item_flag [OF laws] in auto)
  from run pre items show ?thesis
    unfolding sleep_phase_def by (auto split: if_splits sum.splits)
qed

lemma sleep_workloads_flag:
  assumes laws: "api_sched c" "api_status c" and pre: "flag_stored c sch w"
    and run: "sleep_workloads fc c sch w = (r, st)"
  shows "flag_kept c sch st"
proof (rule run_steps_invariant [where P = "flag_kept c sch", OF _ _ run [unfolded sleep_workloads_def]])
  fix f s r s'
  assume "f \<in> set (map (sleep_phase c) (handlers fc))" and s: "flag_kept c sch s" "f s = (r, s')"
  then obtain h where "f = sleep_phase c h" by auto
  with s show "flag_kept c sch s'" using sleep_phase_flag [OF laws s(1)] by blast
qed (simp add: flag_kept_def pre)

lemma wake_switch_flag:
  assumes "api_sched c" "flag_stored c sch w" "wake_switch c t hs m w = (r, w')"
  shows "flag_stored c sch w'"
  using assms flag_stored_update [OF assms(1,2)]
  unfolding wake_switch_def wake_item_def by (auto split: option.splits sum.splits)

lemma wake_workloads_flag:
  assumes "api_sched c" "flag_stored c sch w" and run: "wake_workloads fc c t w = (r, w')"
  shows "flag_stored c sch w'"
proof -
  have pass: "flag_stored c sch w2"
    if "flag_stored c sch w1" "run_steps (map (wake_switch c t hs) ms) w1 = (r', w2)" for w1 w2 hs ms r'
    by (rule run_steps_invariant [where P = "flag_stored c sch", OF _ that])
      (use wake_switch_flag [OF assms(1)] in auto)
  let ?pass = "\<lambda>hs. run_steps (map (wake_switch c t hs) (sst_managed (sch_status t)))"
  obtain r1 w1 where w1: "?pass (workload_handlers fc) w = (r1, w1)" by (cases "?pass (workload_handlers fc) w")
  note f1 = pass [OF assms(2) w1]
  show ?thesis
  proof (cases r1)
    case None
    with run w1 have "?pass operator_handlers w1 = (r, w')" by (simp add: wake_workloads_def Let_def)
    then show ?thesis by (rule pass [OF f1])
  next
    case (Some e)
    with run w1 f1 show ?thesis by (simp add: wake_workloads_def Let_def)
  qed
qed

lemma verify_flag:
  assumes "api_sched c" "flag_stored c sch w" "verify_and_correct_workloads fc c t w = (r, w')"
  shows "flag_stored c sch w'"
  using assms wake_workloads_flag [OF assms(1,2)]
  unfolding verify_and_correct_workloads_def
  by (auto split: if_splits sum.splits bool.splits prod.splits option.splits)

lemma apply_transition_flag:
  assumes laws: "api_sched c" "api_status c" and pre: "flag_stored c sch w"
    and run: "apply_transition fc c now should sch w = (res, fx, w1)"
  shows "flag_stored c sch w1 \<and> (case res of Inr sch1 \<Rightarrow> same_schedule sch sch1 | Inl _ \<Rightarrow> True)"
proof -
  consider "should" "\<not> sst_sleeping (sch_status sch)" | "\<not> should" "sst_sleeping (sch_status sch)"
    | "should" "sst_sleeping (sch_status sch)" | "\<not> should" "\<not> sst_sleeping (sch_status sch)"
    by blast
  then show ?thesis
  proof cases
    case 1
    obtain r st where s: "sleep_workloads fc c sch w = (r, st)" by (cases "sleep_workloads fc c sch w")
    from sleep_workloads_flag [OF laws pre s] run 1 s show ?thesis
      by (auto simp: apply_transition_def flag_kept_def split: option.splits)
  next
    case 2
    obtain r w2 where s: "wake_workloads fc c sch w = (r, w2)" by (cases "wake_workloads fc c sch w")
    from wake_workloads_flag [OF laws(1) pre s] run 2 s show ?thesis
      by (auto simp: apply_transition_def split: option.splits)
  next
    case 3
    with run pre show ?thesis by (auto simp: apply_transition_def)
  next
    case 4
    obtain r w2 where v: "verify_and_correct_workloads fc c sch w = (r, w2)"
      by (cases "verify_and_correct_workloads fc c sch w")
    obtain q w3 where u: "k_update_status c (clear_managed sch) w = (q, w3)"
      by (cases "k_update_status c (clear_managed sch) w")
    have "flag_stored c sch w3" using flag_stored_status [OF laws _ pre u] by simp
    moreover have "q = Inr s \<Longrightarrow> s = stored (clear_managed sch)" for s
      using api_statusD [OF laws(2)] u by blast
    moreover note verify_flag [OF laws(1) pre v]
    ultimately show ?thesis using run 4 v u pre
      by (auto simp: apply_transition_def split: if_splits sum.splits)
  qed
qed

lemma flag_stored_failed:
  "api_sched c \<Longrightarrow> flag_stored c sch w \<Longrightarrow> k_update_status c t w = (Inl e, w') \<Longrightarrow> flag_stored c sch w'"
  using api_schedD(3) by (fastforce simp: flag_stored_def)

lemma reconcile_suspended_error:
  assumes laws: "api_sched c" and pre: "flag_stored c sch w"
    and run: "reconcile_suspended fc set_cond c ts sch w = (Done d (Some e), fx, w')"
  shows "flag_stored c sch w'"
proof -
  obtain r w1 where k: "wake_workloads fc c sch w = (r, w1)" by (cases "wake_workloads fc c sch w")
  from wake_workloads_flag [OF laws pre k] pre run k flag_stored_failed [OF laws] show ?thesis
    by (auto simp: reconcile_suspended_def split: if_splits option.splits sum.splits prod.splits)
qed

lemma reconcile_active_error:
  assumes laws: "api_sched c" "api_status c" and pre: "flag_stored c sch w"
    and run: "reconcile_active fc load set_cond dflt c now ts days sch w = (Done d (Some e), fx, w')"
  shows "flag_stored c sch w'"
proof -
  let ?should = "should_be_sleeping_at load (sch_spec sch) now"
  obtain res fx1 w1 where t: "apply_transition fc c now ?should sch w = (res, fx1, w1)"
    by (cases "apply_transition fc c now ?should sch w")
  from apply_transition_flag [OF laws pre t] have f: "flag_stored c sch w1" by simp
  from f run t flag_stored_failed [OF laws(1) f] show ?thesis
    by (auto simp: reconcile_active_def Let_def split: sum.splits prod.splits)
qed

text \<open>
  C7: A reconcile that ends with an error leaves the stored flag \<open>status.sleeping\<close> as it was,
  wherever the error comes from, so an interrupted transition is tried again.
\<close>

theorem error_keeps_sleeping_flag:
  assumes laws: "api_sched c" "api_status c" and get: "k_get_sched c ns name w = Inr sch"
    and run: "reconcile fc load pick set_cond dflt c now ts ns name w = (Done d (Some e), fx, w')"
  shows "\<exists>s. k_get_sched c ns name w' = Inr s \<and> sst_sleeping (sch_status s) = sst_sleeping (sch_status sch)"
proof -
  from api_schedD(1) [OF laws(1) get] have key: "sch_namespace sch = ns" "sch_name sch = name" by simp_all
  with get have pre: "flag_stored c sch w" by (simp add: flag_stored_def)
  have "flag_stored c sch w'"
    using run get reconcile_suspended_error [OF laws(1) pre] reconcile_active_error [OF laws pre]
      flag_stored_failed [OF laws(1) pre]
    by (auto simp: reconcile_def reconcile_invalid_def Let_def
        split: if_splits option.splits sum.splits prod.splits)
  with key show ?thesis by (simp add: flag_stored_def)
qed

text \<open>A reconcile at 23:00 whose first write, the update of the deployment, is refused.\<close>

definition at_2300 :: instant where
  "at_2300 = 1781564400 * second"

theorem error_keeps_sleeping_flag_witness:
  "\<exists>fx w' s. reconcile (\<lambda>_ _. 0) (\<lambda>_. None) sorted_list_of_set (\<lambda>cs c. c # cs) 0 (mem_kube (\<lambda>i. i = 0))
      at_2300 at_2300 ''dev'' ''s'' dev_cluster = (Done minute (Some (ErrOther ''conflict'')), fx, w') \<and>
    mem_get_sched ''dev'' ''s'' w' = Inr s \<and> \<not> sst_sleeping (sch_status s)"
proof -
  let ?c = "mem_kube (\<lambda>i. i = 0)"
  let ?run = "reconcile (\<lambda>_ _. 0) (\<lambda>_. None) sorted_list_of_set (\<lambda>cs c. c # cs) 0 ?c at_2300 at_2300
    ''dev'' ''s'' dev_cluster"
  have get: "k_get_sched ?c ''dev'' ''s'' dev_cluster = Inr dev_schedule"
    by (simp add: mem_get_sched_def dev_cluster_def dev_schedule_def)
  have "fst ?run = Done minute (Some (ErrOther ''conflict''))" by code_simp
  then obtain fx w' where run: "?run = (Done minute (Some (ErrOther ''conflict'')), fx, w')"
    by (cases ?run) auto
  from error_keeps_sleeping_flag [OF mem_api_sched mem_api_status get run] run show ?thesis
    by (simp add: dev_schedule_def)
qed

lemma reconcile_active_success:
  assumes laws: "api_sched c" "api_status c" and pre: "flag_stored c sch w"
    and run: "reconcile_active fc load set_cond dflt c now ts days sch w = (Done d None, fx, w')"
  shows "\<exists>s. k_get_sched c (sch_namespace sch) (sch_name sch) w' = Inr s \<and>
    sst_sleeping (sch_status s) = should_be_sleeping_at load (sch_spec sch) now \<and>
    sst_days_display (sch_status s) = days"
proof -
  let ?should = "should_be_sleeping_at load (sch_spec sch) now"
  obtain res fx1 w1 where t: "apply_transition fc c now ?should sch w = (res, fx1, w1)"
    by (cases "apply_transition fc c now ?should sch w")
  with run obtain sch1 where res: "res = Inr sch1"
    by (cases res) (auto simp: reconcile_active_def Let_def)
  with apply_transition_flag [OF laws pre t] have same: "same_schedule sch sch1" by simp
  from run t res obtain sch4 sch5 w2 where u: "k_update_status c sch4 w1 = (Inr sch5, w2)" and w': "w' = w2"
    and sch4: "sch_namespace sch4 = sch_namespace sch1" "sch_name sch4 = sch_name sch1"
      "sst_sleeping (sch_status sch4) = ?should" "sst_days_display (sch_status sch4) = days"
    using same
    by (auto simp: reconcile_active_def Let_def same_schedule_def set_sleeping_def set_days_display_def
        set_schedule_condition_def split: sum.splits prod.splits if_splits)
  have "sch5 = stored sch4" by (rule api_statusD [OF laws(2) u])
  with api_schedD(2) [OF laws(1) u] sch4 same w' show ?thesis by (auto simp: same_schedule_def)
qed

text \<open>
  C6: A reconcile of a schedule with a window that is not suspended and ends without error
  stores the flag \<open>status.sleeping\<close> that its windows demand for the instant of the reconcile,
  and the display of its days.
\<close>

theorem reconcile_follows_schedule:
  assumes laws: "api_sched c" "api_status c" and get: "k_get_sched c ns name w = Inr sch"
    and spec: "\<not> ss_suspend (sch_spec sch)" "get_windows (sch_spec sch) \<noteq> []"
    and run: "reconcile fc load pick set_cond dflt c now ts ns name w = (Done d None, fx, w')"
  shows "\<exists>s. k_get_sched c ns name w' = Inr s \<and>
    sst_sleeping (sch_status s) = should_be_sleeping_at load (sch_spec sch) now \<and>
    Some (sst_days_display (sch_status s)) = aggregate_days_display pick (get_windows (sch_spec sch))"
proof -
  from api_schedD(1) [OF laws(1) get] have key: "sch_namespace sch = ns" "sch_name sch = name" by simp_all
  with get have pre: "flag_stored c sch w" by (simp add: flag_stored_def)
  from run get spec obtain days where days: "aggregate_days_display pick (get_windows (sch_spec sch)) = Some days"
    and active: "reconcile_active fc load set_cond dflt c now ts days sch w = (Done d None, fx, w')"
    by (auto simp: reconcile_def Let_def split: option.splits)
  from reconcile_active_success [OF laws pre active] key days show ?thesis by auto
qed

text \<open>A reconcile at 05:55, five minutes before the window closes.\<close>

definition at_0555 :: instant where
  "at_0555 = 1781589300 * second"

theorem reconcile_follows_schedule_witness:
  "\<exists>d fx w' s. reconcile (\<lambda>_ _. 0) (\<lambda>_. None) sorted_list_of_set (\<lambda>cs c. c # cs) 0 (mem_kube (\<lambda>_. False))
      at_0555 at_0555 ''dev'' ''s'' dev_cluster = (Done d None, fx, w') \<and>
    mem_get_sched ''dev'' ''s'' w' = Inr s \<and> sst_sleeping (sch_status s)"
proof -
  let ?c = "mem_kube (\<lambda>_. False)"
  let ?run = "reconcile (\<lambda>_ _. 0) (\<lambda>_. None) sorted_list_of_set (\<lambda>cs c. c # cs) 0 ?c at_0555 at_0555
    ''dev'' ''s'' dev_cluster"
  have get: "k_get_sched ?c ''dev'' ''s'' dev_cluster = Inr dev_schedule"
    by (simp add: mem_get_sched_def dev_cluster_def dev_schedule_def)
  have spec: "\<not> ss_suspend (sch_spec dev_schedule)" "get_windows (sch_spec dev_schedule) \<noteq> []"
    by (simp_all add: dev_schedule_def get_windows_def)
  have "fst ?run = Done (30 * second) None" by code_simp
  then obtain fx w' where run: "?run = (Done (30 * second) None, fx, w')" by (cases ?run) auto
  have night: "should_be_sleeping_at (\<lambda>_. None) (sch_spec dev_schedule) at_0555" by code_simp
  from reconcile_follows_schedule [OF mem_api_sched mem_api_status get spec run] obtain s where
    "k_get_sched ?c ''dev'' ''s'' w' = Inr s"
    "sst_sleeping (sch_status s) = should_be_sleeping_at (\<lambda>_. None) (sch_spec dev_schedule) at_0555"
    by blast
  with night have "mem_get_sched ''dev'' ''s'' w' = Inr s \<and> sst_sleeping (sch_status s)"
    by (simp only: mem_kube_simps)
  with run show ?thesis by blast
qed

section \<open>Suspending\<close>

text \<open>
  A reconcile of a suspended schedule that ends without error stores that nothing sleeps;
  when the schedule was asleep, it has run \<open>wakeWorkloads\<close> to the end on the way, and when it
  was not, it has changed no workload.
\<close>

theorem suspended_wakes:
  assumes laws: "api_sched c" "api_status c" "api_store c" and get: "k_get_sched c ns name w = Inr sch"
    and spec: "ss_suspend (sch_spec sch)"
    and run: "reconcile fc load pick set_cond dflt c now ts ns name w = (Done d None, fx, w')"
  shows "(\<exists>s. k_get_sched c ns name w' = Inr s \<and> \<not> sst_sleeping (sch_status s)) \<and>
    (\<exists>w1. (if sst_sleeping (sch_status sch) then wake_workloads fc c sch w = (None, w1) else w1 = w) \<and>
      read_key c w' k = read_key c w1 k)"
proof -
  from api_schedD(1) [OF laws(1) get] have key: "sch_namespace sch = ns" "sch_name sch = name" by simp_all
  obtain r w1 where k: "wake_workloads fc c sch w = (r, w1)" by (cases "wake_workloads fc c sch w")
  define v where "v = (if sst_sleeping (sch_status sch) then w1 else w)"
  define t where "t = set_schedule_condition set_cond ''False'' ''Suspended'' ''Schedule is suspended''
    (if sst_sleeping (sch_status sch) then set_sleeping False ts sch else sch)"
  have t: "sch_namespace t = ns" "sch_name t = name" "\<not> sst_sleeping (sch_status t)"
    using key by (simp_all add: t_def set_schedule_condition_def set_sleeping_def)
  have rs: "reconcile_suspended fc set_cond c ts sch w = (Done d None, fx, w')"
    using run get spec by (simp add: reconcile_def)
  obtain q w2 where u2: "k_update_status c t v = (q, w2)" by (cases "k_update_status c t v")
  have r: "sst_sleeping (sch_status sch) \<longrightarrow> r = None"
    using rs k by (cases r) (auto simp: reconcile_suspended_def)
  from rs k r u2 have "w2 = w' \<and> (\<exists>q'. q = Inr q')"
    by (cases "sst_sleeping (sch_status sch)"; cases q) (auto simp: reconcile_suspended_def v_def t_def)
  with u2 obtain q' where u: "k_update_status c t v = (Inr q', w')" by blast
  from api_statusD [OF laws(2) u] api_schedD(2) [OF laws(1) u] t
  have "\<exists>s. k_get_sched c ns name w' = Inr s \<and> \<not> sst_sleeping (sch_status s)" by auto
  moreover have "read_key c w' k = read_key c v k" by (rule read_key_status [OF laws(3) u])
  ultimately show ?thesis using k r by (auto simp: v_def)
qed

text \<open>
  The user has suspended the schedule while the deployment, of three replicas, sleeps. Later
  the user lifts the suspension.
\<close>

definition suspended_schedule :: sleep_schedule where
  "suspended_schedule =
     (append_managed web_entry (set_sleeping True 0 dev_schedule))
       \<lparr>sch_spec := (sch_spec dev_schedule)\<lparr>ss_suspend := True\<rparr>\<rparr>"

definition suspended_cluster :: memory where
  "suspended_cluster =
     \<lparr>mem_objects = [web\<lparr>ko_body := Scalable (Some 0) None\<rparr>], mem_schedules = [suspended_schedule],
      mem_writes = 0\<rparr>"

definition lift_suspension :: "memory \<Rightarrow> memory" where
  "lift_suspension w =
     w\<lparr>mem_schedules := map (\<lambda>s. s\<lparr>sch_spec := (sch_spec s)\<lparr>ss_suspend := False\<rparr>\<rparr>) (mem_schedules w)\<rparr>"

definition run_dev :: "instant \<Rightarrow> memory \<Rightarrow> memory outcome" where
  "run_dev t = reconcile (\<lambda>_ _. 0) (\<lambda>_. None) sorted_list_of_set (\<lambda>cs c. c # cs) 0 (mem_kube (\<lambda>_. False)) t t
     ''dev'' ''s''"

theorem suspended_wakes_witness:
  "\<exists>fx w' s. run_dev at_2300 suspended_cluster = (Done minute None, fx, w') \<and>
    mem_get_sched ''dev'' ''s'' w' = Inr s \<and> \<not> sst_sleeping (sch_status s) \<and>
    (\<exists>w1. wake_workloads (\<lambda>_ _. 0) (mem_kube (\<lambda>_. False)) suspended_schedule suspended_cluster = (None, w1) \<and>
      mem_get deployment_gvk ''dev'' ''web'' w' = mem_get deployment_gvk ''dev'' ''web'' w1)"
proof -
  let ?c = "mem_kube (\<lambda>_. False)"
  have get: "k_get_sched ?c ''dev'' ''s'' suspended_cluster = Inr suspended_schedule"
    by (simp add: mem_get_sched_def suspended_cluster_def suspended_schedule_def append_managed_def
        set_sleeping_def dev_schedule_def)
  have spec: "ss_suspend (sch_spec suspended_schedule)" "sst_sleeping (sch_status suspended_schedule)"
    by (simp_all add: suspended_schedule_def append_managed_def set_sleeping_def)
  have "fst (run_dev at_2300 suspended_cluster) = Done minute None" by code_simp
  then obtain fx w' where run: "run_dev at_2300 suspended_cluster = (Done minute None, fx, w')"
    by (cases "run_dev at_2300 suspended_cluster") auto
  from suspended_wakes [OF mem_api_sched mem_api_status mem_api_store get spec(1) run [unfolded run_dev_def],
      where k = "(deployment_gvk, ''dev'', ''web'')"] spec(2) run
  show ?thesis by (auto simp: read_key_def)
qed

text \<open>
  A sleep can skip every workload and still be reported. \<open>status.managedWorkloads\<close> survives
  the wake of a suspended schedule, and no reconcile clears it while the suspension lasts. When
  the suspension is lifted during a sleep window, the next reconcile takes each listed workload
  for one that sleeps already: it ends without error, stores that the schedule sleeps, and the
  deployment keeps running with its three replicas.
\<close>

theorem stale_entries_skip_sleep:
  "case run_dev at_2300 suspended_cluster of (r1, fx1, w1) \<Rightarrow>
   case run_dev at_0555 (lift_suspension w1) of (r2, fx2, w2) \<Rightarrow>
     r1 = Done minute None \<and> r2 = Done (30 * second) None \<and>
     map (\<lambda>s. sst_sleeping (sch_status s)) (mem_schedules w2) = [True] \<and>
     map ko_body (mem_objects w2) = [Scalable (Some 3) None]"
  by code_simp

section \<open>A conflict between the two writes\<close>

definition at_0630 :: instant where
  "at_0630 = 1781591400 * second"

text \<open>The second write, the status update after scaling the deployment, meets a conflict.\<close>

definition run_conflict :: "instant \<Rightarrow> memory \<Rightarrow> memory outcome" where
  "run_conflict t =
     reconcile (\<lambda>_ _. 0) (\<lambda>_. None) sorted_list_of_set (\<lambda>cs c. c # cs) 0 (mem_kube (\<lambda>i. i = 1)) t t
       ''dev'' ''s''"


end
