(* ===== verification/Sleep_Life.thy ===== *)
theory Sleep_Life
  imports Sleep_Reconcile
begin

text \<open>
  The life of a schedule: any number of reconciles, over days, with edits of its specification,
  suspensions and failing calls in between. What one sleep and one wake do to an object
  is known from \<open>Workloads\<close>; here entries grow stale, wakes are repeated, and workloads that
  are awake already are woken again.
\<close>

section \<open>States up to what sleeping may change\<close>

lemma same_node_set_trans: "same_node_set u v \<Longrightarrow> same_node_set v w \<Longrightarrow> same_node_set u w"
  by (auto simp: same_node_set_def)

lemma same_node_set_sym: "same_node_set u v \<Longrightarrow> same_node_set v u"
  by (auto simp: same_node_set_def)

lemma same_specD:
  assumes "same_spec a b"
  shows "k \<notin> {''suspend'', ''replicas'', ''count'', ''nodeSets''} \<Longrightarrow> map_of a k = map_of b k"
    "as_bool (map_of a ''suspend'') = Some True \<longleftrightarrow> as_bool (map_of b ''suspend'') = Some True"
    "num_val (map_of a ''replicas'') = num_val (map_of b ''replicas'')"
    "num_val (map_of a ''count'') = num_val (map_of b ''count'')"
    "list_all2 same_node_set (as_arr (map_of a ''nodeSets'')) (as_arr (map_of b ''nodeSets''))"
  using assms unfolding same_spec_def by blast+

lemma same_spec_trans:
  assumes "same_spec a b" "same_spec b c"
  shows "same_spec a c"
  unfolding same_spec_def
proof (intro conjI allI impI)
  show "list_all2 same_node_set (as_arr (map_of a ''nodeSets'')) (as_arr (map_of c ''nodeSets''))"
    by (rule list_all2_trans [OF same_node_set_trans assms [THEN same_specD(5)]])
next
  fix k assume "k \<notin> {''suspend'', ''replicas'', ''count'', ''nodeSets''}"
  then show "map_of a k = map_of c k" using assms [THEN same_specD(1)] by metis
qed (simp_all only: same_specD(2-4) [OF assms(1)] same_specD(2-4) [OF assms(2)])

lemma same_body_trans: "same_body a b \<Longrightarrow> same_body b c \<Longrightarrow> same_body a c"
  by (cases a; cases b; cases c) (auto simp: same_body_def intro: same_spec_trans)

lemma same_state_trans: "same_state x y \<Longrightarrow> same_state y z \<Longrightarrow> same_state x z"
  unfolding same_state_def using same_body_trans by metis

lemma same_spec_sym:
  assumes "same_spec a b"
  shows "same_spec b a"
  unfolding same_spec_def
proof (intro conjI allI impI)
  show "list_all2 same_node_set (as_arr (map_of b ''nodeSets'')) (as_arr (map_of a ''nodeSets''))"
    using same_specD(5) [OF assms] by (auto simp: list_all2_conv_all_nth intro: same_node_set_sym)
next
  fix k assume "k \<notin> {''suspend'', ''replicas'', ''count'', ''nodeSets''}"
  then show "map_of b k = map_of a k" using same_specD(1) [OF assms] by metis
qed (simp_all only: same_specD(2-4) [OF assms])

lemma same_state_sym: "same_state x y \<Longrightarrow> same_state y x"
  unfolding same_state_def same_body_def
  by (cases "ko_body x"; cases "ko_body y") (auto intro: same_spec_sym)

lemma fits32_eq: "num_val v = num_val w \<Longrightarrow> fits32 v = fits32 w"
  by (simp add: fits32_def)

lemma fits32_count:
  assumes "fits32 (map_of b ''count'')" "count_val a = count_val b"
  shows "fits32 (map_of a ''count'')"
proof (cases "num_val (map_of a ''count'')")
  case (Some r)
  then have "r = count_val b" using assms(2) by (simp add: count_val_def)
  then show ?thesis using assms(1) Some by (auto simp: fits32_def count_val_def split: option.splits)
qed (simp add: fits32_def)

lemma same_sets_names: "list_all2 same_node_set vs ws \<Longrightarrow> set_names vs = set_names ws"
proof (induction rule: list_all2_induct)
  case (Cons v vs w ws)
  then show ?case
    by (cases "v = w") (auto simp: same_node_set_def set_names_def split: jval.splits)
qed simp

lemma same_sets_ok:
  assumes "list_all2 same_node_set vs ws" "node_sets_ok ws"
  shows "node_sets_ok vs"
proof -
  have "fits32 (map_of ns ''count'')" if ns: "JObj ns \<in> set vs" for ns
  proof -
    obtain w where w: "w \<in> set ws" "same_node_set (JObj ns) w"
      using assms(1) ns by (metis list_all2_conv_all_nth in_set_conv_nth)
    then obtain b where "w = JObj b" "count_val ns = count_val b" by (auto simp: same_node_set_def)
    then show ?thesis using assms(2) w(1) by (auto simp: node_sets_ok_def intro: fits32_count)
  qed
  then show ?thesis using assms same_sets_names by (simp add: node_sets_ok_def)
qed

lemma same_state_well_formed:
  assumes "same_state x y" "well_formed y"
  shows "well_formed x"
proof (cases "ko_body x")
  case (Custom c)
  with assms(1) obtain d where d: "ko_body y = Custom d" "same_spec (spec_or_empty c) (spec_or_empty d)"
    by (auto simp: same_state_def same_body_def split: body.splits)
  have "fits32 (map_of (spec_or_empty d) ''replicas'')" "fits32 (map_of (spec_or_empty d) ''count'')"
    "node_sets_ok (as_arr (map_of (spec_or_empty d) ''nodeSets''))"
    using assms(2) d(1) by (simp_all add: well_formed_def Let_def)
  then show ?thesis
    using same_sets_ok [OF same_specD(5) [OF d(2)]] fits32_eq [OF same_specD(3) [OF d(2)]]
      fits32_eq [OF same_specD(4) [OF d(2)]] Custom
    by (simp add: well_formed_def Let_def)
qed (simp_all add: well_formed_def)

section \<open>Waking what is awake\<close>

text \<open>
  A stricter contract: the recorded entry does no harm to an object that is back in its old
  state. It is what makes it safe to retry a wake and to verify after it.
\<close>

locale repeatable_handler = workload_handler +
  assumes wk_again: "well_formed x \<Longrightarrow> slp x = Some (x', m) \<Longrightarrow> same_state y x \<Longrightarrow> wk m y = Some z \<Longrightarrow>
    same_state z x"
begin

lemma wk_any:
  assumes "well_formed x" "slp x = Some (x', m)" "y = x' \<or> same_state y x"
  shows "case wk m y of None \<Rightarrow> same_state y x | Some z \<Rightarrow> same_state z x"
proof (cases "y = x'")
  case True
  then show ?thesis using wk_restores [OF assms(1,2)] by auto
next
  case False
  then show ?thesis using assms wk_again [OF assms(1,2)] by (auto split: option.split)
qed

end

lemma same_state_custom:
  assumes "same_state y x" "ko_body y = Custom ct" "ko_body x = Custom dt"
    and "same_spec sp (spec_or_empty dt)"
  shows "same_state (set_spec ct sp y) x"
  using assms
  by (simp add: same_state_def set_spec_def ko_key_def annotations_of_def same_body_def update_conv')

lemma same_state_Custom:
  assumes "same_state y x" "ko_body y = Custom ct"
  obtains dt where "ko_body x = Custom dt" "same_spec (spec_or_empty ct) (spec_or_empty dt)"
  using assms by (cases "ko_body x") (auto simp: same_state_def same_body_def)

interpretation deployment_again: repeatable_handler kind "sleep_scalable kind" wake_scalable
  by unfold_locales
    (auto simp: sleep_scalable_def wake_scalable_def same_state_def same_body_def ko_key_def
      split: body.splits option.splits if_splits)

interpretation cron_job_again: repeatable_handler kind "sleep_cron_job kind" wake_cron_job
  by unfold_locales
    (auto simp: sleep_cron_job_def wake_cron_job_def same_state_def same_body_def ko_key_def
      split: body.splits option.splits if_splits)

interpretation cluster_again: repeatable_handler kind "sleep_cluster kind" wake_cluster
  by unfold_locales
    (auto simp: sleep_cluster_def wake_cluster_def Let_def same_state_def
      set_annotations_def ko_key_def annotations_of_def split: if_splits)

interpretation suspend_again: repeatable_handler kind "sleep_suspend_resource kind" wake_suspend_resource
proof
  fix x x' m y z
  assume slp: "sleep_suspend_resource kind x = Some (x', m)" and y: "same_state y x"
    and wk: "wake_suspend_resource m y = Some z"
  from wk obtain ct where ct: "ko_body y = Custom ct" by (auto simp: wake_suspend_resource_def split: body.splits)
  from y ct obtain dt where dt: "ko_body x = Custom dt" "same_spec (spec_or_empty ct) (spec_or_empty dt)"
    by (rule same_state_Custom)
  from slp dt(1) have m: "mw_suspend m = Some False" and "as_bool (map_of (spec_or_empty dt) ''suspend'') \<noteq> Some True"
    by (auto simp: sleep_suspend_resource_def Let_def spec_or_empty_def as_bool_def split: option.splits if_splits)
  then have "same_spec (AList.update ''suspend'' (JBool False) (spec_or_empty ct)) (spec_or_empty dt)"
    using dt(2) by (auto simp: same_spec_def update_conv' as_bool_def)
  from same_state_custom [OF y ct dt(1) this] show "same_state z x"
    using wk ct m by (simp add: wake_suspend_resource_def)
qed

lemma number_again:
  assumes field: "field \<in> {''replicas'', ''count''}"
  shows "repeatable_handler kind (sleep_number fc field kind) (wake_number field)"
proof (intro repeatable_handler.intro number_handler [OF field] repeatable_handler_axioms.intro)
  fix x x' m y z
  assume wf: "well_formed x" and slp: "sleep_number fc field kind x = Some (x', m)" and y: "same_state y x"
    and wk: "wake_number field m y = Some z"
  from slp obtain dt sp n where dt: "ko_body x = Custom dt" "spec_of dt = Some sp"
    and n: "num32 fc (map_of sp field) = Some n" and m: "mw_replicas m = Some n"
    by (auto elim!: sleep_numberE)
  from wk m obtain ct where ct: "ko_body y = Custom ct" by (auto simp: wake_number_def split: body.splits)
  have same: "same_spec (spec_or_empty ct) sp"
    using same_state_Custom [OF y ct] dt by (metis body.inject(3) spec_or_empty_Some)
  from wf dt field have "fits32 (map_of sp field)"
    by (auto simp: well_formed_def spec_or_empty_Some Let_def)
  from num32_exact [OF this n] have "num_val (map_of sp field) = Some (of_int n)" by blast
  then have "same_spec (AList.update field (JInt n) (spec_or_empty ct)) sp"
    using field same by (auto simp: same_spec_def update_conv')
  then have "same_spec (AList.update field (JInt n) (spec_or_empty ct)) (spec_or_empty dt)"
    by (simp add: spec_or_empty_Some [OF dt(2)])
  from same_state_custom [OF y ct dt(1) this] show "same_state z x"
    using wk ct m by (simp add: wake_number_def)
qed

interpretation replica_again: repeatable_handler kind "sleep_replica_resource fc kind" wake_replica_resource
  unfolding sleep_replica_resource_def wake_replica_resource_def by (rule number_again) simp

interpretation count_again: repeatable_handler kind "sleep_count_resource fc kind" wake_count_resource
  unfolding sleep_count_resource_def wake_count_resource_def by (rule number_again) simp

text \<open>A node set that is back in its old state is given the count that it has.\<close>

lemma restore_same_set:
  assumes v: "same_node_set v w"
    and hit: "\<And>ns. w = JObj ns \<Longrightarrow> fits32 (map_of ns ''count'') \<and>
      map_of counts (as_str (map_of ns ''name'')) = Some (count32 fc ns)"
  shows "same_node_set (restore_count counts v) w"
proof (cases "\<exists>ns. v = JObj ns")
  case True
  then obtain a where a: "v = JObj a" ..
  with v obtain b where b: "w = JObj b" "count_val a = count_val b" "\<And>k. k \<noteq> ''count'' \<Longrightarrow> map_of a k = map_of b k"
    by (auto simp: same_node_set_def)
  have "map_of counts (as_str (map_of a ''name'')) = Some (count32 fc b)"
    using hit [OF b(1)] b(3) [of "''name''"] by simp
  then have "restore_count counts v = JObj (AList.update ''count'' (JInt (count32 fc b)) a)"
    by (simp add: a restore_count_def)
  moreover have "count_val (AList.update ''count'' (JInt (count32 fc b)) a) = count_val b"
    using count32_exact hit [OF b(1)] by (simp add: count_val_def update_conv')
  ultimately show ?thesis using b by (auto simp: same_node_set_def update_conv')
next
  case False
  with v show ?thesis by (cases v) (auto simp: restore_count_def)
qed

interpretation elasticsearch_again: repeatable_handler kind "sleep_elasticsearch fc kind" wake_elasticsearch
proof
  fix x x' m y z
  assume wf: "well_formed x" and slp: "sleep_elasticsearch fc kind x = Some (x', m)" and y: "same_state y x"
    and wk: "wake_elasticsearch m y = Some z"
  from slp obtain dt sp vs where dt: "ko_body x = Custom dt" "spec_of dt = Some sp"
    and vs: "map_of sp ''nodeSets'' = Some (JArr vs)"
    and m: "mw_counts m = Some (marshal_counts (fst (capture_counts fc vs ([], False))))"
    by (auto elim!: sleep_elasticsearchE)
  from wf dt vs have ok: "node_sets_ok vs"
    by (simp add: well_formed_def spec_or_empty_Some Let_def as_arr_def)
  from captured_unmarshal [OF this] obtain counts where
    u: "unmarshal_counts (marshal_counts (fst (capture_counts fc vs ([], False)))) = Some counts"
    and hit: "\<And>ns. JObj ns \<in> set vs \<Longrightarrow> map_of counts (as_str (map_of ns ''name'')) = Some (count32 fc ns)"
    by blast
  from wk m u obtain ct sp' where ct: "ko_body y = Custom ct" "spec_of ct = Some sp'"
    by (auto simp: wake_elasticsearch_def split: body.splits option.splits)
  have same: "same_spec sp' sp"
    using same_state_Custom [OF y ct(1)] dt ct by (metis body.inject(3) spec_or_empty_Some)
  show "same_state z x"
  proof (cases "\<exists>us. map_of sp' ''nodeSets'' = Some (JArr us)")
    case True
    then obtain us where us: "map_of sp' ''nodeSets'' = Some (JArr us)" ..
    with same_specD(5) [OF same] vs have sets: "list_all2 same_node_set us vs" by (simp add: as_arr_def)
    have "list_all2 same_node_set (map (restore_count counts) us) vs"
      unfolding list_all2_map1
    proof (rule list.rel_mono_strong [OF sets])
      fix u v assume "u \<in> set us" "v \<in> set vs" "same_node_set u v"
      then show "same_node_set (restore_count counts u) v"
        using ok hit by (intro restore_same_set [where fc = fc]) (auto simp: node_sets_ok_def)
    qed
    then have "same_spec (AList.update ''nodeSets'' (JArr (map (restore_count counts) us)) sp') (spec_or_empty dt)"
      using same vs by (simp add: same_spec_def update_conv' as_arr_def spec_or_empty_Some [OF dt(2)])
    from same_state_custom [OF y ct(1) dt(1) this] show ?thesis
      using wk ct m u us by (simp add: wake_elasticsearch_def)
  next
    case False
    then have "z = y" using wk ct m u
      by (auto simp: wake_elasticsearch_def split: option.splits jval.splits)
    then show ?thesis using y by simp
  qed
qed

lemma handler_again:
  "h \<in> set (handlers fc) \<Longrightarrow> repeatable_handler (h_kind h) (h_sleep h) (h_wake h)"
  by (auto simp: handlers_def operator_handlers_def workload_handlers_def row_def
      intro: deployment_again.repeatable_handler_axioms cron_job_again.repeatable_handler_axioms
        cluster_again.repeatable_handler_axioms suspend_again.repeatable_handler_axioms
        replica_again.repeatable_handler_axioms count_again.repeatable_handler_axioms
        elasticsearch_again.repeatable_handler_axioms)

section \<open>The invariant of a life\<close>

text \<open>
  Compared with the cluster \<open>w0\<close> at the start, an object is as it was, or it is down: exactly as
  the sleep of one of the recorded entries left it.
\<close>

definition awake_at :: "'w kube \<Rightarrow> 'w \<Rightarrow> 'w \<Rightarrow> gvk \<times> string \<times> string \<Rightarrow> bool" where
  "awake_at c w0 w k \<longleftrightarrow>
     read_key c w k = read_key c w0 k \<or>
     (\<exists>x y. read_key c w0 k = Inr x \<and> read_key c w k = Inr y \<and> same_state y x)"

definition entry_kept :: "float_conv \<Rightarrow> 'w kube \<Rightarrow> 'w \<Rightarrow> string \<Rightarrow> entry \<Rightarrow> bool" where
  "entry_kept fc c w0 ns e \<longleftrightarrow>
     fst e \<in> set (handlers fc) \<and> h_sleep (fst e) (e_before e) = Some (e_after e, e_record e) \<and>
     ko_gvk (e_before e) = h_gvk (fst e) \<and> om_namespace (ko_meta (e_before e)) = ns \<and>
     well_formed (e_before e) \<and> (\<exists>x0. read_key c w0 (e_key e) = Inr x0 \<and> same_state (e_before e) x0)"

definition entries_kept :: "float_conv \<Rightarrow> 'w kube \<Rightarrow> 'w \<Rightarrow> string \<Rightarrow> entry list \<Rightarrow> bool" where
  "entries_kept fc c w0 ns es \<longleftrightarrow> list_all (entry_kept fc c w0 ns) es \<and> distinct (map e_key es)"

definition down_only :: "'w kube \<Rightarrow> 'w \<Rightarrow> entry set \<Rightarrow> 'w \<Rightarrow> bool" where
  "down_only c w0 D w \<longleftrightarrow>
     (\<forall>k. awake_at c w0 w k \<or> (\<exists>e \<in> D. e_key e = k \<and> read_key c w k = Inr (e_after e)))"

lemma down_onlyD:
  "down_only c w0 D w \<Longrightarrow> awake_at c w0 w k \<or> (\<exists>e \<in> D. e_key e = k \<and> read_key c w k = Inr (e_after e))"
  unfolding down_only_def by blast

lemma down_only_mono: "down_only c w0 D w \<Longrightarrow> D \<subseteq> D' \<Longrightarrow> down_only c w0 D' w"
  unfolding down_only_def by blast

lemma down_only_same: "down_only c w0 D w \<Longrightarrow> (\<And>k. read_key c w' k = read_key c w k) \<Longrightarrow> down_only c w0 D w'"
  unfolding down_only_def awake_at_def by simp

lemma down_only_awake: "down_only c w0 {} w \<longleftrightarrow> (\<forall>k. awake_at c w0 w k)"
  by (simp add: down_only_def)

text \<open>Writing one object.\<close>

lemma down_only_write:
  assumes "down_only c w0 D w" "\<And>k. read_key c w' k = (if k = key then Inr y else read_key c w k)"
    and "(\<exists>x0. read_key c w0 key = Inr x0 \<and> same_state y x0) \<and> D' = {e \<in> D. e_key e \<noteq> key} \<or>
      (\<exists>e \<in> D'. e_key e = key \<and> y = e_after e) \<and> D \<subseteq> D'"
  shows "down_only c w0 D' w'"
  unfolding down_only_def
proof
  fix k
  show "awake_at c w0 w' k \<or> (\<exists>e \<in> D'. e_key e = k \<and> read_key c w' k = Inr (e_after e))"
  proof (cases "k = key")
    case True
    then show ?thesis using assms(2) [of k] assms(3) by (auto simp: awake_at_def)
  next
    case False
    with assms(2) [of k] have r: "read_key c w' k = read_key c w k" by simp
    from down_onlyD [OF assms(1), of k] show ?thesis
      using False assms(3) unfolding r awake_at_def by blast
  qed
qed

text \<open>An object that is awake leaves the set of those that are down.\<close>

lemma down_only_drop:
  assumes "down_only c w0 D w" "awake_at c w0 w (e_key e)"
  shows "down_only c w0 (D - {e}) w"
  unfolding down_only_def
proof
  fix k
  show "awake_at c w0 w k \<or> (\<exists>e \<in> D - {e}. e_key e = k \<and> read_key c w k = Inr (e_after e))"
    using assms(2) down_onlyD [OF assms(1), of k] by (cases "k = e_key e") auto
qed

text \<open>The switch finds the handler of the entry.\<close>

lemma wake_switch_entry:
  assumes "set hs \<subseteq> set (handlers fc)" "entry_kept fc c w0 (sch_namespace sch) (h, x, x', m)" "h \<in> set hs"
  shows "wake_switch c sch hs m w = wake_item c sch h m w"
    and "k_get c (h_gvk h) (sch_namespace sch) (mw_name m) w = read_key c w (ko_key x)"
proof -
  from assms(2) have h: "h \<in> set (handlers fc)" "h_sleep h x = Some (x', m)" "ko_gvk x = h_gvk h"
    "om_namespace (ko_meta x) = sch_namespace sch" by (auto simp: entry_kept_def)
  have m: "mw_kind m = h_kind h" "mw_name m = ko_name x" using handler_facts(2) [OF handler_contract [OF h(1)] h(2)] by simp_all
  have "find (\<lambda>h'. h_kind h' = mw_kind m) hs \<noteq> None" using assms(3) m by (auto simp: find_None_iff)
  then obtain h' where h': "find (\<lambda>h'. h_kind h' = mw_kind m) hs = Some h'" by blast
  then have "h' \<in> set hs" "h_kind h' = h_kind h" using m by (auto simp: find_Some_iff)
  then have "h' = h" using handler_kind_inj h(1) assms(1) by blast
  with h' show "wake_switch c sch hs m w = wake_item c sch h m w" by (simp add: wake_switch_def)
  show "k_get c (h_gvk h) (sch_namespace sch) (mw_name m) w = read_key c w (ko_key x)"
    using h(3,4) m(2) by (simp add: read_key_def ko_key_def)
qed

text \<open>What the update of a wake writes is the original state, and it is written exactly when it is missing.\<close>

lemma wake_item_writes:
  assumes e: "entry_kept fc c w0 ns (h, x, x', m)" and y: "read_key c w (ko_key x) = Inr y"
    and at: "awake_at c w0 w (ko_key x) \<or> y = x'"
  shows "case h_wake h m y of
      None \<Rightarrow> awake_at c w0 w (ko_key x)
    | Some z \<Rightarrow> ko_key z = ko_key x \<and> (\<exists>x0. read_key c w0 (ko_key x) = Inr x0 \<and> same_state z x0)"
proof -
  from e obtain x0 where h: "h \<in> set (handlers fc)" "h_sleep h x = Some (x', m)" "well_formed x"
    and x0: "read_key c w0 (ko_key x) = Inr x0" "same_state x x0"
    by (auto simp: entry_kept_def)
  have "y = x' \<or> same_state y x"
    using at y x0 same_state_trans same_state_sym [OF x0(2)] by (auto simp: awake_at_def)
  note any = repeatable_handler.wk_any [OF handler_again [OF h(1)] h(3,2) this]
  show ?thesis
  proof (cases "h_wake h m y")
    case None
    then have "same_state y x0" using any same_state_trans [OF _ x0(2)] by simp
    then show ?thesis using None y x0(1) by (auto simp: awake_at_def)
  next
    case (Some z)
    then have z: "same_state z x" using any by simp
    then have "ko_key z = ko_key x" by (simp add: same_state_def)
    with Some x0(1) same_state_trans [OF z x0(2)] show ?thesis by simp
  qed
qed

text \<open>What is restored leaves the set of those that are down, whatever else is the case.\<close>

lemma wake_switch_kept:
  assumes store: "api_store c" and hs: "set hs \<subseteq> set (handlers fc)"
    and e: "entry_kept fc c w0 (sch_namespace sch) e" and inh: "fst e \<in> set hs"
    and own: "\<forall>e' \<in> D. e_key e' = e_key e \<longrightarrow> e' = e"
    and pre: "down_only c w0 D w"
    and run: "wake_switch c sch hs (e_record e) w = (r, w')"
  shows "case r of None \<Rightarrow> down_only c w0 (D - {e}) w' | Some err \<Rightarrow> down_only c w0 D w'"
proof -
  obtain h x x' m where ee: "e = (h, x, x', m)" by (cases e)
  note kept = e [unfolded ee] and inh' = inh [unfolded ee fst_conv]
  note item = wake_switch_entry [OF hs kept inh']
  have run': "wake_item c sch h m w = (r, w')" using run item(1) [of w] by (simp add: ee)
  have D: "{e' \<in> D. e_key e' \<noteq> ko_key x} = D - {e}" using own ee by auto
  have at: "awake_at c w0 w (ko_key x) \<or> read_key c w (ko_key x) = Inr x'"
    using down_onlyD [OF pre, of "ko_key x"] own ee by auto
  have drop: "down_only c w0 (D - {e}) w" if "awake_at c w0 w (ko_key x)"
    using down_only_drop [OF pre, of e] that by (simp add: ee)
  show ?thesis
  proof (cases "read_key c w (ko_key x)")
    case (Inl err)
    then show ?thesis using drop at run' item(2) [of w] by (auto simp: wake_item_def)
  next
    case (Inr y)
    have writes: "case h_wake h m y of None \<Rightarrow> awake_at c w0 w (ko_key x)
        | Some z \<Rightarrow> ko_key z = ko_key x \<and> (\<exists>x0. read_key c w0 (ko_key x) = Inr x0 \<and> same_state z x0)"
      using wake_item_writes [OF kept Inr] at Inr by auto
    show ?thesis
    proof (cases "h_wake h m y")
      case None
      then show ?thesis using writes drop run' item(2) [of w] Inr by (auto simp: wake_item_def)
    next
      case (Some z)
      then have upd: "k_update c z w = (r, w')" using run' item(2) [of w] Inr by (simp add: wake_item_def)
      have z: "ko_key z = ko_key x" "\<exists>x0. read_key c w0 (ko_key x) = Inr x0 \<and> same_state z x0" using writes Some by simp_all
      show ?thesis
      proof (cases r)
        case None
        have "down_only c w0 {e' \<in> D. e_key e' \<noteq> ko_key x} w'"
        proof (rule down_only_write [OF pre])
          show "read_key c w' k = (if k = ko_key x then Inr z else read_key c w k)" for k
            using read_key_updated [OF store] upd None z(1) by metis
        qed (use z(2) in blast)
        then show ?thesis using D None by simp
      next
        case (Some err)
        then show ?thesis using down_only_same [OF pre read_key_failed [OF store]] upd by simp
      qed
    qed
  qed
qed

lemma wake_switch_skips:
  assumes hs: "set hs \<subseteq> set (handlers fc)" and e: "entry_kept fc c w0 ns e" "fst e \<notin> set hs"
  shows "wake_switch c sch hs (e_record e) w = (None, w)"
proof -
  obtain h x x' m where ee: "e = (h, x, x', m)" by (cases e)
  from e ee have h: "h \<in> set (handlers fc)" "h_sleep h x = Some (x', m)" by (simp_all add: entry_kept_def)
  have m: "mw_kind m = h_kind h" using handler_facts(2) [OF handler_contract [OF h(1)] h(2)] by simp
  have "find (\<lambda>h'. h_kind h' = mw_kind m) hs = None"
    using handler_kind_inj h(1) hs e(2) ee m by (auto simp: find_None_iff)
  then show ?thesis using ee by (simp add: wake_switch_def)
qed

lemma wake_pass_kept:
  assumes store: "api_store c" and hs: "set hs \<subseteq> set (handlers fc)"
    and es: "list_all (entry_kept fc c w0 (sch_namespace sch)) es'"
    and own: "\<forall>e \<in> set es'. \<forall>e' \<in> D. e_key e' = e_key e \<longrightarrow> e' = e"
    and pre: "down_only c w0 D w"
    and run: "run_steps (map (wake_switch c sch hs) (map e_record es')) w = (r, w')"
  shows "down_only c w0 (if r = None then D - {e \<in> set es'. fst e \<in> set hs} else D) w'"
  using es own pre run
proof (induction es' arbitrary: D w)
  case Nil
  then show ?case by simp
next
  case (Cons e es')
  obtain r1 w1 where w1: "wake_switch c sch hs (e_record e) w = (r1, w1)" by (cases "wake_switch c sch hs (e_record e) w")
  have e: "entry_kept fc c w0 (sch_namespace sch) e" using Cons.prems(1) by simp
  show ?case
  proof (cases "fst e \<in> set hs")
    case True
    note step = wake_switch_kept [OF store hs e True _ Cons.prems(3) w1]
    show ?thesis
    proof (cases r1)
      case None
      have "down_only c w0 (D - {e}) w1" using step Cons.prems(2) None by simp
      moreover have "run_steps (map (wake_switch c sch hs) (map e_record es')) w1 = (r, w')"
        using Cons.prems(4) w1 None by simp
      ultimately have "down_only c w0 (if r = None then D - {e} - {e \<in> set es'. fst e \<in> set hs} else D - {e}) w'"
        using Cons.prems(1,2) by (intro Cons.IH) simp_all
      moreover have "D - {e} - {e \<in> set es'. fst e \<in> set hs} = D - {e' \<in> set (e # es'). fst e' \<in> set hs}"
        using True by auto
      ultimately show ?thesis by (auto intro: down_only_mono split: if_splits)
    next
      case (Some err)
      then show ?thesis using step Cons.prems(2,4) w1 by auto
    qed
  next
    case False
    have "r1 = None" "w1 = w" using wake_switch_skips [OF hs e False, of sch w] w1 by simp_all
    then have "run_steps (map (wake_switch c sch hs) (map e_record es')) w = (r, w')"
      using Cons.prems(4) w1 by simp
    from Cons.IH [OF _ _ Cons.prems(3) this]
    have "down_only c w0 (if r = None then D - {e \<in> set es'. fst e \<in> set hs} else D) w'"
      using Cons.prems(1,2) by simp
    moreover have "{e' \<in> set (e # es'). fst e' \<in> set hs} = {e \<in> set es'. fst e \<in> set hs}" using False by auto
    ultimately show ?thesis by (auto split: if_splits)
  qed
qed

text \<open>
  A wake that ends without error leaves nothing down; one that fails leaves at most what was.
\<close>

lemma wake_workloads_kept:
  assumes store: "api_store c" and es: "entries_kept fc c w0 (sch_namespace sch) es"
    and ms: "sst_managed (sch_status sch) = map e_record es"
    and D: "D \<subseteq> set es" and pre: "down_only c w0 D w"
    and run: "wake_workloads fc c sch w = (r, w')"
  shows "down_only c w0 (if r = None then {} else D) w'"
proof -
  have own: "\<forall>e \<in> set es. \<forall>e' \<in> D. e_key e' = e_key e \<longrightarrow> e' = e"
    using es D unfolding entries_kept_def distinct_map inj_on_def by blast
  have ok: "list_all (entry_kept fc c w0 (sch_namespace sch)) es" using es by (simp add: entries_kept_def)
  let ?W = "{e \<in> set es. fst e \<in> set (workload_handlers fc)}" and ?O = "{e \<in> set es. fst e \<in> set operator_handlers}"
  obtain r1 w1 where p1: "run_steps (map (wake_switch c sch (workload_handlers fc)) (map e_record es)) w = (r1, w1)"
    by (cases "run_steps (map (wake_switch c sch (workload_handlers fc)) (map e_record es)) w")
  note d1 = wake_pass_kept [OF store workload_handlers_subset ok own pre p1]
  show ?thesis
  proof (cases r1)
    case (Some err)
    then show ?thesis using run p1 d1 by (auto simp: wake_workloads_def ms)
  next
    case None
    then have p2: "run_steps (map (wake_switch c sch operator_handlers) (map e_record es)) w1 = (r, w')"
      using run p1 by (simp add: wake_workloads_def ms)
    have "down_only c w0 (D - ?W) w1" using d1 None by simp
    from wake_pass_kept [OF store operator_handlers_subset ok _ this p2]
    have d2: "down_only c w0 (if r = None then D - ?W - ?O else D - ?W) w'" using own by simp
    have "D - ?W - ?O = {}"
      using D ok by (auto simp: list_all_iff entry_kept_def handlers_def)
    then show ?thesis using d2 by (auto intro: down_only_mono split: if_splits)
  qed
qed

lemma verify_kept:
  assumes store: "api_store c" and es: "entries_kept fc c w0 (sch_namespace sch) es"
    and ms: "sst_managed (sch_status sch) = map e_record es" and pre: "down_only c w0 {} w"
    and run: "verify_and_correct_workloads fc c sch w = (r, w')"
  shows "down_only c w0 {} w'"
  using run pre wake_workloads_kept [OF store es ms _ pre]
  unfolding verify_and_correct_workloads_def
  by (auto split: if_splits sum.splits bool.splits prod.splits option.splits)

section \<open>Sleeping with entries already recorded\<close>

text \<open>
  Writing the status of a schedule that exists succeeds; every other call may fail at any time.
\<close>

definition status_writes_succeed :: "'w kube \<Rightarrow> bool" where
  "status_writes_succeed c \<longleftrightarrow>
     (\<forall>s w q. k_get_sched c (sch_namespace s) (sch_name s) w = Inr q \<longrightarrow> (\<exists>r w'. k_update_status c s w = (Inr r, w')))"

lemma status_written:
  assumes "status_writes_succeed c" "k_update_status c s w = (r, w')"
    and "k_get_sched c (sch_namespace s) (sch_name s) w = Inr q"
  obtains t where "r = Inr t"
  using assms unfolding status_writes_succeed_def by (metis fst_conv)

text \<open>
  The state of a run of \<open>sleepWorkloads\<close>: memory and stored schedule agree, and the entries
  account for everything that is down.
\<close>

definition tracked :: "float_conv \<Rightarrow> 'w kube \<Rightarrow> 'w \<Rightarrow> string \<Rightarrow> string \<Rightarrow> entry list \<Rightarrow> 'w sleep_st \<Rightarrow> bool" where
  "tracked fc c w0 ns n es st \<longleftrightarrow>
     sch_namespace (ws_sched st) = ns \<and> sch_name (ws_sched st) = n \<and>
     k_get_sched c ns n (ws_world st) = Inr (ws_sched st) \<and> \<not> sst_sleeping (sch_status (ws_sched st)) \<and>
     managed_list st = map e_record es \<and> entries_kept fc c w0 ns es \<and>
     down_only c w0 (set es) (ws_world st) \<and> marked es st"

lemma unmarked_new:
  assumes "entries_kept fc c w0 ns es" "marked es st"
    and "ko_gvk x = h_gvk h" "workload_key (h_kind h) (ko_name x) \<notin> ws_marked st"
  shows "ko_key x \<notin> set (map e_key es)"
proof
  assume "ko_key x \<in> set (map e_key es)"
  then obtain e where e: "e \<in> set es" "e_key e = ko_key x" by auto
  with assms(1,3) have "h_kind (fst e) = h_kind h" "ko_name (e_before e) = ko_name x"
    by (auto simp: entries_kept_def list_all_iff entry_kept_def ko_key_def)
  with assms(2,4) e(1) show False by (force simp: marked_def)
qed

lemma append_managed_simps [simp]:
  "sch_name (append_managed m sch) = sch_name sch"
  "sst_sleeping (sch_status (append_managed m sch)) = sst_sleeping (sch_status sch)"
  by (simp_all add: append_managed_def)

lemma sleep_item_tracked:
  assumes laws: "api_store c" "api_status c" "api_sched c" "status_writes_succeed c"
    and h: "h \<in> set (handlers fc)"
    and x: "ko_gvk x = h_gvk h" "om_namespace (ko_meta x) = ns"
    and orig: "ko_key x \<notin> set (map e_key es1) \<Longrightarrow>
      \<exists>x0. read_key c w0 (ko_key x) = Inr x0 \<and> same_state x x0 \<and> well_formed x0"
    and pre: "tracked fc c w0 ns n (es1 @ es2) s"
    and run: "sleep_item c (h_kind h) (h_sleep h) x s = (r, s')"
  shows "\<exists>es2. tracked fc c w0 ns n (es1 @ es2) s'"
  using run
proof (cases rule: sleep_item_cases)
  case skipped
  with pre show ?thesis by blast
next
  case (refused x' m e w)
  have "tracked fc c w0 ns n (es1 @ es2) s'"
    using pre refused(5) api_schedD(4) [OF laws(3) refused(3)]
      down_only_same [OF _ read_key_failed [OF laws(1) refused(3)], of w0 "set (es1 @ es2)"]
    by (simp add: tracked_def marked_def)
  then show ?thesis by blast
next
  case (unrecorded x' m e w w')
  have "k_get_sched c ns n w = Inr (ws_sched s)"
    using pre api_schedD(4) [OF laws(3) unrecorded(3)] by (simp add: tracked_def)
  then have "k_get_sched c (sch_namespace (append_managed m (ws_sched s))) (sch_name (append_managed m (ws_sched s))) w =
      Inr (ws_sched s)" using pre by (simp add: tracked_def)
  from status_written [OF laws(4) unrecorded(4) this] show ?thesis by blast
next
  case (slept x' m w w' t)
  let ?es = "es1 @ es2" and ?e = "(h, x, x', m)"
  have t: "t = stored (append_managed m (ws_sched s))" by (rule api_statusD [OF laws(2) slept(4)])
  have fresh: "ko_key x \<notin> set (map e_key ?es)"
    using pre slept(2) x(1) by (intro unmarked_new) (auto simp: tracked_def)
  then obtain x0 where x0: "read_key c w0 (ko_key x) = Inr x0" "same_state x x0" "well_formed x0"
    using orig by auto
  have e: "entry_kept fc c w0 ns ?e"
    using h slept(1) x x0 same_state_well_formed [OF x0(2,3)] by (auto simp: entry_kept_def)
  have key: "ko_key x' = ko_key x" using handler_facts(6) [OF handler_contract [OF h] slept(1)] .
  have "down_only c w0 (set (?es @ [?e])) (ws_world s')"
  proof (rule down_only_write [where key = "ko_key x" and y = x'])
    show "down_only c w0 (set ?es) (ws_world s)" using pre by (simp add: tracked_def)
    show "read_key c (ws_world s') k = (if k = ko_key x then Inr x' else read_key c (ws_world s) k)" for k
      using slept(6) read_key_status [OF laws(1) slept(4)] read_key_updated [OF laws(1) slept(3)] key by simp
  qed auto
  moreover have "marked (?es @ [?e]) s'" using pre slept(6) by (auto simp: tracked_def marked_def)
  moreover have "k_get_sched c ns n w' = Inr t"
    using api_schedD(2) [OF laws(3) slept(4)] pre by (simp add: tracked_def)
  moreover have "entries_kept fc c w0 ns (?es @ [?e])"
    using pre e fresh by (simp add: tracked_def entries_kept_def)
  ultimately have "tracked fc c w0 ns n (?es @ [?e]) s'"
    using pre slept(6) t by (simp add: tracked_def)
  then show ?thesis by (metis append.assoc)
qed

lemma sleep_phase_tracked:
  assumes laws: "api_store c" "api_status c" "api_sched c" "status_writes_succeed c" "api_typed c" "api_list c"
    and wf: "\<And>k x. read_key c w0 k = Inr x \<Longrightarrow> well_formed x"
    and h: "h \<in> set (handlers fc)"
    and pre: "tracked fc c w0 ns n es1 s" and run: "sleep_phase c h s = (r, s')"
  shows "\<exists>es. tracked fc c w0 ns n es s'"
proof (cases "should_manage_type (ws_sched s) (h_kind h)")
  case False
  with run pre show ?thesis by (auto simp: sleep_phase_def)
next
  case True
  have ns: "sch_namespace (ws_sched s) = ns" using pre by (simp add: tracked_def)
  define q where "q = k_list c (h_gvk h) ns (wsel_labels (ss_selector (sch_spec (ws_sched s)))) (ws_world s)"
  show ?thesis
  proof (cases q)
    case (Inl e)
    with True run pre ns show ?thesis by (auto simp: sleep_phase_def q_def split: if_splits)
  next
    case (Inr xs)
    have x: "ko_gvk x = h_gvk h" "om_namespace (ko_meta x) = ns"
      "ko_key x \<notin> set (map e_key es1) \<Longrightarrow>
         \<exists>x0. read_key c w0 (ko_key x) = Inr x0 \<and> same_state x x0 \<and> well_formed x0" if "x \<in> set xs" for x
    proof -
      from that Inr api_typed_list [OF laws(5)] show t: "ko_gvk x = h_gvk h" "om_namespace (ko_meta x) = ns"
        by (auto simp: q_def)
      from that Inr api_listD(2) [OF laws(6)] have "k_get c (h_gvk h) ns (ko_name x) (ws_world s) = Inr x"
        by (auto simp: q_def)
      then have rd: "read_key c (ws_world s) (ko_key x) = Inr x"
        using t by (simp add: read_key_def ko_key_def)
      assume "ko_key x \<notin> set (map e_key es1)"
      moreover have "down_only c w0 (set es1) (ws_world s)" using pre by (simp add: tracked_def)
      from down_onlyD [OF this, of "ko_key x"]
      have "awake_at c w0 (ws_world s) (ko_key x) \<or> ko_key x \<in> set (map e_key es1)"
        unfolding set_map image_iff by (metis (no_types))
      ultimately have "awake_at c w0 (ws_world s) (ko_key x)" by simp
      then show "\<exists>x0. read_key c w0 (ko_key x) = Inr x0 \<and> same_state x x0 \<and> well_formed x0"
        using rd wf [of "ko_key x"] unfolding awake_at_def by (metis same_state_refl sum.inject(2))
    qed
    from Inr True run ns have items: "run_steps (map (sleep_item c (h_kind h) (h_sleep h)) xs) s = (r, s')"
      by (simp add: sleep_phase_def q_def)
    have start: "\<exists>es2. tracked fc c w0 ns n (es1 @ es2) s" by (rule exI [of _ "[]"]) (simp add: pre)
    have "\<exists>es2. tracked fc c w0 ns n (es1 @ es2) s'"
    proof (rule run_steps_invariant [where P = "\<lambda>t. \<exists>es2. tracked fc c w0 ns n (es1 @ es2) t", OF _ start items])
      fix f t r t'
      assume "f \<in> set (map (sleep_item c (h_kind h) (h_sleep h)) xs)"
        and t: "\<exists>es2. tracked fc c w0 ns n (es1 @ es2) t" "f t = (r, t')"
      then obtain y es2 where y: "y \<in> set xs" "f = sleep_item c (h_kind h) (h_sleep h) y"
          "tracked fc c w0 ns n (es1 @ es2) t" by auto
      have "sleep_item c (h_kind h) (h_sleep h) y t = (r, t')" using t(2) y(2) by simp
      from sleep_item_tracked [OF laws(1-4) h x(1,2) [OF y(1)] x(3) [OF y(1)] y(3) this]
      show "\<exists>es2. tracked fc c w0 ns n (es1 @ es2) t'" .
    qed
    then show ?thesis by blast
  qed
qed

lemma sleep_workloads_tracked:
  assumes laws: "api_store c" "api_status c" "api_sched c" "status_writes_succeed c" "api_typed c" "api_list c"
    and wf: "\<And>k x. read_key c w0 k = Inr x \<Longrightarrow> well_formed x"
    and sch: "k_get_sched c ns n w = Inr sch" "\<not> sst_sleeping (sch_status sch)"
    and es: "sst_managed (sch_status sch) = map e_record es" "entries_kept fc c w0 ns es"
      "down_only c w0 (set es) w"
    and run: "sleep_workloads fc c sch w = (r, st)"
  shows "\<exists>es. tracked fc c w0 ns n es st"
proof -
  let ?s = "\<lparr>ws_world = w, ws_sched = sch, ws_marked = managed_keys sch\<rparr>"
  have id: "sch_namespace sch = ns" "sch_name sch = n" using api_schedD(1) [OF laws(3) sch(1)] by simp_all
  have "managed_keys sch = (\<lambda>e. workload_key (h_kind (fst e)) (ko_name (e_before e))) ` set es"
  proof -
    have "mw_kind (e_record e) = h_kind (fst e) \<and> mw_name (e_record e) = ko_name (e_before e)" if e: "e \<in> set es" for e
    proof -
      have "fst e \<in> set (handlers fc)" "h_sleep (fst e) (e_before e) = Some (e_after e, e_record e)"
        using es(2) e by (simp_all add: entries_kept_def list_all_iff entry_kept_def)
      then show ?thesis using handler_facts(2) [OF handler_contract] by blast
    qed
    then show ?thesis unfolding managed_keys_def es(1) set_map image_image by (intro image_cong) simp_all
  qed
  then have start: "\<exists>es. tracked fc c w0 ns n es ?s"
    using id sch es by (intro exI [of _ es]) (simp add: tracked_def marked_def)
  show ?thesis
  proof (rule run_steps_invariant [where P = "\<lambda>t. \<exists>es. tracked fc c w0 ns n es t", OF _ start])
    show "run_steps (map (sleep_phase c) (handlers fc)) ?s = (r, st)"
      using run by (simp add: sleep_workloads_def)
    show "\<exists>es. tracked fc c w0 ns n es t'"
      if "f \<in> set (map (sleep_phase c) (handlers fc))" "\<exists>es. tracked fc c w0 ns n es t" "f t = (r', t')" for f t r' t'
      using that sleep_phase_tracked [OF laws wf] by auto
  qed
qed

section \<open>A life\<close>

definition wants_sleep ::
  "(string \<Rightarrow> location option) \<Rightarrow> 'w kube \<Rightarrow> instant \<Rightarrow> string \<Rightarrow> string \<Rightarrow> 'w \<Rightarrow> bool" where
  "wants_sleep load c now ns n w =
     (case k_get_sched c ns n w of
        Inl e \<Rightarrow> False
      | Inr s \<Rightarrow> \<not> ss_suspend (sch_spec s) \<and> get_windows (sch_spec s) \<noteq> [] \<and>
               should_be_sleeping_at load (sch_spec s) now)"

definition flag_set :: "'w kube \<Rightarrow> string \<Rightarrow> string \<Rightarrow> 'w \<Rightarrow> bool" where
  "flag_set c ns n w = (case k_get_sched c ns n w of Inl e \<Rightarrow> False | Inr s \<Rightarrow> sst_sleeping (sch_status s))"

text \<open>
  \<open>falling\<close> says that the last attempt to sleep failed and was not repeated with success yet;
  while that is so, the window stays open. Between reconciles the specification may be edited.
\<close>

inductive sched_life ::
  "float_conv \<Rightarrow> (string \<Rightarrow> location option) \<Rightarrow> (int set \<Rightarrow> int list) \<Rightarrow> set_condition \<Rightarrow> duration \<Rightarrow>
   'w kube \<Rightarrow> string \<Rightarrow> string \<Rightarrow> 'w \<Rightarrow> bool \<Rightarrow> 'w \<Rightarrow> bool"
  for fc load pick set_cond dflt c ns n w0 where
  sched_start: "sched_life fc load pick set_cond dflt c ns n w0 False w0"
    if "k_get_sched c ns n w0 = Inr s" "\<not> sst_sleeping (sch_status s)" "sst_managed (sch_status s) = []"
| sched_run: "sched_life fc load pick set_cond dflt c ns n w0
      (err \<noteq> None \<and> \<not> flag_set c ns n w \<and> wants_sleep load c now ns n w) w'"
    if "sched_life fc load pick set_cond dflt c ns n w0 falling w"
      "falling \<longrightarrow> wants_sleep load c now ns n w"
      "reconcile fc load pick set_cond dflt c now ts ns n w = (Done d err, fx, w')"
| sched_edit: "sched_life fc load pick set_cond dflt c ns n w0 falling w'"
    if "sched_life fc load pick set_cond dflt c ns n w0 falling w"
      "k_get_sched c ns n w = Inr s" "k_get_sched c ns n w' = Inr (s\<lparr>sch_spec := spec, sch_generation := g\<rparr>)"
      "\<And>k. read_key c w' k = read_key c w k"

inductive_cases sched_lifeE: "sched_life fc load pick set_cond dflt c ns n w0 falling w"

definition life_ok ::
  "float_conv \<Rightarrow> 'w kube \<Rightarrow> 'w \<Rightarrow> string \<Rightarrow> string \<Rightarrow> bool \<Rightarrow> 'w \<Rightarrow> bool" where
  "life_ok fc c w0 ns n falling w \<longleftrightarrow>
     (\<exists>s es. k_get_sched c ns n w = Inr s \<and> sst_managed (sch_status s) = map e_record es \<and>
        entries_kept fc c w0 ns es \<and> down_only c w0 (set es) w \<and>
        (\<not> sst_sleeping (sch_status s) \<and> \<not> falling \<longrightarrow> down_only c w0 {} w))"

lemma wake_keeps_schedule:
  assumes "api_sched c" "wake_workloads fc c sch w = (r, w')"
  shows "k_get_sched c ns n w' = k_get_sched c ns n w"
proof -
  have item: "k_get_sched c ns n v' = k_get_sched c ns n v" if "wake_switch c sch hs m v = (q, v')" for hs m v q v'
    using that api_schedD(4) [OF assms(1)]
    by (auto simp: wake_switch_def wake_item_def split: option.splits sum.splits)
  have pass: "k_get_sched c ns n v' = k_get_sched c ns n v"
    if "run_steps (map (wake_switch c sch hs) ms) v = (q, v')" for hs ms v q v'
  proof (rule run_steps_invariant [where P = "\<lambda>u. k_get_sched c ns n u = k_get_sched c ns n v", OF _ refl that])
    fix f u q' u'
    assume "f \<in> set (map (wake_switch c sch hs) ms)" "k_get_sched c ns n u = k_get_sched c ns n v" "f u = (q', u')"
    then show "k_get_sched c ns n u' = k_get_sched c ns n v" using item by auto
  qed
  show ?thesis
    using assms(2) pass unfolding wake_workloads_def Let_def by (auto split: prod.splits option.splits)
qed

lemma verify_keeps_schedule:
  assumes "api_sched c" "verify_and_correct_workloads fc c sch w = (r, w')"
  shows "k_get_sched c ns n w' = k_get_sched c ns n w"
  using assms(2) wake_keeps_schedule [OF assms(1)] unfolding verify_and_correct_workloads_def
  by (auto split: if_splits sum.splits bool.splits prod.splits option.splits)

text \<open>The write of the status at the end of a reconcile.\<close>

lemma status_life:
  assumes laws: "api_store c" "api_status c" "api_sched c" "status_writes_succeed c"
    and t: "sch_namespace t = ns" "sch_name t = n" "sst_managed (sch_status t) = map e_record es"
    and there: "k_get_sched c ns n w = Inr s"
    and es: "entries_kept fc c w0 ns es" "down_only c w0 (set es) w"
      "\<not> sst_sleeping (sch_status t) \<and> \<not> falling \<Longrightarrow> down_only c w0 {} w"
    and run: "k_update_status c t w = (r, w')"
  shows "life_ok fc c w0 ns n falling w' \<and> r = Inr (stored t)"
proof -
  obtain q where q: "r = Inr q"
    by (rule status_written [OF laws(4) run]) (simp_all add: t there)
  then have "q = stored t" using run api_statusD [OF laws(2)] by blast
  moreover have "k_get_sched c ns n w' = Inr q" using api_schedD(2) [OF laws(3)] run q t by blast
  moreover have "down_only c w0 D w \<Longrightarrow> down_only c w0 D w'" for D
    by (erule down_only_same) (rule read_key_status [OF laws(1) run])
  ultimately show ?thesis
    using t es q unfolding life_ok_def by (intro conjI exI [of _ q] exI [of _ es]) auto
qed

lemma set_status_simps [simp]:
  "sch_namespace (set_schedule_condition f a b d t) = sch_namespace t"
  "sch_name (set_schedule_condition f a b d t) = sch_name t"
  "sst_managed (sch_status (set_schedule_condition f a b d t)) = sst_managed (sch_status t)"
  "sst_sleeping (sch_status (set_schedule_condition f a b d t)) = sst_sleeping (sch_status t)"
  "sch_namespace (set_sleeping v ts t) = sch_namespace t" "sch_name (set_sleeping v ts t) = sch_name t"
  "sst_managed (sch_status (set_sleeping v ts t)) = sst_managed (sch_status t)"
  "sst_sleeping (sch_status (set_sleeping v ts t)) = v"
  "sch_namespace (set_days_display x t) = sch_namespace t" "sch_name (set_days_display x t) = sch_name t"
  "sst_managed (sch_status (set_days_display x t)) = sst_managed (sch_status t)"
  "sst_sleeping (sch_status (set_days_display x t)) = sst_sleeping (sch_status t)"
  "sch_namespace (clear_managed t) = sch_namespace t" "sch_name (clear_managed t) = sch_name t"
  "sst_managed (sch_status (clear_managed t)) = []"
  "sst_sleeping (sch_status (clear_managed t)) = sst_sleeping (sch_status t)"
  by (simp_all add: set_schedule_condition_def set_sleeping_def set_days_display_def clear_managed_def)

text \<open>What the middle part of a reconcile leaves to be written.\<close>

definition ready ::
  "float_conv \<Rightarrow> 'w kube \<Rightarrow> 'w \<Rightarrow> string \<Rightarrow> string \<Rightarrow> bool \<Rightarrow> sleep_schedule \<Rightarrow> 'w \<Rightarrow> bool" where
  "ready fc c w0 ns n awake t w \<longleftrightarrow>
     sch_namespace t = ns \<and> sch_name t = n \<and> (\<exists>s. k_get_sched c ns n w = Inr s) \<and>
     (\<exists>es. sst_managed (sch_status t) = map e_record es \<and> entries_kept fc c w0 ns es \<and>
       down_only c w0 (set es) w \<and> (awake \<longrightarrow> down_only c w0 {} w))"

lemma ready_status:
  assumes laws: "api_store c" "api_status c" "api_sched c" "status_writes_succeed c"
    and "ready fc c w0 ns n awake t w" "\<not> sst_sleeping (sch_status t) \<and> \<not> falling \<Longrightarrow> awake"
    and "k_update_status c t w = (r, w')"
  shows "life_ok fc c w0 ns n falling w' \<and> r = Inr (stored t)"
proof -
  from assms(5) obtain es s where "sch_namespace t = ns" "sch_name t = n" "k_get_sched c ns n w = Inr s" "sst_managed (sch_status t) = map e_record es"
      "entries_kept fc c w0 ns es" "down_only c w0 (set es) w" "awake \<longrightarrow> down_only c w0 {} w"
    by (auto simp: ready_def)
  then show ?thesis using assms(6) by (intro status_life [OF laws _ _ _ _ _ _ _ assms(7)]) auto
qed

lemma ready_upd [simp]:
  "ready fc c w0 ns n a (set_schedule_condition f b d m t) w = ready fc c w0 ns n a t w"
  "ready fc c w0 ns n a (set_sleeping v ts t) w = ready fc c w0 ns n a t w"
  "ready fc c w0 ns n a (set_days_display x t) w = ready fc c w0 ns n a t w"
  by (simp_all add: ready_def)

text \<open>An awake schedule outside its windows: the verification, and the end of it.\<close>

lemma steady_life:
  assumes laws: "api_store c" "api_status c" "api_sched c" "status_writes_succeed c"
    and sch: "k_get_sched c ns n w = Inr sch" and es: "sst_managed (sch_status sch) = map e_record es"
      "entries_kept fc c w0 ns es" "down_only c w0 (set es) w"
    and down: "down_only c w0 {} w" and steady: "\<not> should" "\<not> sst_sleeping (sch_status sch)"
    and run: "apply_transition fc c now should sch w = (res, fx, w1)"
  shows "case res of
      Inl ae \<Rightarrow> life_ok fc c w0 ns n False w1
    | Inr t \<Rightarrow> ready fc c w0 ns n True t w1 \<and> \<not> sst_sleeping (sch_status t)"
proof -
  have id: "sch_namespace sch = ns" "sch_name sch = n" using api_schedD(1) [OF laws(3) sch] by simp_all
  note es' = es(2) [folded id(1)]
  have keep: "life_ok fc c w0 ns n False v" "ready fc c w0 ns n True sch v"
    if "down_only c w0 {} v" "k_get_sched c ns n v = Inr sch" for v
    using that id es down_only_mono [of c w0 "{}" v "set es"] unfolding life_ok_def ready_def by auto
  show ?thesis
  proof (cases "should_verify_workloads sch now")
    case True
    obtain r w' where s: "verify_and_correct_workloads fc c sch w = (r, w')" by force
    note k = keep [OF verify_kept [OF laws(1) es' es(1) down s]]
    then show ?thesis
      using run steady s True sch verify_keeps_schedule [OF laws(3) s, of ns n]
      by (auto simp: apply_transition_def split: sum.splits)
  next
    case False
    show ?thesis
    proof (cases "sst_managed (sch_status sch) = []")
      case True
      then show ?thesis using run steady False keep [OF down sch] by (auto simp: apply_transition_def)
    next
      case ne: False
      obtain r w' where s: "k_update_status c (clear_managed sch) w = (r, w')" by force
      have "ready fc c w0 ns n True (clear_managed sch) w"
        using id down sch unfolding ready_def by (auto simp: entries_kept_def intro: exI [of _ "[]"])
      from ready_status [OF laws(1-4) this _ s] have r: "r = Inr (stored (clear_managed sch))" by blast
      have "down_only c w0 {} w'" by (rule down_only_same [OF down read_key_status [OF laws(1) s]])
      then have "ready fc c w0 ns n True (stored (clear_managed sch)) w'"
        using id api_schedD(2) [OF laws(3), of "clear_managed sch" w] s r unfolding ready_def
        by (auto simp: entries_kept_def intro: exI [of _ "[]"])
      then show ?thesis using run steady False ne s r by (auto simp: apply_transition_def)
    qed
  qed
qed

lemma apply_transition_life:
  assumes laws: "api_store c" "api_status c" "api_sched c" "status_writes_succeed c" "api_typed c" "api_list c"
    and wf: "\<And>k x. read_key c w0 k = Inr x \<Longrightarrow> well_formed x"
    and sch: "k_get_sched c ns n w = Inr sch" and es: "sst_managed (sch_status sch) = map e_record es"
      "entries_kept fc c w0 ns es" "down_only c w0 (set es) w"
    and awake: "\<not> sst_sleeping (sch_status sch) \<and> \<not> should \<Longrightarrow> down_only c w0 {} w"
    and run: "apply_transition fc c now should sch w = (res, fx, w1)"
  shows "case res of
      Inl ae \<Rightarrow> life_ok fc c w0 ns n (should \<and> \<not> sst_sleeping (sch_status sch)) w1
    | Inr t \<Rightarrow> ready fc c w0 ns n (\<not> should) t w1 \<and>
        (should = sst_sleeping (sch_status sch) \<longrightarrow> sst_sleeping (sch_status t) = should)"
proof -
  have id: "sch_namespace sch = ns" "sch_name sch = n" using api_schedD(1) [OF laws(3) sch] by simp_all
  note es' = es(2) [folded id(1)]
  consider (sleep) "should" "\<not> sst_sleeping (sch_status sch)" | (wake) "\<not> should" "sst_sleeping (sch_status sch)"
    | (steady) "\<not> should" "\<not> sst_sleeping (sch_status sch)" | (kept) "should" "sst_sleeping (sch_status sch)" by blast
  then show ?thesis
  proof cases
    case sleep
    obtain r st where s: "sleep_workloads fc c sch w = (r, st)" by force
    obtain es1 where t: "tracked fc c w0 ns n es1 st"
      using sleep_workloads_tracked [OF laws _ sch sleep(2) es s] wf by blast
    then have "life_ok fc c w0 ns n True (ws_world st)" "ready fc c w0 ns n False (ws_sched st) (ws_world st)"
      unfolding life_ok_def ready_def tracked_def by auto
    then show ?thesis using run sleep s by (auto simp: apply_transition_def split: option.splits)
  next
    case wake
    obtain r w' where s: "wake_workloads fc c sch w = (r, w')" by force
    note d = wake_workloads_kept [OF laws(1) es' es(1) subset_refl es(3) s]
    have "life_ok fc c w0 ns n False w'" if "r \<noteq> None"
      using d that es sch wake(2) wake_keeps_schedule [OF laws(3) s, of ns n] unfolding life_ok_def
      by (intro exI [of _ sch] exI [of _ es]) simp
    moreover have "ready fc c w0 ns n True sch w'" if "r = None"
      using d that id es sch wake_keeps_schedule [OF laws(3) s, of ns n] down_only_mono [of c w0 "{}" w' "set es"] unfolding ready_def by auto
    ultimately show ?thesis using run wake s by (auto simp: apply_transition_def split: option.splits)
  next
    case steady
    have "down_only c w0 {} w" using awake steady by simp
    from steady_life [OF laws(1-4) sch es this steady run] show ?thesis using steady by (simp split: sum.splits)
  next
    case kept
    have "ready fc c w0 ns n False sch w" using id es sch unfolding ready_def by auto
    then show ?thesis using run kept by (auto simp: apply_transition_def)
  qed
qed

lemma reconcile_active_life:
  assumes laws: "api_store c" "api_status c" "api_sched c" "status_writes_succeed c" "api_typed c" "api_list c"
    and wf: "\<And>k x. read_key c w0 k = Inr x \<Longrightarrow> well_formed x"
    and sch: "k_get_sched c ns n w = Inr sch" and es: "sst_managed (sch_status sch) = map e_record es"
      "entries_kept fc c w0 ns es" "down_only c w0 (set es) w"
    and should: "should = should_be_sleeping_at load (sch_spec sch) now"
    and awake: "\<not> sst_sleeping (sch_status sch) \<and> \<not> should \<Longrightarrow> down_only c w0 {} w"
    and run: "reconcile_active fc load set_cond dflt c now ts days sch w = (Done d err, fx, w')"
  shows "life_ok fc c w0 ns n (err \<noteq> None \<and> \<not> sst_sleeping (sch_status sch) \<and> should) w'"
proof -
  obtain res fx1 w1 where tr: "apply_transition fc c now should sch w = (res, fx1, w1)"
    by (cases "apply_transition fc c now should sch w")
  note life = apply_transition_life [OF laws _ sch es awake tr]
  show ?thesis
  proof (cases res)
    case (Inl ae)
    then have "err \<noteq> None" "w' = w1"
      using run tr by (auto simp: reconcile_active_def Let_def should split: prod.splits)
    then show ?thesis using life wf Inl by (simp add: conj_commute)
  next
    case (Inr t)
    define t4 where "t4 = (let t2 = (if should then set_schedule_condition set_cond ''True'' ''Sleeping'' ''Workloads are sleeping'' t
            else set_schedule_condition set_cond ''True'' ''Active'' ''Schedule is active'' t);
          t3 = (if should \<noteq> sst_sleeping (sch_status sch) \<or> sst_days_display (sch_status sch) \<noteq> days
                then set_days_display days t2 else t2)
      in if should \<noteq> sst_sleeping (sch_status sch) then set_sleeping should ts t3 else t3)"
    obtain r w2 where u: "k_update_status c t4 w1 = (r, w2)" by force
    have "ready fc c w0 ns n (\<not> should) t w1" "should = sst_sleeping (sch_status sch) \<Longrightarrow> sst_sleeping (sch_status t) = should"
      using life wf Inr by auto
    then have t4: "ready fc c w0 ns n (\<not> should) t4 w1" "sst_sleeping (sch_status t4) = should"
      unfolding t4_def Let_def by auto
    from ready_status [OF laws(1-4) t4(1) _ u, of False] t4(2)
    have st: "life_ok fc c w0 ns n False w2" "r = Inr (stored t4)" by auto
    have "reconcile_active fc load set_cond dflt c now ts days sch w =
        (case r of
           Inl e \<Rightarrow> (Done 0 (Some e), fx1 @ [SetGauge (sch_namespace t) (sch_name t) (length (sst_managed (sch_status t)))], w2)
         | Inr q \<Rightarrow> (Done (compute_requeue_interval load dflt q now) None,
             fx1 @ [SetGauge (sch_namespace t) (sch_name t) (length (sst_managed (sch_status t)))], w2))"
      using u tr unfolding reconcile_active_def t4_def Let_def should [symmetric] Inr
      by (simp split: sum.split)
    then have "err = None" "w' = w2" using run st(2) by auto
    then show ?thesis using st(1) by simp
  qed
qed

lemma reconcile_suspended_life:
  assumes laws: "api_store c" "api_status c" "api_sched c" "status_writes_succeed c"
    and sch: "k_get_sched c ns n w = Inr sch" and es: "sst_managed (sch_status sch) = map e_record es"
      "entries_kept fc c w0 ns es" "down_only c w0 (set es) w"
    and awake: "\<not> sst_sleeping (sch_status sch) \<Longrightarrow> down_only c w0 {} w"
    and run: "reconcile_suspended fc set_cond c ts sch w = (res, fx, w')"
  shows "life_ok fc c w0 ns n False w'"
proof -
  have id: "sch_namespace sch = ns" "sch_name sch = n" using api_schedD(1) [OF laws(3) sch] by simp_all
  have written: "life_ok fc c w0 ns n False v'"
    if "ready fc c w0 ns n True t v" "k_update_status c (set_schedule_condition f b d m t) v = (r, v')" for t v r v' f b d m
    using ready_status [OF laws _ _ that(2), of fc w0 ns n True False] that(1) by simp
  show ?thesis
  proof (cases "sst_sleeping (sch_status sch)")
    case True
    obtain r w1 where s: "wake_workloads fc c sch w = (r, w1)" by force
    note d = wake_workloads_kept [OF laws(1) es(2) [folded id(1)] es(1) subset_refl es(3) s]
    show ?thesis
    proof (cases r)
      case None
      have "ready fc c w0 ns n True (set_sleeping False ts sch) w1"
        using d None id es sch wake_keeps_schedule [OF laws(3) s, of ns n] down_only_mono [of c w0 "{}" w1 "set es"]
        unfolding ready_upd ready_def by auto
      from written [OF this] show ?thesis
        using run True s None by (auto simp: reconcile_suspended_def split: prod.splits sum.splits)
    next
      case (Some e)
      then have "life_ok fc c w0 ns n False w1"
        using d es sch True wake_keeps_schedule [OF laws(3) s, of ns n] unfolding life_ok_def
        by (intro exI [of _ sch] exI [of _ es]) simp
      then show ?thesis using run True s Some by (auto simp: reconcile_suspended_def)
    qed
  next
    case False
    then have "ready fc c w0 ns n True sch w"
      using awake id es sch unfolding ready_def by auto
    from written [OF this] show ?thesis
      using run False by (auto simp: reconcile_suspended_def split: prod.splits sum.splits)
  qed
qed

lemma reconcile_life:
  assumes laws: "api_store c" "api_status c" "api_sched c" "status_writes_succeed c" "api_typed c" "api_list c"
    and wf: "\<And>k x. read_key c w0 k = Inr x \<Longrightarrow> well_formed x"
    and pre: "life_ok fc c w0 ns n falling w" and falling: "falling \<longrightarrow> wants_sleep load c now ns n w"
    and run: "reconcile fc load pick set_cond dflt c now ts ns n w = (Done d err, fx, w')"
  shows "life_ok fc c w0 ns n (err \<noteq> None \<and> \<not> flag_set c ns n w \<and> wants_sleep load c now ns n w) w'"
proof -
  from pre obtain sch es where sch: "k_get_sched c ns n w = Inr sch" and es: "sst_managed (sch_status sch) = map e_record es"
      "entries_kept fc c w0 ns es" "down_only c w0 (set es) w"
    and aw: "\<not> sst_sleeping (sch_status sch) \<and> \<not> falling \<Longrightarrow> down_only c w0 {} w"
    by (auto simp: life_ok_def)
  have id: "sch_namespace sch = ns" "sch_name sch = n" using api_schedD(1) [OF laws(3) sch] by simp_all
  have flag: "flag_set c ns n w = sst_sleeping (sch_status sch)" by (simp add: flag_set_def sch)
  show ?thesis
  proof (cases "ss_suspend (sch_spec sch)")
    case True
    then have no: "\<not> wants_sleep load c now ns n w" by (simp add: wants_sleep_def sch)
    then have "life_ok fc c w0 ns n False w'"
      using run True falling aw by (intro reconcile_suspended_life [OF laws(1-4) sch es]) (auto simp: reconcile_def sch)
    then show ?thesis using no by simp
  next
    case active: False
    show ?thesis
    proof (cases "get_windows (sch_spec sch) = []")
      case True
      then have no: "\<not> wants_sleep load c now ns n w" by (simp add: wants_sleep_def sch)
      have "ready fc c w0 ns n (\<not> sst_sleeping (sch_status sch)) sch w"
        using id es sch aw falling no unfolding ready_def by auto
      then have "life_ok fc c w0 ns n False v" if
        "k_update_status c (set_schedule_condition set_cond a b m sch) w = (r, v)" for a b m r v
        using ready_status [OF laws(1-4) _ _ that, of fc w0 ns n "\<not> sst_sleeping (sch_status sch)" False] by simp
      then have "life_ok fc c w0 ns n False w'"
        using run active True by (auto simp: reconcile_def sch reconcile_invalid_def split: prod.splits sum.splits)
      then show ?thesis using no by simp
    next
      case False
      define should where "should = should_be_sleeping_at load (sch_spec sch) now"
      have wants: "wants_sleep load c now ns n w = should"
        using active False by (simp add: wants_sleep_def sch should_def)
      obtain days where "reconcile_active fc load set_cond dflt c now ts days sch w = (Done d err, fx, w')"
        using run active False by (auto simp: reconcile_def sch Let_def split: option.splits)
      from reconcile_active_life [OF laws _ sch es should_def _ this] wf aw falling wants
      have "life_ok fc c w0 ns n (err \<noteq> None \<and> \<not> sst_sleeping (sch_status sch) \<and> should) w'" by blast
      then show ?thesis by (simp add: flag wants)
    qed
  qed
qed

lemma life_invariant:
  assumes laws: "api_store c" "api_status c" "api_sched c" "status_writes_succeed c" "api_typed c" "api_list c"
    and wf: "\<And>k x. read_key c w0 k = Inr x \<Longrightarrow> well_formed x"
    and life: "sched_life fc load pick set_cond dflt c ns n w0 falling w"
  shows "life_ok fc c w0 ns n falling w"
  using life
proof (induction rule: sched_life.induct)
  case (sched_start s)
  then show ?case
    unfolding life_ok_def by (intro exI [of _ s] exI [of _ "[]"]) (simp add: entries_kept_def down_only_awake awake_at_def)
next
  case (sched_run falling w now ts d err fx w')
  show ?case
    by (rule reconcile_life [OF laws _ sched_run.IH sched_run.hyps(2,3)]) (rule wf)
next
  case (sched_edit falling w s w' g spec)
  from sched_edit.IH sched_edit.hyps(2) obtain es where es: "sst_managed (sch_status s) = map e_record es"
      "entries_kept fc c w0 ns es" "down_only c w0 (set es) w"
      "\<not> sst_sleeping (sch_status s) \<and> \<not> falling \<longrightarrow> down_only c w0 {} w"
    by (auto simp: life_ok_def)
  have "down_only c w0 D w \<Longrightarrow> down_only c w0 D w'" for D
    by (erule down_only_same) (rule sched_edit.hyps(4))
  then show ?case
    using es sched_edit.hyps(3) unfolding life_ok_def
    by (intro exI [of _ "s\<lparr>sch_spec := spec, sch_generation := g\<rparr>"] exI [of _ es]) simp
qed


section \<open>Two lives\<close>

lemma mem_status_writes: "status_writes_succeed (mem_kube (\<lambda>_. False))"
  by (auto simp: status_writes_succeed_def mem_update_status_def mem_get_sched_def Let_def list_ex_iff
      find_Some_iff split: option.splits)

lemma dev_cluster_well_formed: "mem_get g ns n dev_cluster = Inr x \<Longrightarrow> well_formed x"
  by (auto simp: mem_get_def dev_cluster_def web_def nightly_def well_formed_def split: if_splits)

abbreviation dev_life :: "bool \<Rightarrow> memory \<Rightarrow> bool" where
  "dev_life \<equiv> sched_life (\<lambda>_ _. 0) (\<lambda>_. None) sorted_list_of_set (\<lambda>cs c. c # cs) 0 (mem_kube (\<lambda>_. False))
     ''dev'' ''s'' dev_cluster"

text \<open>
  To sleep at 05:55 and awake at 06:30; in between the user shortens the list of kinds to
  deployments.
\<close>

definition only_deployments :: "sleep_spec \<Rightarrow> sleep_spec" where
  "only_deployments sp = sp\<lparr>ss_selector := (ss_selector sp)\<lparr>wsel_types := [''Deployment'']\<rparr>\<rparr>"

definition edit_dev :: "memory \<Rightarrow> memory" where
  "edit_dev w = w\<lparr>mem_schedules := map (\<lambda>s. s\<lparr>sch_spec := only_deployments (sch_spec s), sch_generation := 2\<rparr>)
     (mem_schedules w)\<rparr>"

lemma dev_life_run:
  assumes "dev_life False w" "fst (run_dev t w) = Done d None"
  shows "dev_life False (snd (snd (run_dev t w)))"
proof -
  obtain fx w' where r: "run_dev t w = (Done d None, fx, w')"
    using assms(2) by (cases "run_dev t w") auto
  show ?thesis
    using sched_run [OF assms(1) _ r [unfolded run_dev_def]] unfolding r by simp
qed

definition morning :: "memory" where
  "morning = snd (snd (run_dev at_0630 (edit_dev (snd (snd (run_dev at_0555 dev_cluster))))))"


text \<open>A cluster where the controller may not list Elasticsearch clusters, the last kind.\<close>

definition forbidden_kube :: "memory kube" where
  "forbidden_kube =
     \<lparr>k_get = mem_get,
      k_list = (\<lambda>g ns sel w. if g = eck_elasticsearch_gvk then Inl (ErrOther ''forbidden'') else mem_list g ns sel w),
      k_update = mem_update (\<lambda>_. False),
      k_get_sched = mem_get_sched, k_update_status = mem_update_status (\<lambda>_. False)\<rparr>"

definition run_forbidden :: "instant \<Rightarrow> memory \<Rightarrow> memory outcome" where
  "run_forbidden t =
     reconcile (\<lambda>_ _. 0) (\<lambda>_. None) sorted_list_of_set (\<lambda>cs c. c # cs) 0 forbidden_kube t t ''dev'' ''s''"

text \<open>Five minutes before the next window.\<close>

definition at_2155 :: instant where
  "at_2155 = 1781646900 * second"


end
