(* ===== verification/Sleep_Night.thy ===== *)
theory Sleep_Night
  imports Sleep_Life
begin

text \<open>
  What a sequence of reconciles does over a window: when the first one after a boundary comes, and
  that what it has put to sleep stays down until the window ends.
\<close>

section \<open>Boundaries\<close>

definition own_interval :: "duration \<Rightarrow> sleep_spec \<Rightarrow> duration" where
  "own_interval dflt sp =
     (case ss_interval sp of Some d \<Rightarrow> d | None \<Rightarrow> if 0 < dflt then dflt else idle_requeue_interval)"

text \<open>
  At \<open>b\<close> the state changes: it is the same from \<open>now\<close> on, and the other one for the minute
  after \<open>b\<close>. Windows begin and end at full minutes, so that no shorter change exists.
\<close>

definition boundary :: "(string \<Rightarrow> location option) \<Rightarrow> sleep_spec \<Rightarrow> instant \<Rightarrow> instant \<Rightarrow> bool" where
  "boundary load sp now b \<longleftrightarrow>
     (\<forall>u. now \<le> u \<and> u < b \<longrightarrow> should_be_sleeping_at load sp u = should_be_sleeping_at load sp now) \<and>
     (\<forall>u. b \<le> u \<and> u < b + minute \<longrightarrow> should_be_sleeping_at load sp u \<noteq> should_be_sleeping_at load sp now)"

lemma boundary_later:
  assumes "boundary load sp now b" "now \<le> t" "t < b"
  shows "boundary load sp t b" "should_be_sleeping_at load sp t = should_be_sleeping_at load sp now"
proof -
  have same: "should_be_sleeping_at load sp u = should_be_sleeping_at load sp now" if "now \<le> u" "u < b" for u
    using assms(1) that unfolding boundary_def by blast
  have other: "should_be_sleeping_at load sp u \<noteq> should_be_sleeping_at load sp now" if "b \<le> u" "u < b + minute" for u
    using assms(1) that unfolding boundary_def by blast
  show eq: "should_be_sleeping_at load sp t = should_be_sleeping_at load sp now"
    by (rule same [OF assms(2,3)])
  show "boundary load sp t b"
    unfolding boundary_def
  proof (intro conjI allI impI)
    show "should_be_sleeping_at load sp u = should_be_sleeping_at load sp t" if "t \<le> u \<and> u < b" for u
      using same [of u] eq that assms(2) by simp
    show "should_be_sleeping_at load sp u \<noteq> should_be_sleeping_at load sp t" if "b \<le> u \<and> u < b + minute" for u
      using other [of u] eq that by simp
  qed
qed

text \<open>A boundary within ten minutes is seen by one of the first ten probes.\<close>

lemma boundary_probe:
  assumes "boundary load sp now b" "now < b" "b \<le> now + 10 * minute"
  shows "\<exists>i. 1 \<le> i \<and> i \<le> 10 \<and> transition_at load sp now i"
proof -
  define x where "x = b - now + (minute - 1)"
  define i where "i = x div minute"
  have "i * minute = x - x mod minute" by (simp add: i_def minus_mod_eq_div_mult)
  moreover have "0 \<le> x mod minute" "x mod minute < minute" by simp_all
  ultimately have "i * minute \<le> b - now + (minute - 1)" "b - now \<le> i * minute" unfolding x_def by linarith+
  then have i: "b \<le> now + i * minute" "now + i * minute < b + minute" by simp_all
  then have "1 \<le> i" "i \<le> 10" using assms(2,3) by linarith+
  moreover have "transition_at load sp now i"
    using assms(1) i unfolding boundary_def transition_at_def by blast
  ultimately show ?thesis by blast
qed

lemma requeue_positive: "0 < own_interval dflt (sch_spec sch) \<Longrightarrow> 0 < compute_requeue_interval load dflt sch now"
  using requeue_interval_eq [of load dflt sch now] by (auto simp: own_interval_def split: if_splits)

lemma requeue_before_boundary:
  assumes "boundary load (sch_spec sch) now b" "now < b" "own_interval dflt (sch_spec sch) \<le> 10 * minute"
  shows "now + compute_requeue_interval load dflt sch now < b + 30 * second"
proof (cases "b \<le> now + 10 * minute")
  case True
  then have "compute_requeue_interval load dflt sch now = 30 * second"
    using requeue_interval_eq [of load dflt sch now] boundary_probe [OF assms(1,2)] by simp
  then show ?thesis using assms(2) by simp
next
  case False
  have "compute_requeue_interval load dflt sch now \<le> 10 * minute"
    using requeue_interval_eq [of load dflt sch now] assms(3) by (auto simp: own_interval_def split: if_splits)
  then show ?thesis using False by simp
qed

text \<open>What a successful reconcile of an active schedule stores and answers.\<close>

lemma reconcile_active_answer:
  assumes laws: "api_sched c" "api_status c" and get: "k_get_sched c ns n w = Inr sch"
    and spec: "\<not> ss_suspend (sch_spec sch)" "get_windows (sch_spec sch) \<noteq> []"
    and run: "reconcile fc load pick set_cond dflt c now ts ns n w = (Done d None, fx, w')"
  shows "\<exists>s. k_get_sched c ns n w' = Inr s \<and> sch_spec s = sch_spec sch \<and>
    sst_sleeping (sch_status s) = should_be_sleeping_at load (sch_spec sch) now \<and>
    d = compute_requeue_interval load dflt s now"
proof -
  have id: "sch_namespace sch = ns" "sch_name sch = n" using api_schedD(1) [OF laws(1) get] by simp_all
  then have pre: "flag_stored c sch w" using get by (simp add: flag_stored_def)
  obtain days where active: "reconcile_active fc load set_cond dflt c now ts days sch w = (Done d None, fx, w')"
    using run get spec by (auto simp: reconcile_def Let_def split: option.splits)
  let ?should = "should_be_sleeping_at load (sch_spec sch) now"
  obtain res fx1 w1 where t: "apply_transition fc c now ?should sch w = (res, fx1, w1)"
    by (cases "apply_transition fc c now ?should sch w")
  with active obtain sch1 where res: "res = Inr sch1"
    by (cases res) (auto simp: reconcile_active_def Let_def)
  with apply_transition_flag [OF laws pre t] have same: "same_schedule sch sch1" by simp
  from active t res obtain sch4 sch5 where u: "k_update_status c sch4 w1 = (Inr sch5, w')"
    and d: "d = compute_requeue_interval load dflt sch5 now"
    and sch4: "sch_namespace sch4 = sch_namespace sch1" "sch_name sch4 = sch_name sch1" "sch_spec sch4 = sch_spec sch1"
      "sst_sleeping (sch_status sch4) = ?should"
    using same
    by (auto simp: reconcile_active_def Let_def same_schedule_def set_sleeping_def set_days_display_def
        set_schedule_condition_def split: sum.splits prod.splits if_splits)
  have "sch5 = stored sch4" by (rule api_statusD [OF laws(2) u])
  with api_schedD(2) [OF laws(1) u] sch4 same id d show ?thesis by (auto simp: same_schedule_def)
qed

text \<open>
  A run of reconciles, each ending without error, the next one when the answer of the last one asks
  for it, or up to \<open>lag\<close> later.
\<close>

definition timed_run ::
  "(string \<Rightarrow> location option) \<Rightarrow> 'w kube \<Rightarrow> (instant \<Rightarrow> 'w \<Rightarrow> 'w outcome) \<Rightarrow> duration \<Rightarrow>
   (nat \<Rightarrow> instant) \<Rightarrow> (nat \<Rightarrow> 'w) \<Rightarrow> nat \<Rightarrow> bool" where
  "timed_run load c step lag t w m \<longleftrightarrow>
     (\<forall>k \<le> m. \<exists>d fx. step (t k) (w k) = (Done d None, fx, w (Suc k)) \<and>
        t k + d \<le> t (Suc k) \<and> t (Suc k) \<le> t k + d + lag)"

lemma timed_run_step:
  assumes laws: "api_sched c" "api_status c" and get: "k_get_sched c ns n (w 0) = Inr sch"
    and spec: "\<not> ss_suspend (sch_spec sch)" "get_windows (sch_spec sch) \<noteq> []"
    and run: "timed_run load c (\<lambda>now. reconcile fc load pick set_cond dflt c now (ts now) ns n) lag t w m"
    and k: "k \<le> m"
  shows "\<exists>s. k_get_sched c ns n (w (Suc k)) = Inr s \<and> sch_spec s = sch_spec sch \<and>
      sst_sleeping (sch_status s) = should_be_sleeping_at load (sch_spec sch) (t k) \<and>
      t k + compute_requeue_interval load dflt s (t k) \<le> t (Suc k) \<and>
      t (Suc k) \<le> t k + compute_requeue_interval load dflt s (t k) + lag"
proof -
  have answer: "\<exists>s. k_get_sched c ns n (w (Suc i)) = Inr s \<and> sch_spec s = sch_spec sch \<and>
      sst_sleeping (sch_status s) = should_be_sleeping_at load (sch_spec sch) (t i) \<and>
      t i + compute_requeue_interval load dflt s (t i) \<le> t (Suc i) \<and>
      t (Suc i) \<le> t i + compute_requeue_interval load dflt s (t i) + lag"
    if i: "i \<le> m" and s0: "k_get_sched c ns n (w i) = Inr s0" "sch_spec s0 = sch_spec sch" for i s0
  proof -
    obtain d fx where r: "reconcile fc load pick set_cond dflt c (t i) (ts (t i)) ns n (w i) = (Done d None, fx, w (Suc i))"
      and d: "t i + d \<le> t (Suc i)" "t (Suc i) \<le> t i + d + lag"
      using run i unfolding timed_run_def by blast
    from reconcile_active_answer [OF laws s0(1) _ _ r] s0(2) spec d show ?thesis by auto
  qed
  have "\<exists>s. k_get_sched c ns n (w i) = Inr s \<and> sch_spec s = sch_spec sch" if "i \<le> m" for i
    using that
  proof (induction i)
    case 0
    then show ?case using get by blast
  next
    case (Suc i)
    then show ?case using answer [of i] by fastforce
  qed
  with answer k show ?thesis by blast
qed

text \<open>
  C5: Transitions come in time. With an interval of at most ten minutes, whatever the reconciles
  before it, one reconcile falls into the 30 seconds after a boundary, plus the delay with which it
  was started, and stores the flag that is demanded from then on.
\<close>

theorem transition_in_time:
  assumes laws: "api_sched c" "api_status c" and get: "k_get_sched c ns n (w 0) = Inr sch"
    and spec: "\<not> ss_suspend (sch_spec sch)" "get_windows (sch_spec sch) \<noteq> []"
    and interval: "0 < own_interval dflt (sch_spec sch)" "own_interval dflt (sch_spec sch) \<le> 10 * minute"
    and run: "timed_run load c (\<lambda>now. reconcile fc load pick set_cond dflt c now (ts now) ns n) lag t w m"
    and lag: "0 \<le> lag" "lag \<le> 30 * second"
    and b: "boundary load (sch_spec sch) (t 0) b" "t 0 < b" "b \<le> t m"
  shows "\<exists>k \<le> m. b \<le> t k \<and> t k < b + 30 * second + lag \<and>
    flag_set c ns n (w (Suc k)) = (\<not> should_be_sleeping_at load (sch_spec sch) (t 0))"
proof -
  define k where "k = (LEAST k. b \<le> t k)"
  have k: "b \<le> t k" "k \<le> m" "\<And>j. j < k \<Longrightarrow> t j < b"
    unfolding k_def using b(3) by (auto intro: LeastI Least_le dest: not_less_Least)
  have "k \<noteq> 0" using k(1) b(2) by (metis not_le)
  then obtain j where j: "k = Suc j" by (cases k) auto
  have step: "\<exists>s. k_get_sched c ns n (w (Suc i)) = Inr s \<and> sch_spec s = sch_spec sch \<and>
      sst_sleeping (sch_status s) = should_be_sleeping_at load (sch_spec sch) (t i) \<and>
      t i + compute_requeue_interval load dflt s (t i) \<le> t (Suc i) \<and>
      t (Suc i) \<le> t i + compute_requeue_interval load dflt s (t i) + lag" if "i \<le> m" for i
    using timed_run_step [OF laws get spec run that] .
  have "t 0 \<le> t i" if "i \<le> m" for i
    using that
  proof (induction i)
    case (Suc i)
    then obtain s where "sch_spec s = sch_spec sch" "t i + compute_requeue_interval load dflt s (t i) \<le> t (Suc i)"
      using step [of i] by auto
    then have "t i < t (Suc i)" using requeue_positive [of dflt s load "t i"] interval(1) by simp
    then show ?case using Suc by simp
  qed simp
  then have before: "t 0 \<le> t j" "t j < b" using k(2,3) j by simp_all
  obtain s where s: "sch_spec s = sch_spec sch" "t (Suc j) \<le> t j + compute_requeue_interval load dflt s (t j) + lag"
    using step [of j] k(2) j by auto
  have "t j + compute_requeue_interval load dflt s (t j) < b + 30 * second"
    using requeue_before_boundary [of load s "t j" b dflt] boundary_later(1) [OF b(1) before] before(2) interval(2)
    by (simp add: s(1))
  then have late: "t k < b + 30 * second + lag" using s(2) j by simp
  then have "should_be_sleeping_at load (sch_spec sch) (t k) \<noteq> should_be_sleeping_at load (sch_spec sch) (t 0)"
    using b(1) k(1) lag(2) unfolding boundary_def by simp
  moreover obtain s' where "k_get_sched c ns n (w (Suc k)) = Inr s'"
      "sst_sleeping (sch_status s') = should_be_sleeping_at load (sch_spec sch) (t k)"
    using step [OF k(2)] by blast
  ultimately show ?thesis using k(1,2) late by (intro exI [of _ k]) (simp add: flag_set_def)
qed

text \<open>The night of the deployment in the cluster in memory ends at 06:00.\<close>

lemma dev_asleep_iff:
  assumes "20620 * secs_per_day * second \<le> u" "u < (20620 * secs_per_day + 22 * 3600) * second"
  shows "should_be_sleeping_at (\<lambda>_. None) (sch_spec dev_schedule) u \<longleftrightarrow>
    u < (20620 * secs_per_day + 6 * 3600) * second"
proof -
  let ?win = "\<lparr>sw_start = ''22:00'', sw_end = ''06:00'', sw_timezone = [], sw_days = []\<rparr>"
  have p: "parse_hhmm ''22:00'' = Some (22, 0)" "parse_hhmm ''06:00'' = Some (6, 0)" by code_simp+
  have loc: "has_year_zero (resolve_location (\<lambda>_. None) (sw_timezone ?win))"
    "steady (resolve_location (\<lambda>_. None) (sw_timezone ?win)) u 0"
    by (simp_all add: resolve_location_def has_year_zero_utc steady_utc)
  have "should_be_sleeping_at_window (\<lambda>_. None) ?win u \<longleftrightarrow>
      window_holds (day_secs (22, 0)) (day_secs (6, 0)) [] (u + 0 * second)"
    using should_be_sleeping_at_window_iff [OF loc, of "(22, 0)" "(6, 0)"] p by simp
  also have "\<dots> \<longleftrightarrow> u < (20620 * secs_per_day + 6 * 3600) * second"
    using window_holds_today [of 20620 u "22 * 3600" "6 * 3600" "[]"] assms
    by (simp add: day_secs_def day_allowed_def opens_def)
  finally show ?thesis by (simp add: should_be_sleeping_at_def get_windows_def dev_schedule_def)
qed

definition dawn :: "nat \<Rightarrow> instant" where
  "dawn k = (1781589570 + 30 * int k) * second"

definition dawn_cluster :: "nat \<Rightarrow> memory" where
  "dawn_cluster k =
     (if k = 0 then dev_cluster
      else if k = 1 then snd (snd (run_dev (dawn 0) dev_cluster))
      else snd (snd (run_dev (dawn 1) (snd (snd (run_dev (dawn 0) dev_cluster))))))"

theorem transition_in_time_witness:
  "\<exists>k \<le> 1. dawn 1 \<le> dawn k \<and> dawn k < dawn 1 + 30 * second \<and>
    \<not> flag_set (mem_kube (\<lambda>_. False)) ''dev'' ''s'' (dawn_cluster (Suc k))"
proof -
  let ?c = "mem_kube (\<lambda>_. False)" and ?load = "\<lambda>_. None"
  have get: "k_get_sched ?c ''dev'' ''s'' (dawn_cluster 0) = Inr dev_schedule"
    by (simp add: mem_get_sched_def dawn_cluster_def dev_cluster_def dev_schedule_def)
  have spec: "\<not> ss_suspend (sch_spec dev_schedule)" "get_windows (sch_spec dev_schedule) \<noteq> []"
    by (simp_all add: dev_schedule_def get_windows_def)
  have interval: "0 < own_interval 0 (sch_spec dev_schedule)" "own_interval 0 (sch_spec dev_schedule) \<le> 10 * minute"
    by (simp_all add: own_interval_def dev_schedule_def)
  have answer: "fst (run_dev (dawn 0) (dawn_cluster 0)) = Done (30 * second) None"
    "fst (run_dev (dawn 1) (dawn_cluster 1)) = Done (30 * second) None"
    by code_simp+
  have next0: "snd (snd (run_dev (dawn 0) (dawn_cluster 0))) = dawn_cluster (Suc 0)"
    and next1: "snd (snd (run_dev (dawn 1) (dawn_cluster 1))) = dawn_cluster (Suc 1)"
    by (simp_all add: dawn_cluster_def)
  have "\<exists>d fx. run_dev (dawn k) (dawn_cluster k) = (Done d None, fx, dawn_cluster (Suc k)) \<and>
      dawn k + d \<le> dawn (Suc k) \<and> dawn (Suc k) \<le> dawn k + d + 0" if "k \<le> 1" for k
  proof -
    have "fst (run_dev (dawn k) (dawn_cluster k)) = Done (30 * second) None"
      "snd (snd (run_dev (dawn k) (dawn_cluster k))) = dawn_cluster (Suc k)"
      using that answer next0 next1 by (auto simp: le_Suc_eq)
    then have "run_dev (dawn k) (dawn_cluster k) =
        (Done (30 * second) None, fst (snd (run_dev (dawn k) (dawn_cluster k))), dawn_cluster (Suc k))"
      by (metis prod.collapse)
    moreover have "dawn (Suc k) = dawn k + 30 * second" by (simp add: dawn_def algebra_simps)
    ultimately show ?thesis by (intro exI conjI) auto
  qed
  then have run: "timed_run ?load ?c (\<lambda>now. reconcile (\<lambda>_ _. 0) ?load sorted_list_of_set (\<lambda>cs c. c # cs) 0 ?c now now
      ''dev'' ''s'') 0 dawn dawn_cluster 1"
    unfolding timed_run_def run_dev_def by blast
  have night: "should_be_sleeping_at ?load (sch_spec dev_schedule) (dawn 0)"
    by (subst dev_asleep_iff) (simp_all add: dawn_def)
  have b: "boundary ?load (sch_spec dev_schedule) (dawn 0) (dawn 1)"
    unfolding boundary_def
  proof (intro conjI allI impI)
    show "should_be_sleeping_at ?load (sch_spec dev_schedule) u = should_be_sleeping_at ?load (sch_spec dev_schedule) (dawn 0)"
      if "dawn 0 \<le> u \<and> u < dawn 1" for u
      using that night by (subst dev_asleep_iff) (simp_all add: dawn_def)
    show "should_be_sleeping_at ?load (sch_spec dev_schedule) u \<noteq> should_be_sleeping_at ?load (sch_spec dev_schedule) (dawn 0)"
      if "dawn 1 \<le> u \<and> u < dawn 1 + minute" for u
      using that night by (subst dev_asleep_iff) (simp_all add: dawn_def)
  qed
  have "dawn 0 < dawn 1" by (simp add: dawn_def)
  with transition_in_time [OF mem_api_sched mem_api_status get spec interval run _ _ b] night show ?thesis by simp
qed

section \<open>The night\<close>

text \<open>
  What follows a reconcile that put the workloads to sleep: more reconciles inside the windows, with
  or without an error, and edits of the specification.
\<close>

inductive night ::
  "float_conv \<Rightarrow> (string \<Rightarrow> location option) \<Rightarrow> (int set \<Rightarrow> int list) \<Rightarrow> set_condition \<Rightarrow> duration \<Rightarrow>
   'w kube \<Rightarrow> string \<Rightarrow> string \<Rightarrow> 'w \<Rightarrow> 'w \<Rightarrow> bool"
  for fc load pick set_cond dflt c ns n w0 where
  night_start: "night fc load pick set_cond dflt c ns n w0 w"
    if "wants_sleep load c now ns n w0"
      "reconcile fc load pick set_cond dflt c now ts ns n w0 = (Done d None, fx, w)"
| night_run: "night fc load pick set_cond dflt c ns n w0 w'"
    if "night fc load pick set_cond dflt c ns n w0 w" "wants_sleep load c now ns n w"
      "reconcile fc load pick set_cond dflt c now ts ns n w = (Done d err, fx, w')"
| night_edit: "night fc load pick set_cond dflt c ns n w0 w'"
    if "night fc load pick set_cond dflt c ns n w0 w"
      "k_get_sched c ns n w = Inr s" "k_get_sched c ns n w' = Inr (s\<lparr>sch_spec := spec, sch_generation := g\<rparr>)"
      "\<And>k. read_key c w' k = read_key c w k"

definition asleep_in :: "'w kube \<Rightarrow> string \<Rightarrow> string \<Rightarrow> handler \<Rightarrow> gvk \<times> string \<times> string \<Rightarrow> 'w \<Rightarrow> bool" where
  "asleep_in c ns n h k w \<longleftrightarrow> flag_set c ns n w \<and> (\<exists>y. read_key c w k = Inr y \<and> h_sleep h y = None)"

lemma asleep_in_same:
  "asleep_in c ns n h k w \<Longrightarrow> flag_set c ns n w' \<Longrightarrow> (\<And>k. read_key c w' k = read_key c w k) \<Longrightarrow> asleep_in c ns n h k w'"
  by (simp add: asleep_in_def)

lemma wants_sleepE:
  assumes "wants_sleep load c now ns n w"
  obtains s where "k_get_sched c ns n w = Inr s" "\<not> ss_suspend (sch_spec s)" "get_windows (sch_spec s) \<noteq> []"
    "should_be_sleeping_at load (sch_spec s) now"
  using assms by (auto simp: wants_sleep_def split: sum.splits)

lemma reconcile_wants_sleep:
  assumes "k_get_sched c ns n w = Inr s" "\<not> ss_suspend (sch_spec s)" "get_windows (sch_spec s) \<noteq> []"
    and "reconcile fc load pick set_cond dflt c now ts ns n w = (Done d err, fx, w')"
  obtains days where "reconcile_active fc load set_cond dflt c now ts days s w = (Done d err, fx, w')"
  using assms by (auto simp: reconcile_def Let_def split: option.splits)

lemma night_falls:
  assumes laws: "api_store c" "api_status c" "api_typed c" "api_list c" "api_sched c"
    and get: "k_get_sched c ns n w0 = Inr sch" "\<not> sst_sleeping (sch_status sch)" "sst_managed (sch_status sch) = []"
    and wants: "wants_sleep load c now ns n w0"
    and run: "reconcile fc load pick set_cond dflt c now ts ns n w0 = (Done d None, fx, w)"
    and h: "h \<in> set (handlers fc)" and x: "targeted c w0 sch h x"
  shows "asleep_in c ns n h (ko_key x) w"
proof -
  from wants get(1) have spec: "\<not> ss_suspend (sch_spec sch)" "get_windows (sch_spec sch) \<noteq> []"
      and should: "should_be_sleeping_at load (sch_spec sch) now"
    by (auto elim: wants_sleepE)
  have flag: "flag_set c ns n w"
    using reconcile_active_answer [OF laws(5,2) get(1) spec run] should by (auto simp: flag_set_def)
  obtain days where active: "reconcile_active fc load set_cond dflt c now ts days sch w0 = (Done d None, fx, w)"
    by (rule reconcile_wants_sleep [OF get(1) spec run])
  obtain e st where s: "sleep_workloads fc c sch w0 = (e, st)" by force
  have ok: "e = None" and upd: "\<exists>t r. k_update_status c t (ws_world st) = (Inr r, w)"
    using active should get(2) s
    by (auto simp: reconcile_active_def Let_def apply_transition_def split: option.splits sum.splits prod.splits)
  from upd obtain t r where "k_update_status c t (ws_world st) = (Inr r, w)" by blast
  note same = read_key_status [OF laws(1) this]
  from sleep_is_complete [OF laws(1-4) get(3) s [unfolded ok] h x] flag show ?thesis
    unfolding asleep_in_def same by blast
qed

lemma night_goes_on:
  assumes laws: "api_store c" "api_sched c" "api_status c"
    and asleep: "asleep_in c ns n h k w" and wants: "wants_sleep load c now ns n w"
    and run: "reconcile fc load pick set_cond dflt c now ts ns n w = (Done d err, fx, w')"
  shows "asleep_in c ns n h k w'"
proof -
  obtain s where s: "k_get_sched c ns n w = Inr s" "\<not> ss_suspend (sch_spec s)" "get_windows (sch_spec s) \<noteq> []"
    and should: "should_be_sleeping_at load (sch_spec s) now"
    by (rule wants_sleepE [OF wants])
  then have flag: "sst_sleeping (sch_status s)" using asleep by (simp add: asleep_in_def flag_set_def)
  obtain days where active: "reconcile_active fc load set_cond dflt c now ts days s w = (Done d err, fx, w')"
    by (rule reconcile_wants_sleep [OF s(1-3) run])
  then have "\<exists>t r. k_update_status c t w = (r, w') \<and> (err = None \<or> (\<exists>e. r = Inl e))"
    using should flag
    by (auto simp: reconcile_active_def Let_def apply_transition_def split: sum.splits prod.splits if_splits)
  then obtain t r where u: "k_update_status c t w = (r, w')" and r: "err = None \<or> (\<exists>e. r = Inl e)" by blast
  have "flag_set c ns n w'"
  proof (cases err)
    case None
    show ?thesis
      using reconcile_active_answer [OF laws(2,3) s(1-3) run [unfolded None]] should by (auto simp: flag_set_def)
  next
    case (Some e)
    then show ?thesis using r api_schedD(3) [OF laws(2)] u s(1) flag by (auto simp: flag_set_def)
  qed
  then show ?thesis by (rule asleep_in_same [OF asleep]) (rule read_key_status [OF laws(1) u])
qed



section \<open>Two windows in a row\<close>

definition late_spec :: sleep_spec where
  "late_spec = (sch_spec dev_schedule)
     \<lparr>ss_schedules := [\<lparr>sw_start = ''06:05'', sw_end = ''07:00'', sw_timezone = [], sw_days = []\<rparr>]\<rparr>"

definition late_cluster :: memory where
  "late_cluster = dev_cluster\<lparr>mem_schedules := [dev_schedule\<lparr>sch_spec := late_spec\<rparr>]\<rparr>"

text \<open>06:01, 06:06, 06:40.\<close>

definition after_six :: "int \<Rightarrow> instant" where
  "after_six m = (1781589600 + 60 * m) * second"


section \<open>A long interval\<close>

text \<open>
  An interval above ten minutes hides a nearer transition: with one hour, a reconcile at 21:45
  asks for the next one at 22:45, although the window opens at 22:00 and the search has found that.
\<close>

lemma long_interval_hides_transition:
  "compute_requeue_interval (\<lambda>_. None) 0
     (dev_schedule\<lparr>sch_spec := (sch_spec dev_schedule)\<lparr>ss_interval := Some (60 * minute)\<rparr>\<rparr>) (at_2155 - 10 * minute) = 60 * minute \<and>
   time_until_next_transition (\<lambda>_. None) (sch_spec dev_schedule) (at_2155 - 10 * minute) = 16 * minute"
  by code_simp

end
