(* ===== verification/Go_Memory.thy ===== *)
theory Go_Memory
  imports Slumlord_Prelude
begin

text \<open>
  Go's memory, as far as copying and sharing of values is concerned. A value is a primitive, a
  struct held in place, or a pointer, slice or map, which are nil or refer to a cell. A Go type
  says which values belong to it, and \<open>go_view\<close> reads such a value: the tree of what is stored, with
  no addresses in it, and the set of the cells that were visited. Writes through one value cannot
  be seen through another when the two visit no common cell.
\<close>

section \<open>Values, cells and types\<close>

text \<open>
  A slice is a backing array with an offset and a length. Pointers refer to whole cells only.
  The entries of a map are kept in a list whose order has no meaning; the keys of every map of
  the program are strings.
\<close>

datatype prim = PInt int | PStr string | PBool bool

datatype val =
    Prim prim
  | Struct "(string \<times> val) list"
  | Ptr "nat option"
  | Slice "(nat \<times> nat \<times> nat) option"
  | Dict "nat option"

datatype cell = Vals "val list" | Entries "(string \<times> val) list"

record go_heap =
  hp_cells :: "nat \<Rightarrow> cell option"
  hp_next :: nat

definition heap_ok :: "go_heap \<Rightarrow> bool" where
  "heap_ok h \<longleftrightarrow> (\<forall>a. hp_next h \<le> a \<longrightarrow> hp_cells h a = None)"

definition go_alloc :: "cell \<Rightarrow> go_heap \<Rightarrow> nat \<times> go_heap" where
  "go_alloc c h = (hp_next h, \<lparr>hp_cells = (hp_cells h)(hp_next h \<mapsto> c), hp_next = Suc (hp_next h)\<rparr>)"

text \<open>A write to a cell that exists.\<close>

definition write_cell :: "nat \<Rightarrow> cell \<Rightarrow> go_heap \<Rightarrow> go_heap" where
  "write_cell a c h = h\<lparr>hp_cells := (hp_cells h)(a \<mapsto> c)\<rparr>"

datatype gty =
    TPrim
  | TStruct "(string \<times> gty) list"
  | TPtr gty
  | TSlice gty
  | TDict gty

datatype tree =
    Leaf prim
  | Node "(string \<times> tree) list"
  | Nil
  | Target tree
  | Elems "tree list"
  | Keys "(string \<times> tree) list"

type_synonym reading = "(tree \<times> nat set) option"

fun view_all :: "(val \<Rightarrow> reading) \<Rightarrow> val list \<Rightarrow> (tree list \<times> nat set) option" where
  "view_all f [] = Some ([], {})"
| "view_all f (v # vs) =
     (case f v of
        None \<Rightarrow> None
      | Some (x, R) \<Rightarrow> map_option (\<lambda>(xs, S). (x # xs, R \<union> S)) (view_all f vs))"

fun view_fields ::
  "(string \<times> (val \<Rightarrow> reading)) list \<Rightarrow> (string \<times> val) list \<Rightarrow> ((string \<times> tree) list \<times> nat set) option" where
  "view_fields [] [] = Some ([], {})"
| "view_fields ((n, f) # ts) ((m, v) # fs) =
     (if n \<noteq> m then None
      else (case f v of
              None \<Rightarrow> None
            | Some (x, R) \<Rightarrow> map_option (\<lambda>(xs, S). ((n, x) # xs, R \<union> S)) (view_fields ts fs)))"
| "view_fields _ _ = None"

definition at_cell :: "nat \<Rightarrow> ('x \<Rightarrow> tree) \<Rightarrow> ('x \<times> nat set) option \<Rightarrow> reading" where
  "at_cell a f = map_option (\<lambda>(x, R). (f x, insert a R))"

definition slice_vals :: "nat \<Rightarrow> nat \<Rightarrow> val list \<Rightarrow> val list" where
  "slice_vals i n vs = take n (drop i vs)"

primrec go_view :: "gty \<Rightarrow> go_heap \<Rightarrow> val \<Rightarrow> reading" where
  "go_view TPrim = (\<lambda>h v. case v of Prim p \<Rightarrow> Some (Leaf p, {}) | _ \<Rightarrow> None)"
| "go_view (TStruct ts) = (\<lambda>h v.
     case v of
       Struct fs \<Rightarrow>
         map_option (map_prod Node id) (view_fields (map (map_prod id (\<lambda>f. f h)) (map (map_prod id go_view) ts)) fs)
     | _ \<Rightarrow> None)"
| "go_view (TPtr t) = (\<lambda>h v.
     case v of
       Ptr None \<Rightarrow> Some (Nil, {})
     | Ptr (Some a) \<Rightarrow>
         (case hp_cells h a of Some (Vals [x]) \<Rightarrow> at_cell a Target (go_view t h x) | _ \<Rightarrow> None)
     | _ \<Rightarrow> None)"
| "go_view (TSlice t) = (\<lambda>h v.
     case v of
       Slice None \<Rightarrow> Some (Nil, {})
     | Slice (Some (a, i, n)) \<Rightarrow>
         (case hp_cells h a of
            Some (Vals vs) \<Rightarrow>
              if i + n \<le> length vs then at_cell a Elems (view_all (go_view t h) (slice_vals i n vs)) else None
          | _ \<Rightarrow> None)
     | _ \<Rightarrow> None)"
| "go_view (TDict t) = (\<lambda>h v.
     case v of
       Dict None \<Rightarrow> Some (Nil, {})
     | Dict (Some a) \<Rightarrow>
         (case hp_cells h a of
            Some (Entries es) \<Rightarrow>
              at_cell a Keys (map_option (map_prod (zip (map fst es)) id) (view_all (go_view t h) (map snd es)))
          | _ \<Rightarrow> None)
     | _ \<Rightarrow> None)"

text \<open>The fields of a struct, one by one.\<close>

lemma view_struct_Nil [simp]: "go_view (TStruct []) h (Struct fs) = Some r \<longleftrightarrow> fs = [] \<and> r = (Node [], {})"
  by (cases fs) auto

lemma view_struct_Cons [simp]:
  "go_view (TStruct ((n, t) # ts)) h (Struct fs) = Some (x, R) \<longleftrightarrow>
     (\<exists>v gs y S xs T. fs = (n, v) # gs \<and> go_view t h v = Some (y, S) \<and>
        go_view (TStruct ts) h (Struct gs) = Some (Node xs, T) \<and> x = Node ((n, y) # xs) \<and> R = S \<union> T)"
  by (cases fs) (auto split: option.splits if_splits)

lemma view_struct_Node:
  assumes "go_view (TStruct ts) h v = Some (x, R)"
  obtains fs xs where "v = Struct fs" "x = Node xs" "go_view (TStruct ts) h (Struct fs) = Some (Node xs, R)"
  using assms by (auto split: val.splits)

lemma view_struct_fields:
  "go_view (TStruct ts) h v = (case v of Struct fs \<Rightarrow>
     map_option (map_prod Node id) (view_fields (map (\<lambda>(n, t). (n, go_view t h)) ts) fs) | _ \<Rightarrow> None)"
  by (simp add: comp_def map_prod_def case_prod_unfold split: val.split)

declare go_view.simps(2) [simp del]

section \<open>What a reading depends on\<close>

text \<open>
  A reading depends on the cells it visits only, and it visits cells that exist.
\<close>

definition agree :: "nat set \<Rightarrow> go_heap \<Rightarrow> go_heap \<Rightarrow> bool" where
  "agree R h h' \<longleftrightarrow> (\<forall>a\<in>R. hp_cells h' a = hp_cells h a)"

lemma agree_union [simp]: "agree (R \<union> S) h h' \<longleftrightarrow> agree R h h' \<and> agree S h h'"
  by (auto simp: agree_def)

lemma agree_insert [simp]: "agree (insert a R) h h' \<longleftrightarrow> hp_cells h' a = hp_cells h a \<and> agree R h h'"
  by (auto simp: agree_def)

lemma at_cell_Some:
  "at_cell a f r = Some (x, R) \<longleftrightarrow> (\<exists>y S. r = Some (y, S) \<and> x = f y \<and> R = insert a S)"
  by (auto simp: at_cell_def)

lemma view_all_frame:
  assumes "view_all f vs = Some (xs, R)" "agree R h h'"
    and "\<And>v x S. v \<in> set vs \<Longrightarrow> f v = Some (x, S) \<Longrightarrow> agree S h h' \<Longrightarrow> g v = Some (x, S)"
  shows "view_all g vs = Some (xs, R)"
  using assms
proof (induction vs arbitrary: xs R)
  case (Cons v vs)
  then obtain x S ys T where *: "f v = Some (x, S)" "view_all f vs = Some (ys, T)" "xs = x # ys" "R = S \<union> T"
    by (auto split: option.splits)
  have "g v = Some (x, S)" using Cons.prems(2) * by (intro Cons.prems(3)) auto
  moreover have "view_all g vs = Some (ys, T)"
    by (rule Cons.IH [OF *(2)]) (use Cons.prems * in auto)
  ultimately show ?case using * by simp
qed simp

lemma view_fields_frame:
  assumes "view_fields (map (\<lambda>(n, t). (n, go_view t h)) ts) fs = Some (xs, R)" "agree R h h'"
    and "\<And>t v x S. t \<in> snd ` set ts \<Longrightarrow> go_view t h v = Some (x, S) \<Longrightarrow> agree S h h' \<Longrightarrow> go_view t h' v = Some (x, S)"
  shows "view_fields (map (\<lambda>(n, t). (n, go_view t h')) ts) fs = Some (xs, R)"
  using assms
proof (induction ts arbitrary: fs xs R)
  case Nil
  then show ?case by (cases fs) auto
next
  case (Cons nt ts)
  obtain n t where nt: "nt = (n, t)" by (cases nt)
  from Cons.prems(1) nt obtain v fs' x S ys T where *: "fs = (n, v) # fs'" "go_view t h v = Some (x, S)"
      "view_fields (map (\<lambda>(n, t). (n, go_view t h)) ts) fs' = Some (ys, T)" "xs = (n, x) # ys" "R = S \<union> T"
    by (cases fs) (auto split: option.splits if_splits)
  have "go_view t h' v = Some (x, S)" using Cons.prems(2) * nt by (intro Cons.prems(3)) auto
  moreover have "view_fields (map (\<lambda>(n, t). (n, go_view t h')) ts) fs' = Some (ys, T)"
    by (rule Cons.IH [OF *(3)]) (use Cons.prems * in auto)
  ultimately show ?case using * nt by simp
qed

lemma view_frame:
  assumes "go_view t h v = Some (x, R)" "agree R h h'"
  shows "go_view t h' v = Some (x, R)"
  using assms
proof (induction t arbitrary: v x R)
  case TPrim
  then show ?case by (auto split: val.splits)
next
  case (TStruct ts)
  obtain fs xs where v: "v = Struct fs" "x = Node xs"
      and f: "view_fields (map (\<lambda>(n, t). (n, go_view t h)) ts) fs = Some (xs, R)"
    using TStruct.prems(1) unfolding view_struct_fields by (auto split: val.splits)
  have "view_fields (map (\<lambda>(n, t). (n, go_view t h')) ts) fs = Some (xs, R)"
    by (rule view_fields_frame [OF f TStruct.prems(2)]) (auto intro: TStruct.IH)
  then show ?case unfolding view_struct_fields by (simp add: v)
next
  case (TPtr t)
  show ?case
  proof (cases "v = Ptr None")
    case False
    with TPtr.prems(1) obtain a y S z where *: "v = Ptr (Some a)" "hp_cells h a = Some (Vals [y])"
        "go_view t h y = Some (z, S)" "x = Target z" "R = insert a S"
      by (auto simp: at_cell_Some split: val.splits option.splits cell.splits list.splits)
    then show ?thesis using TPtr.IH [OF *(3)] TPtr.prems(2) by (simp add: at_cell_def)
  qed (use TPtr.prems in simp)
next
  case (TSlice t)
  show ?case
  proof (cases "v = Slice None")
    case False
    with TSlice.prems(1) obtain a i n vs S zs where *: "v = Slice (Some (a, i, n))"
        "hp_cells h a = Some (Vals vs)" "i + n \<le> length vs"
        "view_all (go_view t h) (slice_vals i n vs) = Some (zs, S)" "x = Elems zs" "R = insert a S"
      by (auto simp: at_cell_Some split: val.splits option.splits cell.splits if_splits)
    have "view_all (go_view t h') (slice_vals i n vs) = Some (zs, S)"
      by (rule view_all_frame [OF *(4), of h h']) (use TSlice.prems(2) * TSlice.IH in auto)
    then show ?thesis using * TSlice.prems(2) by (simp add: at_cell_def)
  qed (use TSlice.prems in simp)
next
  case (TDict t)
  show ?case
  proof (cases "v = Dict None")
    case False
    with TDict.prems(1) obtain a es S zs where *: "v = Dict (Some a)" "hp_cells h a = Some (Entries es)"
        "view_all (go_view t h) (map snd es) = Some (zs, S)" "x = Keys (zip (map fst es) zs)" "R = insert a S"
      by (auto simp: at_cell_Some split: val.splits option.splits cell.splits)
    have "view_all (go_view t h') (map snd es) = Some (zs, S)"
      by (rule view_all_frame [OF *(3), of h h']) (use TDict.prems(2) * TDict.IH in auto)
    then show ?thesis using * TDict.prems(2) by (simp add: at_cell_def)
  qed (use TDict.prems in simp)
qed

text \<open>The cells that a reading visits exist.\<close>

definition mapped :: "nat set \<Rightarrow> go_heap \<Rightarrow> bool" where
  "mapped R h \<longleftrightarrow> (\<forall>a\<in>R. hp_cells h a \<noteq> None)"

lemma mapped_simps [simp]:
  "mapped {} h" "mapped (R \<union> S) h \<longleftrightarrow> mapped R h \<and> mapped S h"
  "mapped (insert a R) h \<longleftrightarrow> hp_cells h a \<noteq> None \<and> mapped R h"
  by (auto simp: mapped_def)

lemma view_all_mapped:
  assumes "view_all f vs = Some (xs, R)" "\<And>v x S. f v = Some (x, S) \<Longrightarrow> mapped S h"
  shows "mapped R h"
  using assms by (induction vs arbitrary: xs R) (auto split: option.splits)

lemma view_fields_mapped:
  assumes "view_fields (map (\<lambda>(n, t). (n, go_view t h)) ts) fs = Some (xs, R)"
    and "\<And>t v x S. t \<in> snd ` set ts \<Longrightarrow> go_view t h v = Some (x, S) \<Longrightarrow> mapped S h"
  shows "mapped R h"
  using assms
proof (induction ts arbitrary: fs xs R)
  case Nil
  then show ?case by (cases fs) auto
next
  case (Cons nt ts)
  from Cons.prems(1) obtain n t m v fs' x S ys T where *: "nt = (n, t)" "go_view t h v = Some (x, S)"
      "view_fields (map (\<lambda>(n, t). (n, go_view t h)) ts) fs' = Some (ys, T)" "R = S \<union> T"
    by (cases nt; cases fs) (auto split: option.splits if_splits)
  have "mapped S h" by (rule Cons.prems(2) [OF _ *(2)]) (simp add: *)
  moreover have "mapped T h" by (rule Cons.IH [OF *(3)]) (rule Cons.prems(2), simp_all)
  ultimately show ?case by (simp add: *)
qed

lemma view_mapped:
  assumes "go_view t h v = Some (x, R)"
  shows "mapped R h"
  using assms
proof (induction t arbitrary: v x R)
  case (TStruct ts)
  from TStruct.prems obtain fs xs where
    f: "view_fields (map (\<lambda>(n, t). (n, go_view t h)) ts) fs = Some (xs, R)"
    unfolding view_struct_fields by (auto split: val.splits)
  show ?case by (rule view_fields_mapped [OF f]) (auto intro: TStruct.IH)
next
  case (TPtr t)
  then show ?case by (auto simp: at_cell_Some split: val.splits option.splits cell.splits list.splits)
next
  case (TSlice t)
  then show ?case
    by (auto simp: at_cell_Some split: val.splits option.splits cell.splits if_splits)
      (erule view_all_mapped, blast)
next
  case (TDict t)
  then show ?case
    by (auto simp: at_cell_Some split: val.splits option.splits cell.splits)
      (erule view_all_mapped, blast)
qed (auto split: val.splits)

section \<open>Copying\<close>

text \<open>
  The pieces of which the generated \<open>DeepCopyInto\<close> functions consist. A copier takes the value
  \<open>*in\<close> and gives the value that \<open>*out\<close> gets; plain assignment copies primitives and
  shares the rest. The new cell is allocated after its contents have been copied, while the code
  allocates it before; only the numbers of the new cells depend on that order.
\<close>

type_synonym copier = "val \<Rightarrow> go_heap \<Rightarrow> val \<times> go_heap"

definition plain :: copier where
  "plain v h = (v, h)"

fun copy_list :: "copier \<Rightarrow> val list \<Rightarrow> go_heap \<Rightarrow> val list \<times> go_heap" where
  "copy_list c [] h = ([], h)"
| "copy_list c (v # vs) h =
     (let (v', h1) = c v h; (vs', h2) = copy_list c vs h1 in (v' # vs', h2))"

text \<open>
  \<open>if in.F != nil { *out = new(T); (*in).DeepCopyInto(*out) }\<close>. The same is the method
  \<open>DeepCopy\<close> of a type, which returns nil for nil.
\<close>

definition new_copy :: "copier \<Rightarrow> copier" where
  "new_copy c v h =
     (case v of
        Ptr (Some a) \<Rightarrow>
          (case hp_cells h a of
             Some (Vals (x # _)) \<Rightarrow>
               (let (x', h1) = c x h; (b, h2) = go_alloc (Vals [x']) h1 in (Ptr (Some b), h2))
           | _ \<Rightarrow> (v, h))
      | _ \<Rightarrow> (v, h))"

text \<open>\<open>make([]T, len(*in))\<close>, then one copy for each element.\<close>

definition slice_copy :: "copier \<Rightarrow> copier" where
  "slice_copy c v h =
     (case v of
        Slice (Some (a, i, n)) \<Rightarrow>
          (case hp_cells h a of
             Some (Vals vs) \<Rightarrow>
               (let (vs', h1) = copy_list c (slice_vals i n vs) h; (b, h2) = go_alloc (Vals vs') h1
                in (Slice (Some (b, 0, n)), h2))
           | _ \<Rightarrow> (v, h))
      | _ \<Rightarrow> (v, h))"

text \<open>\<open>make(map[string]T, len(*in))\<close>, then one copy for each entry.\<close>

definition dict_copy :: "copier \<Rightarrow> copier" where
  "dict_copy c v h =
     (case v of
        Dict (Some a) \<Rightarrow>
          (case hp_cells h a of
             Some (Entries es) \<Rightarrow>
               (let (vs', h1) = copy_list c (map snd es) h; (b, h2) = go_alloc (Entries (zip (map fst es) vs')) h1
                in (Dict (Some b), h2))
           | _ \<Rightarrow> (v, h))
      | _ \<Rightarrow> (v, h))"

text \<open>
  \<open>*out = *in\<close>, then a statement for each of the named fields, in the order of the struct; a
  field without one keeps what the assignment gave it.
\<close>

definition field_copier :: "(string \<times> copier) list \<Rightarrow> string \<Rightarrow> copier" where
  "field_copier cs n = (case map_of cs n of None \<Rightarrow> plain | Some c \<Rightarrow> c)"

fun fields_copy :: "(string \<times> copier) list \<Rightarrow> (string \<times> val) list \<Rightarrow> go_heap \<Rightarrow> (string \<times> val) list \<times> go_heap" where
  "fields_copy cs [] h = ([], h)"
| "fields_copy cs ((n, v) # fs) h =
     (let (v', h1) = field_copier cs n v h;
          (fs', h2) = fields_copy cs fs h1
      in ((n, v') # fs', h2))"

definition struct_copy :: "(string \<times> copier) list \<Rightarrow> copier" where
  "struct_copy cs v h =
     (case v of
        Struct fs \<Rightarrow> (let (fs', h1) = fields_copy cs fs h in (Struct fs', h1))
      | _ \<Rightarrow> (v, h))"

text \<open>\<open>*val.DeepCopy()\<close> on a value: the copy is read out of a new cell that nobody keeps.\<close>

definition value_copy :: "copier \<Rightarrow> copier" where
  "value_copy c v h = (let (v', h1) = c v h; (b, h2) = go_alloc (Vals [v']) h1 in (v', h2))"

section \<open>What a deep copy owes\<close>

text \<open>
  The copy reads as the same tree, old cells keep their contents, and every cell that the copy
  visits is new.
\<close>

definition grows :: "go_heap \<Rightarrow> go_heap \<Rightarrow> bool" where
  "grows h h' \<longleftrightarrow> hp_next h \<le> hp_next h' \<and> (\<forall>a < hp_next h. hp_cells h' a = hp_cells h a)"

definition copied :: "gty \<Rightarrow> tree \<Rightarrow> go_heap \<Rightarrow> val \<times> go_heap \<Rightarrow> bool" where
  "copied t x h r \<longleftrightarrow>
     heap_ok (snd r) \<and> grows h (snd r) \<and>
     (\<exists>R. go_view t (snd r) (fst r) = Some (x, R) \<and> (\<forall>a\<in>R. hp_next h \<le> a))"

definition deep_copier :: "gty \<Rightarrow> copier \<Rightarrow> bool" where
  "deep_copier t c \<longleftrightarrow>
     (\<forall>h v x R. heap_ok h \<longrightarrow> go_view t h v = Some (x, R) \<longrightarrow> copied t x h (c v h))"

lemma grows_trans: "grows h h1 \<Longrightarrow> grows h1 h2 \<Longrightarrow> grows h h2"
  unfolding grows_def by auto

lemma grows_refl [simp]: "grows h h"
  by (simp add: grows_def)

lemma alloc_grows:
  assumes "go_alloc c h = (b, h')" "heap_ok h"
  shows "heap_ok h'" "grows h h'" "hp_cells h' b = Some c" "b = hp_next h"
  using assms by (auto simp: go_alloc_def heap_ok_def grows_def)

lemma mapped_old:
  assumes "mapped R h" "heap_ok h" "a \<in> R"
  shows "a < hp_next h"
  using assms unfolding mapped_def heap_ok_def by (meson linorder_not_less)

lemma grows_agree:
  assumes "grows h h'" "heap_ok h" "mapped R h"
  shows "agree R h h'"
  using assms mapped_old unfolding grows_def agree_def by blast

lemma view_grows:
  assumes "go_view t h v = Some (x, R)" "grows h h'" "heap_ok h"
  shows "go_view t h' v = Some (x, R)"
  using view_frame [OF assms(1) grows_agree [OF assms(2,3) view_mapped [OF assms(1)]]] .

lemma view_all_grows:
  assumes "view_all (go_view t h) vs = Some (xs, R)" "grows h h'" "heap_ok h"
  shows "view_all (go_view t h') vs = Some (xs, R)"
proof (rule view_all_frame [OF assms(1)])
  show "agree R h h'"
    by (rule grows_agree [OF assms(2,3) view_all_mapped [OF assms(1) view_mapped]])
qed (rule view_frame)

lemma copiedE:
  assumes "copied t x h (v', h')"
  obtains R where "heap_ok h'" "grows h h'" "go_view t h' v' = Some (x, R)" "\<forall>a\<in>R. hp_next h \<le> a"
  using assms by (auto simp: copied_def)

lemma new_cell_copied:
  assumes "heap_ok h1" "grows h h1" "\<forall>a\<in>T. hp_next h \<le> a" "go_alloc c h1 = (b, h2)"
    and "go_view t h2 v = Some (x, insert b T)"
  shows "copied t x h (v, h2)"
  using assms(2,3,5) alloc_grows [OF assms(4,1)] grows_trans [of h h1 h2]
  by (auto simp: copied_def grows_def)

text \<open>A new cell, filled with copies, is a copy.\<close>

lemma copy_list_copies:
  assumes "deep_copier t c" "heap_ok h" "view_all (go_view t h) vs = Some (xs, R)" "copy_list c vs h = (vs', h')"
  shows "heap_ok h' \<and> grows h h' \<and> length vs' = length vs \<and>
    (\<exists>R'. view_all (go_view t h') vs' = Some (xs, R') \<and> (\<forall>a\<in>R'. hp_next h \<le> a))"
  using assms
proof (induction vs arbitrary: h xs R vs' h')
  case (Cons v vs)
  obtain x ys R1 R2 where v: "go_view t h v = Some (x, R1)" "view_all (go_view t h) vs = Some (ys, R2)" "xs = x # ys"
    using Cons.prems(3) by (auto split: option.splits)
  obtain v1 h1 ws where c: "c v h = (v1, h1)" "copy_list c vs h1 = (ws, h')" "vs' = v1 # ws"
    using Cons.prems(4) by (auto split: prod.splits)
  have "copied t x h (v1, h1)"
    using Cons.prems(1,2) v(1) c(1) unfolding deep_copier_def by metis
  then obtain S where h1: "heap_ok h1" "grows h h1" "go_view t h1 v1 = Some (x, S)" "\<forall>a\<in>S. hp_next h \<le> a"
    by (rule copiedE)
  obtain T where IH: "heap_ok h'" "grows h1 h'" "length ws = length vs" "view_all (go_view t h') ws = Some (ys, T)"
      "\<forall>a\<in>T. hp_next h1 \<le> a"
    using Cons.IH [OF Cons.prems(1) h1(1) view_all_grows [OF v(2) h1(2) Cons.prems(2)] c(2)] by blast
  have "go_view t h' v1 = Some (x, S)" by (rule view_grows [OF h1(3) IH(2) h1(1)])
  moreover have "hp_next h \<le> hp_next h1" using h1(2) by (simp add: grows_def)
  ultimately show ?case
    using IH h1 c(3) v(3) grows_trans [OF h1(2) IH(2)] by (auto intro: order_trans)
qed simp

section \<open>Deep copies from deep copies\<close>

named_theorems deep_intros

lemma deep_plain [deep_intros]: "deep_copier TPrim plain"
  by (auto simp: deep_copier_def plain_def copied_def split: val.splits)

lemma deep_new_copy [deep_intros]:
  assumes "deep_copier t c"
  shows "deep_copier (TPtr t) (new_copy c)"
  unfolding deep_copier_def
proof (intro allI impI)
  fix h v x R assume ok: "heap_ok h" and v: "go_view (TPtr t) h v = Some (x, R)"
  show "copied (TPtr t) x h (new_copy c v h)"
  proof (cases "v = Ptr None")
    case True
    then show ?thesis using ok v by (auto simp: new_copy_def copied_def)
  next
    case False
    with v obtain a y S z where *: "v = Ptr (Some a)" "hp_cells h a = Some (Vals [y])"
        "go_view t h y = Some (z, S)" "x = Target z"
      by (auto simp: at_cell_Some split: val.splits option.splits cell.splits list.splits)
    obtain y' h1 b h2 where c: "c y h = (y', h1)" "go_alloc (Vals [y']) h1 = (b, h2)" by force
    have "copied t z h (y', h1)" using assms ok *(3) c(1) unfolding deep_copier_def by metis
    then obtain T where h1: "heap_ok h1" "grows h h1" "go_view t h1 y' = Some (z, T)"
        "\<forall>a\<in>T. hp_next h \<le> a" by (rule copiedE)
    note h2 = alloc_grows [OF c(2) h1(1)]
    have "copied (TPtr t) x h (Ptr (Some b), h2)"
    proof (rule new_cell_copied [OF h1(1,2,4) c(2)])
      show "go_view (TPtr t) h2 (Ptr (Some b)) = Some (x, insert b T)"
        using view_grows [OF h1(3) h2(2) h1(1)] h2(3) *(4) by (simp add: at_cell_def)
    qed
    then show ?thesis by (simp add: new_copy_def * c)
  qed
qed

lemma deep_slice_copy [deep_intros]:
  assumes "deep_copier t c"
  shows "deep_copier (TSlice t) (slice_copy c)"
  unfolding deep_copier_def
proof (intro allI impI)
  fix h v x R assume ok: "heap_ok h" and v: "go_view (TSlice t) h v = Some (x, R)"
  show "copied (TSlice t) x h (slice_copy c v h)"
  proof (cases "v = Slice None")
    case True
    then show ?thesis using ok v by (auto simp: slice_copy_def copied_def)
  next
    case False
    with v obtain a i n vs S zs where *: "v = Slice (Some (a, i, n))" "hp_cells h a = Some (Vals vs)"
        "i + n \<le> length vs" "view_all (go_view t h) (slice_vals i n vs) = Some (zs, S)" "x = Elems zs"
      by (auto simp: at_cell_Some split: val.splits option.splits cell.splits if_splits)
    obtain vs' h1 b h2 where c: "copy_list c (slice_vals i n vs) h = (vs', h1)" "go_alloc (Vals vs') h1 = (b, h2)"
      by force
    obtain T where h1: "heap_ok h1" "grows h h1" "length vs' = length (slice_vals i n vs)"
        "view_all (go_view t h1) vs' = Some (zs, T)" "\<forall>a\<in>T. hp_next h \<le> a"
      using copy_list_copies [OF assms ok *(4) c(1)] by blast
    note h2 = alloc_grows [OF c(2) h1(1)]
    have len: "length vs' = n" using h1(3) *(3) by (simp add: slice_vals_def)
    have "copied (TSlice t) x h (Slice (Some (b, 0, n)), h2)"
    proof (rule new_cell_copied [OF h1(1,2,5) c(2)])
      show "go_view (TSlice t) h2 (Slice (Some (b, 0, n))) = Some (x, insert b T)"
        using view_all_grows [OF h1(4) h2(2) h1(1)] h2(3) *(5) len by (simp add: at_cell_def slice_vals_def)
    qed
    then show ?thesis by (simp add: slice_copy_def * c)
  qed
qed

lemma deep_dict_copy [deep_intros]:
  assumes "deep_copier t c"
  shows "deep_copier (TDict t) (dict_copy c)"
  unfolding deep_copier_def
proof (intro allI impI)
  fix h v x R assume ok: "heap_ok h" and v: "go_view (TDict t) h v = Some (x, R)"
  show "copied (TDict t) x h (dict_copy c v h)"
  proof (cases "v = Dict None")
    case True
    then show ?thesis using ok v by (auto simp: dict_copy_def copied_def)
  next
    case False
    with v obtain a es S zs where *: "v = Dict (Some a)" "hp_cells h a = Some (Entries es)"
        "view_all (go_view t h) (map snd es) = Some (zs, S)" "x = Keys (zip (map fst es) zs)"
      by (auto simp: at_cell_Some split: val.splits option.splits cell.splits)
    obtain vs' h1 b h2 where c: "copy_list c (map snd es) h = (vs', h1)"
        "go_alloc (Entries (zip (map fst es) vs')) h1 = (b, h2)"
      by force
    obtain T where h1: "heap_ok h1" "grows h h1" "length vs' = length (map snd es)"
        "view_all (go_view t h1) vs' = Some (zs, T)" "\<forall>a\<in>T. hp_next h \<le> a"
      using copy_list_copies [OF assms ok *(3) c(1)] by blast
    note h2 = alloc_grows [OF c(2) h1(1)]
    have "copied (TDict t) x h (Dict (Some b), h2)"
    proof (rule new_cell_copied [OF h1(1,2,5) c(2)])
      show "go_view (TDict t) h2 (Dict (Some b)) = Some (x, insert b T)"
        using view_all_grows [OF h1(4) h2(2) h1(1)] h2(3) *(4) h1(3) by (simp add: at_cell_def)
    qed
    then show ?thesis by (simp add: dict_copy_def * c)
  qed
qed

lemma deep_value_copy [deep_intros]:
  assumes "deep_copier t c"
  shows "deep_copier t (value_copy c)"
  unfolding deep_copier_def
proof (intro allI impI)
  fix h v x R assume ok: "heap_ok h" and v: "go_view t h v = Some (x, R)"
  obtain v' h1 b h2 where c: "c v h = (v', h1)" "go_alloc (Vals [v']) h1 = (b, h2)" by force
  have "copied t x h (v', h1)" using assms ok v c(1) unfolding deep_copier_def by metis
  then obtain T where h1: "heap_ok h1" "grows h h1" "go_view t h1 v' = Some (x, T)" "\<forall>a\<in>T. hp_next h \<le> a"
    by (rule copiedE)
  note h2 = alloc_grows [OF c(2) h1(1)]
  have "copied t x h (v', h2)"
    using view_grows [OF h1(3) h2(2) h1(1)] h1(4) h2(1) grows_trans [OF h1(2) h2(2)]
    by (auto simp: copied_def)
  then show "copied t x h (value_copy c v h)" by (simp add: value_copy_def c)
qed

text \<open>A value without references is copied by the assignment.\<close>

primrec flat :: "gty \<Rightarrow> bool" where
  "flat TPrim = True"
| "flat (TStruct ts) = list_all snd (map (map_prod id flat) ts)"
| "flat (TPtr t) = False"
| "flat (TSlice t) = False"
| "flat (TDict t) = False"

lemma view_fields_empty:
  assumes "view_fields (map (\<lambda>(n, t). (n, go_view t h)) ts) fs = Some (xs, R)"
    and "\<And>t v x S. t \<in> snd ` set ts \<Longrightarrow> go_view t h v = Some (x, S) \<Longrightarrow> S = {}"
  shows "R = {}"
  using assms
proof (induction ts arbitrary: fs xs R)
  case Nil
  then show ?case by (cases fs) auto
next
  case (Cons nt ts)
  from Cons.prems(1) obtain n t m v fs' x S ys T where *: "nt = (n, t)" "go_view t h v = Some (x, S)"
      "view_fields (map (\<lambda>(n, t). (n, go_view t h)) ts) fs' = Some (ys, T)" "R = S \<union> T"
    by (cases nt; cases fs) (auto split: option.splits if_splits)
  have "S = {}" by (rule Cons.prems(2) [OF _ *(2)]) (simp add: *)
  moreover have "T = {}" by (rule Cons.IH [OF *(3)]) (rule Cons.prems(2), simp_all)
  ultimately show ?case by (simp add: *)
qed

lemma view_flat:
  assumes "flat t" "go_view t h v = Some (x, R)"
  shows "R = {}"
  using assms
proof (induction t arbitrary: v x R)
  case (TStruct ts)
  from TStruct.prems(2) obtain fs xs where
    f: "view_fields (map (\<lambda>(n, t). (n, go_view t h)) ts) fs = Some (xs, R)"
    unfolding view_struct_fields by (auto split: val.splits)
  show ?case
  proof (rule view_fields_empty [OF f])
    fix t w y S assume t: "t \<in> snd ` set ts" and y: "go_view t h w = Some (y, S)"
    then obtain n where n: "(n, t) \<in> set ts" by force
    moreover from this have "flat t" using TStruct.prems(1) by (auto simp: list_all_iff)
    ultimately show "S = {}" using TStruct.IH [OF n _ _ y] by simp
  qed
qed (auto split: val.splits)

lemma deep_flat:
  assumes "flat t"
  shows "deep_copier t plain"
  using view_flat [OF assms] by (fastforce simp: deep_copier_def plain_def copied_def)

text \<open>
  A struct is copied deeply when each field is: by its statement, or by the assignment where it
  has none.
\<close>

lemma fields_copied:
  assumes "\<And>n t. (n, t) \<in> set ts \<Longrightarrow> deep_copier t (field_copier cs n)" "heap_ok h"
    and "view_fields (map (\<lambda>(n, t). (n, go_view t h)) ts) fs = Some (xs, R)" "fields_copy cs fs h = (fs', h')"
  shows "heap_ok h' \<and> grows h h' \<and>
    (\<exists>R'. view_fields (map (\<lambda>(n, t). (n, go_view t h')) ts) fs' = Some (xs, R') \<and> (\<forall>a\<in>R'. hp_next h \<le> a))"
  using assms
proof (induction ts arbitrary: fs h xs R fs' h')
  case Nil
  then show ?case by (cases fs) auto
next
  case (Cons nt ts)
  from Cons.prems(3) obtain n t v gs x S ys T where f: "nt = (n, t)" "fs = (n, v) # gs" "go_view t h v = Some (x, S)"
      "view_fields (map (\<lambda>(n, t). (n, go_view t h)) ts) gs = Some (ys, T)" "xs = (n, x) # ys"
    by (cases nt; cases fs) (auto split: option.splits if_splits)
  obtain v1 h1 gs' where c: "field_copier cs n v h = (v1, h1)" "fields_copy cs gs h1 = (gs', h')"
      "fs' = (n, v1) # gs'"
    using Cons.prems(4) f(2) by (auto split: prod.splits)
  have "copied t x h (v1, h1)"
    using Cons.prems(1) [of n t] Cons.prems(2) f(1,3) c(1) unfolding deep_copier_def by (metis list.set_intros(1))
  then obtain U where h1: "heap_ok h1" "grows h h1" "go_view t h1 v1 = Some (x, U)" "\<forall>a\<in>U. hp_next h \<le> a"
    by (rule copiedE)
  have "view_fields (map (\<lambda>(n, t). (n, go_view t h1)) ts) gs = Some (ys, T)"
  proof (rule view_fields_frame [OF f(4)])
    show "agree T h h1"
      by (rule grows_agree [OF h1(2) Cons.prems(2) view_fields_mapped [OF f(4) view_mapped]])
  qed (rule view_frame)
  then obtain V where IH: "heap_ok h'" "grows h1 h'"
      "view_fields (map (\<lambda>(n, t). (n, go_view t h')) ts) gs' = Some (ys, V)" "\<forall>a\<in>V. hp_next h1 \<le> a"
    using Cons.IH [OF _ h1(1) _ c(2)] Cons.prems(1) by auto
  have "go_view t h' v1 = Some (x, U)" by (rule view_grows [OF h1(3) IH(2) h1(1)])
  moreover have "hp_next h \<le> hp_next h1" using h1(2) by (simp add: grows_def)
  ultimately show ?case
    using IH h1 c(3) f(1,5) grows_trans [OF h1(2) IH(2)] by (auto intro: order_trans)
qed

lemma deep_struct_copy:
  assumes "\<And>n t. (n, t) \<in> set ts \<Longrightarrow> deep_copier t (field_copier cs n)"
  shows "deep_copier (TStruct ts) (struct_copy cs)"
  unfolding deep_copier_def
proof (intro allI impI)
  fix h v x R assume ok: "heap_ok h" and v: "go_view (TStruct ts) h v = Some (x, R)"
  then obtain fs xs where *: "v = Struct fs" "x = Node xs"
      "view_fields (map (\<lambda>(n, t). (n, go_view t h)) ts) fs = Some (xs, R)"
    unfolding view_struct_fields by (auto split: val.splits)
  obtain fs' h' where c: "fields_copy cs fs h = (fs', h')" by force
  show "copied (TStruct ts) x h (struct_copy cs v h)"
    using fields_copied [OF assms ok *(3) c] unfolding copied_def view_struct_fields
    by (auto simp: struct_copy_def * c)
qed

text \<open>
  Afterwards the original and its copy are independent: whatever is written to the cells of one
  of them, the other reads as before.
\<close>

definition write_all :: "(nat \<times> cell) list \<Rightarrow> go_heap \<Rightarrow> go_heap" where
  "write_all ws h = fold (\<lambda>(a, c). write_cell a c) ws h"

lemma write_all_other:
  "a \<notin> fst ` set ws \<Longrightarrow> hp_cells (write_all ws h) a = hp_cells h a"
  unfolding write_all_def
  by (induction ws arbitrary: h) (auto simp: write_cell_def)

lemma deep_copy_isolates:
  assumes "deep_copier t c" "heap_ok h" "go_view t h v = Some (x, R)" "c v h = (v', h')"
  shows "\<forall>a\<in>fst ` set ws. hp_next h \<le> a \<Longrightarrow> go_view t (write_all ws h') v = Some (x, R)"
    and "\<forall>a\<in>fst ` set ws. a < hp_next h \<Longrightarrow> \<exists>R'. go_view t (write_all ws h') v' = Some (x, R')"
proof -
  have "copied t x h (v', h')" using assms unfolding deep_copier_def by metis
  then obtain T where h': "heap_ok h'" "grows h h'" "go_view t h' v' = Some (x, T)" "\<forall>a\<in>T. hp_next h \<le> a"
    by (rule copiedE)
  have R: "\<forall>a\<in>R. a < hp_next h" using mapped_old [OF view_mapped [OF assms(3)] assms(2)] by blast
  show "go_view t (write_all ws h') v = Some (x, R)" if "\<forall>a\<in>fst ` set ws. hp_next h \<le> a"
  proof (rule view_frame [OF view_grows [OF assms(3) h'(2) assms(2)]])
    show "agree R h' (write_all ws h')"
      using R that unfolding agree_def by (metis write_all_other linorder_not_less)
  qed
  show "\<exists>R'. go_view t (write_all ws h') v' = Some (x, R')" if "\<forall>a\<in>fst ` set ws. a < hp_next h"
  proof -
    have "agree T h' (write_all ws h')"
      using h'(4) that unfolding agree_def by (metis write_all_other linorder_not_less)
    then show ?thesis using view_frame [OF h'(3)] by blast
  qed
qed

section \<open>Readings in parts\<close>

lemma view_iffs:
  "go_view TPrim h v = Some (x, R) \<longleftrightarrow> (\<exists>p. v = Prim p \<and> x = Leaf p \<and> R = {})"
  "go_view (TPtr t) h v = Some (x, R) \<longleftrightarrow>
     v = Ptr None \<and> x = Nil \<and> R = {} \<or>
     (\<exists>a y z S. v = Ptr (Some a) \<and> hp_cells h a = Some (Vals [y]) \<and> go_view t h y = Some (z, S) \<and>
        x = Target z \<and> R = insert a S)"
  "go_view (TSlice t) h v = Some (x, R) \<longleftrightarrow>
     v = Slice None \<and> x = Nil \<and> R = {} \<or>
     (\<exists>a i n vs zs S. v = Slice (Some (a, i, n)) \<and> hp_cells h a = Some (Vals vs) \<and> i + n \<le> length vs \<and>
        view_all (go_view t h) (slice_vals i n vs) = Some (zs, S) \<and> x = Elems zs \<and> R = insert a S)"
  "go_view (TDict t) h v = Some (x, R) \<longleftrightarrow>
     v = Dict None \<and> x = Nil \<and> R = {} \<or>
     (\<exists>a es zs S. v = Dict (Some a) \<and> hp_cells h a = Some (Entries es) \<and>
        view_all (go_view t h) (map snd es) = Some (zs, S) \<and> x = Keys (zip (map fst es) zs) \<and> R = insert a S)"
  by (auto simp: at_cell_Some split: val.splits option.splits cell.splits list.splits if_splits)

lemma view_all_Cons_iff:
  "view_all f (v # vs) = Some (xs, R) \<longleftrightarrow>
     (\<exists>y S ys T. f v = Some (y, S) \<and> view_all f vs = Some (ys, T) \<and> xs = y # ys \<and> R = S \<union> T)"
  by (auto split: option.splits)

declare go_view.simps [simp del] view_all.simps(2) [simp del]
declare view_iffs [simp] view_all_Cons_iff [simp]

end
