(* ===== verification/Deep_Copy.thy ===== *)
theory Deep_Copy
  imports Go_Memory
begin

text \<open>
  \<open>api/v1alpha1/zz_generated.deepcopy.go\<close>: for each Go struct of the API its type, with the fields
  in the order of the declaration, and the two or three functions that copy it. An \<open>_into\<close> is
  the \<open>DeepCopyInto\<close> of the struct, as the value that \<open>*out\<close> gets when \<open>out\<close> is not part of \<open>in\<close>; a
  \<open>_copy\<close> is \<open>DeepCopy\<close> and an \<open>_object\<close> is \<open>DeepCopyObject\<close>. Each \<open>_into\<close> is a deep
  copy of its type, which is proved field by field: a reference that a function forgets is shared, and
  the proof fails.

  The structs of other packages are parameters with their own copies. Instants count as
  primitives, as the \<open>Time\<close> of the library is immutable and documented to be copied by assignment.
\<close>

record go_lib =
  gl_object_meta :: "gty \<times> copier"
  gl_list_meta :: "gty \<times> copier"
  gl_label_selector :: "gty \<times> copier"
  gl_condition :: "gty \<times> copier"
  gl_time :: "gty \<times> copier"
  gl_quantity :: "gty \<times> copier"

definition lib_copies :: "go_lib \<Rightarrow> bool" where
  "lib_copies lib \<longleftrightarrow>
     list_all (\<lambda>(t, c). deep_copier t c)
       [gl_object_meta lib, gl_list_meta lib, gl_label_selector lib, gl_condition lib, gl_time lib, gl_quantity lib]"

lemma lib_copiesD:
  assumes "lib_copies lib"
  shows "deep_copier (fst (gl_object_meta lib)) (snd (gl_object_meta lib))"
    "deep_copier (fst (gl_list_meta lib)) (snd (gl_list_meta lib))"
    "deep_copier (fst (gl_label_selector lib)) (snd (gl_label_selector lib))"
    "deep_copier (fst (gl_condition lib)) (snd (gl_condition lib))"
    "deep_copier (fst (gl_time lib)) (snd (gl_time lib))"
    "deep_copier (fst (gl_quantity lib)) (snd (gl_quantity lib))"
  using assms by (simp_all add: lib_copies_def case_prod_unfold)

definition type_meta_type :: gty where
  "type_meta_type = TStruct [(''Kind'', TPrim), (''APIVersion'', TPrim)]"

lemma plain_type_meta [deep_intros]: "deep_copier type_meta_type plain"
  by (simp add: deep_flat type_meta_type_def)

text \<open>\<open>if c := in.DeepCopy(); c != nil { return c }; return nil\<close>: the interface is nil for nil.\<close>

definition as_object :: "copier \<Rightarrow> val \<Rightarrow> go_heap \<Rightarrow> val option \<times> go_heap" where
  "as_object c v h = (let (v', h1) = c v h in (if v' = Ptr None then None else Some v', h1))"

section \<open>Sleep schedules\<close>

definition workload_selector_type :: gty where
  "workload_selector_type = TStruct
    [(''MatchLabels'', TDict TPrim), (''MatchNames'', TSlice TPrim), (''Types'', TSlice TPrim)]"

definition workload_selector_into :: copier where
  "workload_selector_into = struct_copy
    [(''MatchLabels'', dict_copy plain), (''MatchNames'', slice_copy plain),
     (''Types'', slice_copy plain)]"

definition workload_selector_copy :: copier where
  "workload_selector_copy = new_copy workload_selector_into"

lemma deep_workload_selector [deep_intros]: "deep_copier workload_selector_type workload_selector_into"
  unfolding workload_selector_type_def workload_selector_into_def
  by (rule deep_struct_copy) (auto simp: field_copier_def intro!: deep_intros)

definition sleep_window_type :: gty where
  "sleep_window_type = TStruct
    [(''Start'', TPrim), (''End'', TPrim), (''Timezone'', TPrim), (''Days'', TSlice TPrim)]"

definition sleep_window_into :: copier where
  "sleep_window_into = struct_copy
    [(''Days'', slice_copy plain)]"

definition sleep_window_copy :: copier where
  "sleep_window_copy = new_copy sleep_window_into"

lemma deep_sleep_window [deep_intros]: "deep_copier sleep_window_type sleep_window_into"
  unfolding sleep_window_type_def sleep_window_into_def
  by (rule deep_struct_copy) (auto simp: field_copier_def intro!: deep_intros)

definition managed_workload_type :: gty where
  "managed_workload_type = TStruct
    [(''Kind'', TPrim), (''Name'', TPrim), (''OriginalReplicas'', TPtr TPrim),
     (''OriginalSuspend'', TPtr TPrim), (''OriginalHibernation'', TPtr TPrim),
     (''OriginalNodeSetCounts'', TPtr TPrim)]"

definition managed_workload_into :: copier where
  "managed_workload_into = struct_copy
    [(''OriginalReplicas'', new_copy plain), (''OriginalSuspend'', new_copy plain),
     (''OriginalHibernation'', new_copy plain), (''OriginalNodeSetCounts'', new_copy plain)]"

definition managed_workload_copy :: copier where
  "managed_workload_copy = new_copy managed_workload_into"

lemma deep_managed_workload [deep_intros]: "deep_copier managed_workload_type managed_workload_into"
  unfolding managed_workload_type_def managed_workload_into_def
  by (rule deep_struct_copy) (auto simp: field_copier_def intro!: deep_intros)

definition slumlord_sleep_schedule_spec_type :: gty where
  "slumlord_sleep_schedule_spec_type = TStruct
    [(''Suspend'', TPrim), (''Selector'', workload_selector_type),
     (''Schedule'', TPtr sleep_window_type), (''Schedules'', TSlice sleep_window_type),
     (''ReconcileInterval'', TPtr TPrim)]"

definition slumlord_sleep_schedule_spec_into :: copier where
  "slumlord_sleep_schedule_spec_into = struct_copy
    [(''Selector'', workload_selector_into), (''Schedule'', new_copy sleep_window_into),
     (''Schedules'', slice_copy sleep_window_into), (''ReconcileInterval'', new_copy plain)]"

definition slumlord_sleep_schedule_spec_copy :: copier where
  "slumlord_sleep_schedule_spec_copy = new_copy slumlord_sleep_schedule_spec_into"

lemma deep_slumlord_sleep_schedule_spec [deep_intros]: "deep_copier slumlord_sleep_schedule_spec_type slumlord_sleep_schedule_spec_into"
  unfolding slumlord_sleep_schedule_spec_type_def slumlord_sleep_schedule_spec_into_def
  by (rule deep_struct_copy) (auto simp: field_copier_def intro!: deep_intros)

definition slumlord_sleep_schedule_status_type :: "go_lib \<Rightarrow> gty" where
  "slumlord_sleep_schedule_status_type lib = TStruct
    [(''Sleeping'', TPrim), (''DaysDisplay'', TPrim),
     (''ManagedWorkloads'', TSlice managed_workload_type),
     (''LastTransitionTime'', TPtr (fst (gl_time lib))),
     (''Conditions'', TSlice (fst (gl_condition lib)))]"

definition slumlord_sleep_schedule_status_into :: "go_lib \<Rightarrow> copier" where
  "slumlord_sleep_schedule_status_into lib = struct_copy
    [(''ManagedWorkloads'', slice_copy managed_workload_into),
     (''LastTransitionTime'', new_copy (snd (gl_time lib))),
     (''Conditions'', slice_copy (snd (gl_condition lib)))]"

definition slumlord_sleep_schedule_status_copy :: "go_lib \<Rightarrow> copier" where
  "slumlord_sleep_schedule_status_copy lib = new_copy (slumlord_sleep_schedule_status_into lib)"

lemma deep_slumlord_sleep_schedule_status [deep_intros]:
  assumes "lib_copies lib"
  shows "deep_copier (slumlord_sleep_schedule_status_type lib) (slumlord_sleep_schedule_status_into lib)"
  unfolding slumlord_sleep_schedule_status_type_def slumlord_sleep_schedule_status_into_def
  by (rule deep_struct_copy) (auto simp: field_copier_def intro!: deep_intros lib_copiesD [OF assms] assms)

definition slumlord_sleep_schedule_type :: "go_lib \<Rightarrow> gty" where
  "slumlord_sleep_schedule_type lib = TStruct
    [(''TypeMeta'', type_meta_type), (''ObjectMeta'', fst (gl_object_meta lib)),
     (''Spec'', slumlord_sleep_schedule_spec_type),
     (''Status'', slumlord_sleep_schedule_status_type lib)]"

definition slumlord_sleep_schedule_into :: "go_lib \<Rightarrow> copier" where
  "slumlord_sleep_schedule_into lib = struct_copy
    [(''TypeMeta'', plain), (''ObjectMeta'', snd (gl_object_meta lib)),
     (''Spec'', slumlord_sleep_schedule_spec_into),
     (''Status'', slumlord_sleep_schedule_status_into lib)]"

definition slumlord_sleep_schedule_copy :: "go_lib \<Rightarrow> copier" where
  "slumlord_sleep_schedule_copy lib = new_copy (slumlord_sleep_schedule_into lib)"

definition slumlord_sleep_schedule_object :: "go_lib \<Rightarrow> val \<Rightarrow> go_heap \<Rightarrow> val option \<times> go_heap" where
  "slumlord_sleep_schedule_object lib = as_object (slumlord_sleep_schedule_copy lib)"

lemma deep_slumlord_sleep_schedule [deep_intros]:
  assumes "lib_copies lib"
  shows "deep_copier (slumlord_sleep_schedule_type lib) (slumlord_sleep_schedule_into lib)"
  unfolding slumlord_sleep_schedule_type_def slumlord_sleep_schedule_into_def
  by (rule deep_struct_copy) (auto simp: field_copier_def intro!: deep_intros lib_copiesD [OF assms] assms)

definition slumlord_sleep_schedule_list_type :: "go_lib \<Rightarrow> gty" where
  "slumlord_sleep_schedule_list_type lib = TStruct
    [(''TypeMeta'', type_meta_type), (''ListMeta'', fst (gl_list_meta lib)),
     (''Items'', TSlice (slumlord_sleep_schedule_type lib))]"

definition slumlord_sleep_schedule_list_into :: "go_lib \<Rightarrow> copier" where
  "slumlord_sleep_schedule_list_into lib = struct_copy
    [(''TypeMeta'', plain), (''ListMeta'', snd (gl_list_meta lib)),
     (''Items'', slice_copy (slumlord_sleep_schedule_into lib))]"

definition slumlord_sleep_schedule_list_copy :: "go_lib \<Rightarrow> copier" where
  "slumlord_sleep_schedule_list_copy lib = new_copy (slumlord_sleep_schedule_list_into lib)"

definition slumlord_sleep_schedule_list_object :: "go_lib \<Rightarrow> val \<Rightarrow> go_heap \<Rightarrow> val option \<times> go_heap" where
  "slumlord_sleep_schedule_list_object lib = as_object (slumlord_sleep_schedule_list_copy lib)"

lemma deep_slumlord_sleep_schedule_list [deep_intros]:
  assumes "lib_copies lib"
  shows "deep_copier (slumlord_sleep_schedule_list_type lib) (slumlord_sleep_schedule_list_into lib)"
  unfolding slumlord_sleep_schedule_list_type_def slumlord_sleep_schedule_list_into_def
  by (rule deep_struct_copy) (auto simp: field_copier_def intro!: deep_intros lib_copiesD [OF assms] assms)

section \<open>Auto-schedule policies\<close>

definition auto_schedule_profile_type :: gty where
  "auto_schedule_profile_type = TStruct
    [(''Selector'', workload_selector_type), (''Schedules'', TSlice sleep_window_type),
     (''Suspend'', TPrim)]"

definition auto_schedule_profile_into :: copier where
  "auto_schedule_profile_into = struct_copy
    [(''Selector'', workload_selector_into), (''Schedules'', slice_copy sleep_window_into)]"

definition auto_schedule_profile_copy :: copier where
  "auto_schedule_profile_copy = new_copy auto_schedule_profile_into"

lemma deep_auto_schedule_profile [deep_intros]: "deep_copier auto_schedule_profile_type auto_schedule_profile_into"
  unfolding auto_schedule_profile_type_def auto_schedule_profile_into_def
  by (rule deep_struct_copy) (auto simp: field_copier_def intro!: deep_intros)

definition missing_profile_type :: gty where
  "missing_profile_type = TStruct
    [(''Namespace'', TPrim), (''Profile'', TPrim)]"

definition missing_profile_into :: copier where
  "missing_profile_into = struct_copy []"

definition missing_profile_copy :: copier where
  "missing_profile_copy = new_copy missing_profile_into"

lemma plain_missing_profile [deep_intros]: "deep_copier missing_profile_type plain"
  by (simp add: deep_flat missing_profile_type_def)

lemma deep_missing_profile [deep_intros]: "deep_copier missing_profile_type missing_profile_into"
  unfolding missing_profile_type_def missing_profile_into_def
  by (rule deep_struct_copy) (auto simp: field_copier_def intro!: deep_intros)

definition namespace_conflict_type :: gty where
  "namespace_conflict_type = TStruct
    [(''Namespace'', TPrim), (''Reason'', TPrim), (''WithPolicies'', TSlice TPrim),
     (''Message'', TPrim)]"

definition namespace_conflict_into :: copier where
  "namespace_conflict_into = struct_copy
    [(''WithPolicies'', slice_copy plain)]"

definition namespace_conflict_copy :: copier where
  "namespace_conflict_copy = new_copy namespace_conflict_into"

lemma deep_namespace_conflict [deep_intros]: "deep_copier namespace_conflict_type namespace_conflict_into"
  unfolding namespace_conflict_type_def namespace_conflict_into_def
  by (rule deep_struct_copy) (auto simp: field_copier_def intro!: deep_intros)

definition slumlord_auto_schedule_policy_spec_type :: "go_lib \<Rightarrow> gty" where
  "slumlord_auto_schedule_policy_spec_type lib = TStruct
    [(''Suspend'', TPrim), (''NamespaceSelector'', TPtr (fst (gl_label_selector lib))),
     (''ProfileLabel'', TPrim), (''Profiles'', TDict auto_schedule_profile_type),
     (''GeneratedName'', TPrim), (''ReconcileInterval'', TPtr TPrim)]"

definition slumlord_auto_schedule_policy_spec_into :: "go_lib \<Rightarrow> copier" where
  "slumlord_auto_schedule_policy_spec_into lib = struct_copy
    [(''NamespaceSelector'', new_copy (snd (gl_label_selector lib))),
     (''Profiles'', dict_copy (value_copy auto_schedule_profile_into)),
     (''ReconcileInterval'', new_copy plain)]"

definition slumlord_auto_schedule_policy_spec_copy :: "go_lib \<Rightarrow> copier" where
  "slumlord_auto_schedule_policy_spec_copy lib = new_copy (slumlord_auto_schedule_policy_spec_into lib)"

lemma deep_slumlord_auto_schedule_policy_spec [deep_intros]:
  assumes "lib_copies lib"
  shows "deep_copier (slumlord_auto_schedule_policy_spec_type lib) (slumlord_auto_schedule_policy_spec_into lib)"
  unfolding slumlord_auto_schedule_policy_spec_type_def slumlord_auto_schedule_policy_spec_into_def
  by (rule deep_struct_copy) (auto simp: field_copier_def intro!: deep_intros lib_copiesD [OF assms] assms)

definition slumlord_auto_schedule_policy_status_type :: "go_lib \<Rightarrow> gty" where
  "slumlord_auto_schedule_policy_status_type lib = TStruct
    [(''ObservedGeneration'', TPrim), (''MatchedNamespaces'', TPrim),
     (''GeneratedSchedules'', TPrim), (''Conflicts'', TSlice namespace_conflict_type),
     (''MissingProfiles'', TSlice missing_profile_type),
     (''Conditions'', TSlice (fst (gl_condition lib)))]"

definition slumlord_auto_schedule_policy_status_into :: "go_lib \<Rightarrow> copier" where
  "slumlord_auto_schedule_policy_status_into lib = struct_copy
    [(''Conflicts'', slice_copy namespace_conflict_into), (''MissingProfiles'', slice_copy plain),
     (''Conditions'', slice_copy (snd (gl_condition lib)))]"

definition slumlord_auto_schedule_policy_status_copy :: "go_lib \<Rightarrow> copier" where
  "slumlord_auto_schedule_policy_status_copy lib = new_copy (slumlord_auto_schedule_policy_status_into lib)"

lemma deep_slumlord_auto_schedule_policy_status [deep_intros]:
  assumes "lib_copies lib"
  shows "deep_copier (slumlord_auto_schedule_policy_status_type lib) (slumlord_auto_schedule_policy_status_into lib)"
  unfolding slumlord_auto_schedule_policy_status_type_def slumlord_auto_schedule_policy_status_into_def
  by (rule deep_struct_copy) (auto simp: field_copier_def intro!: deep_intros lib_copiesD [OF assms] assms)

definition slumlord_auto_schedule_policy_type :: "go_lib \<Rightarrow> gty" where
  "slumlord_auto_schedule_policy_type lib = TStruct
    [(''TypeMeta'', type_meta_type), (''ObjectMeta'', fst (gl_object_meta lib)),
     (''Spec'', slumlord_auto_schedule_policy_spec_type lib),
     (''Status'', slumlord_auto_schedule_policy_status_type lib)]"

definition slumlord_auto_schedule_policy_into :: "go_lib \<Rightarrow> copier" where
  "slumlord_auto_schedule_policy_into lib = struct_copy
    [(''TypeMeta'', plain), (''ObjectMeta'', snd (gl_object_meta lib)),
     (''Spec'', slumlord_auto_schedule_policy_spec_into lib),
     (''Status'', slumlord_auto_schedule_policy_status_into lib)]"

definition slumlord_auto_schedule_policy_copy :: "go_lib \<Rightarrow> copier" where
  "slumlord_auto_schedule_policy_copy lib = new_copy (slumlord_auto_schedule_policy_into lib)"

definition slumlord_auto_schedule_policy_object :: "go_lib \<Rightarrow> val \<Rightarrow> go_heap \<Rightarrow> val option \<times> go_heap" where
  "slumlord_auto_schedule_policy_object lib = as_object (slumlord_auto_schedule_policy_copy lib)"

lemma deep_slumlord_auto_schedule_policy [deep_intros]:
  assumes "lib_copies lib"
  shows "deep_copier (slumlord_auto_schedule_policy_type lib) (slumlord_auto_schedule_policy_into lib)"
  unfolding slumlord_auto_schedule_policy_type_def slumlord_auto_schedule_policy_into_def
  by (rule deep_struct_copy) (auto simp: field_copier_def intro!: deep_intros lib_copiesD [OF assms] assms)

definition slumlord_auto_schedule_policy_list_type :: "go_lib \<Rightarrow> gty" where
  "slumlord_auto_schedule_policy_list_type lib = TStruct
    [(''TypeMeta'', type_meta_type), (''ListMeta'', fst (gl_list_meta lib)),
     (''Items'', TSlice (slumlord_auto_schedule_policy_type lib))]"

definition slumlord_auto_schedule_policy_list_into :: "go_lib \<Rightarrow> copier" where
  "slumlord_auto_schedule_policy_list_into lib = struct_copy
    [(''TypeMeta'', plain), (''ListMeta'', snd (gl_list_meta lib)),
     (''Items'', slice_copy (slumlord_auto_schedule_policy_into lib))]"

definition slumlord_auto_schedule_policy_list_copy :: "go_lib \<Rightarrow> copier" where
  "slumlord_auto_schedule_policy_list_copy lib = new_copy (slumlord_auto_schedule_policy_list_into lib)"

definition slumlord_auto_schedule_policy_list_object :: "go_lib \<Rightarrow> val \<Rightarrow> go_heap \<Rightarrow> val option \<times> go_heap" where
  "slumlord_auto_schedule_policy_list_object lib = as_object (slumlord_auto_schedule_policy_list_copy lib)"

lemma deep_slumlord_auto_schedule_policy_list [deep_intros]:
  assumes "lib_copies lib"
  shows "deep_copier (slumlord_auto_schedule_policy_list_type lib) (slumlord_auto_schedule_policy_list_into lib)"
  unfolding slumlord_auto_schedule_policy_list_type_def slumlord_auto_schedule_policy_list_into_def
  by (rule deep_struct_copy) (auto simp: field_copier_def intro!: deep_intros lib_copiesD [OF assms] assms)

section \<open>Bin packers\<close>

definition bin_packer_thresholds_type :: gty where
  "bin_packer_thresholds_type = TStruct
    [(''CPURequestPercent'', TPtr TPrim), (''MemoryRequestPercent'', TPtr TPrim)]"

definition bin_packer_thresholds_into :: copier where
  "bin_packer_thresholds_into = struct_copy
    [(''CPURequestPercent'', new_copy plain), (''MemoryRequestPercent'', new_copy plain)]"

definition bin_packer_thresholds_copy :: copier where
  "bin_packer_thresholds_copy = new_copy bin_packer_thresholds_into"

lemma deep_bin_packer_thresholds [deep_intros]: "deep_copier bin_packer_thresholds_type bin_packer_thresholds_into"
  unfolding bin_packer_thresholds_type_def bin_packer_thresholds_into_def
  by (rule deep_struct_copy) (auto simp: field_copier_def intro!: deep_intros)

definition candidate_node_type :: gty where
  "candidate_node_type = TStruct
    [(''Name'', TPrim), (''CPURequestPercent'', TPrim), (''MemoryRequestPercent'', TPrim),
     (''PodCount'', TPrim)]"

definition candidate_node_into :: copier where
  "candidate_node_into = struct_copy []"

definition candidate_node_copy :: copier where
  "candidate_node_copy = new_copy candidate_node_into"

lemma plain_candidate_node [deep_intros]: "deep_copier candidate_node_type plain"
  by (simp add: deep_flat candidate_node_type_def)

lemma deep_candidate_node [deep_intros]: "deep_copier candidate_node_type candidate_node_into"
  unfolding candidate_node_type_def candidate_node_into_def
  by (rule deep_struct_copy) (auto simp: field_copier_def intro!: deep_intros)

definition planned_eviction_type :: gty where
  "planned_eviction_type = TStruct
    [(''PodName'', TPrim), (''Namespace'', TPrim), (''SourceNode'', TPrim), (''TargetNode'', TPrim),
     (''Reason'', TPrim)]"

definition planned_eviction_into :: copier where
  "planned_eviction_into = struct_copy []"

definition planned_eviction_copy :: copier where
  "planned_eviction_copy = new_copy planned_eviction_into"

lemma plain_planned_eviction [deep_intros]: "deep_copier planned_eviction_type plain"
  by (simp add: deep_flat planned_eviction_type_def)

lemma deep_planned_eviction [deep_intros]: "deep_copier planned_eviction_type planned_eviction_into"
  unfolding planned_eviction_type_def planned_eviction_into_def
  by (rule deep_struct_copy) (auto simp: field_copier_def intro!: deep_intros)

definition slumlord_bin_packer_spec_type :: gty where
  "slumlord_bin_packer_spec_type = TStruct
    [(''Action'', TPrim), (''NodeSelector'', TDict TPrim), (''Namespaces'', TSlice TPrim),
     (''ExcludeNamespaces'', TSlice TPrim), (''Thresholds'', bin_packer_thresholds_type),
     (''Schedule'', TPtr sleep_window_type), (''MaxEvictionsPerCycle'', TPtr TPrim),
     (''DryRun'', TPrim), (''ReconcileInterval'', TPtr TPrim)]"

definition slumlord_bin_packer_spec_into :: copier where
  "slumlord_bin_packer_spec_into = struct_copy
    [(''NodeSelector'', dict_copy plain), (''Namespaces'', slice_copy plain),
     (''ExcludeNamespaces'', slice_copy plain), (''Thresholds'', bin_packer_thresholds_into),
     (''Schedule'', new_copy sleep_window_into), (''MaxEvictionsPerCycle'', new_copy plain),
     (''ReconcileInterval'', new_copy plain)]"

definition slumlord_bin_packer_spec_copy :: copier where
  "slumlord_bin_packer_spec_copy = new_copy slumlord_bin_packer_spec_into"

lemma deep_slumlord_bin_packer_spec [deep_intros]: "deep_copier slumlord_bin_packer_spec_type slumlord_bin_packer_spec_into"
  unfolding slumlord_bin_packer_spec_type_def slumlord_bin_packer_spec_into_def
  by (rule deep_struct_copy) (auto simp: field_copier_def intro!: deep_intros)

definition slumlord_bin_packer_status_type :: "go_lib \<Rightarrow> gty" where
  "slumlord_bin_packer_status_type lib = TStruct
    [(''CandidateNodes'', TSlice candidate_node_type), (''CandidateNodeCount'', TPrim),
     (''ConsolidationPlan'', TSlice planned_eviction_type),
     (''LastAnalysisTime'', TPtr (fst (gl_time lib))),
     (''LastConsolidationTime'', TPtr (fst (gl_time lib))), (''NodesAnalyzed'', TPrim),
     (''PodsEvictedThisCycle'', TPrim), (''TotalPodsEvicted'', TPrim)]"

definition slumlord_bin_packer_status_into :: "go_lib \<Rightarrow> copier" where
  "slumlord_bin_packer_status_into lib = struct_copy
    [(''CandidateNodes'', slice_copy plain), (''ConsolidationPlan'', slice_copy plain),
     (''LastAnalysisTime'', new_copy (snd (gl_time lib))),
     (''LastConsolidationTime'', new_copy (snd (gl_time lib)))]"

definition slumlord_bin_packer_status_copy :: "go_lib \<Rightarrow> copier" where
  "slumlord_bin_packer_status_copy lib = new_copy (slumlord_bin_packer_status_into lib)"

lemma deep_slumlord_bin_packer_status [deep_intros]:
  assumes "lib_copies lib"
  shows "deep_copier (slumlord_bin_packer_status_type lib) (slumlord_bin_packer_status_into lib)"
  unfolding slumlord_bin_packer_status_type_def slumlord_bin_packer_status_into_def
  by (rule deep_struct_copy) (auto simp: field_copier_def intro!: deep_intros lib_copiesD [OF assms] assms)

definition slumlord_bin_packer_type :: "go_lib \<Rightarrow> gty" where
  "slumlord_bin_packer_type lib = TStruct
    [(''TypeMeta'', type_meta_type), (''ObjectMeta'', fst (gl_object_meta lib)),
     (''Spec'', slumlord_bin_packer_spec_type), (''Status'', slumlord_bin_packer_status_type lib)]"

definition slumlord_bin_packer_into :: "go_lib \<Rightarrow> copier" where
  "slumlord_bin_packer_into lib = struct_copy
    [(''TypeMeta'', plain), (''ObjectMeta'', snd (gl_object_meta lib)),
     (''Spec'', slumlord_bin_packer_spec_into), (''Status'', slumlord_bin_packer_status_into lib)]"

definition slumlord_bin_packer_copy :: "go_lib \<Rightarrow> copier" where
  "slumlord_bin_packer_copy lib = new_copy (slumlord_bin_packer_into lib)"

definition slumlord_bin_packer_object :: "go_lib \<Rightarrow> val \<Rightarrow> go_heap \<Rightarrow> val option \<times> go_heap" where
  "slumlord_bin_packer_object lib = as_object (slumlord_bin_packer_copy lib)"

lemma deep_slumlord_bin_packer [deep_intros]:
  assumes "lib_copies lib"
  shows "deep_copier (slumlord_bin_packer_type lib) (slumlord_bin_packer_into lib)"
  unfolding slumlord_bin_packer_type_def slumlord_bin_packer_into_def
  by (rule deep_struct_copy) (auto simp: field_copier_def intro!: deep_intros lib_copiesD [OF assms] assms)

definition slumlord_bin_packer_list_type :: "go_lib \<Rightarrow> gty" where
  "slumlord_bin_packer_list_type lib = TStruct
    [(''TypeMeta'', type_meta_type), (''ListMeta'', fst (gl_list_meta lib)),
     (''Items'', TSlice (slumlord_bin_packer_type lib))]"

definition slumlord_bin_packer_list_into :: "go_lib \<Rightarrow> copier" where
  "slumlord_bin_packer_list_into lib = struct_copy
    [(''TypeMeta'', plain), (''ListMeta'', snd (gl_list_meta lib)),
     (''Items'', slice_copy (slumlord_bin_packer_into lib))]"

definition slumlord_bin_packer_list_copy :: "go_lib \<Rightarrow> copier" where
  "slumlord_bin_packer_list_copy lib = new_copy (slumlord_bin_packer_list_into lib)"

definition slumlord_bin_packer_list_object :: "go_lib \<Rightarrow> val \<Rightarrow> go_heap \<Rightarrow> val option \<times> go_heap" where
  "slumlord_bin_packer_list_object lib = as_object (slumlord_bin_packer_list_copy lib)"

lemma deep_slumlord_bin_packer_list [deep_intros]:
  assumes "lib_copies lib"
  shows "deep_copier (slumlord_bin_packer_list_type lib) (slumlord_bin_packer_list_into lib)"
  unfolding slumlord_bin_packer_list_type_def slumlord_bin_packer_list_into_def
  by (rule deep_struct_copy) (auto simp: field_copier_def intro!: deep_intros lib_copiesD [OF assms] assms)

section \<open>Node drain policies\<close>

definition drain_config_type :: gty where
  "drain_config_type = TStruct
    [(''GracePeriodSeconds'', TPtr TPrim), (''TimeoutSeconds'', TPtr TPrim),
     (''DeleteEmptyDirData'', TPrim), (''IgnoreDaemonSets'', TPtr TPrim),
     (''DeleteNodeAfterDrain'', TPrim), (''PodSelector'', TDict TPrim)]"

definition drain_config_into :: copier where
  "drain_config_into = struct_copy
    [(''GracePeriodSeconds'', new_copy plain), (''TimeoutSeconds'', new_copy plain),
     (''IgnoreDaemonSets'', new_copy plain), (''PodSelector'', dict_copy plain)]"

definition drain_config_copy :: copier where
  "drain_config_copy = new_copy drain_config_into"

lemma deep_drain_config [deep_intros]: "deep_copier drain_config_type drain_config_into"
  unfolding drain_config_type_def drain_config_into_def
  by (rule deep_struct_copy) (auto simp: field_copier_def intro!: deep_intros)

definition drain_node_result_type :: gty where
  "drain_node_result_type = TStruct
    [(''Name'', TPrim), (''CPURequestPercent'', TPrim), (''MemoryRequestPercent'', TPrim),
     (''Action'', TPrim), (''Reason'', TPrim), (''PodsEvicted'', TPrim)]"

definition drain_node_result_into :: copier where
  "drain_node_result_into = struct_copy []"

definition drain_node_result_copy :: copier where
  "drain_node_result_copy = new_copy drain_node_result_into"

lemma plain_drain_node_result [deep_intros]: "deep_copier drain_node_result_type plain"
  by (simp add: deep_flat drain_node_result_type_def)

lemma deep_drain_node_result [deep_intros]: "deep_copier drain_node_result_type drain_node_result_into"
  unfolding drain_node_result_type_def drain_node_result_into_def
  by (rule deep_struct_copy) (auto simp: field_copier_def intro!: deep_intros)

definition drain_run_status_type :: "go_lib \<Rightarrow> gty" where
  "drain_run_status_type lib = TStruct
    [(''StartTime'', fst (gl_time lib)), (''CompletionTime'', TPtr (fst (gl_time lib))),
     (''NodesEvaluated'', TPrim), (''NodesCandidates'', TPrim), (''NodesDrained'', TPrim),
     (''NodesDeleted'', TPrim), (''NodeResults'', TSlice drain_node_result_type)]"

definition drain_run_status_into :: "go_lib \<Rightarrow> copier" where
  "drain_run_status_into lib = struct_copy
    [(''StartTime'', snd (gl_time lib)), (''CompletionTime'', new_copy (snd (gl_time lib))),
     (''NodeResults'', slice_copy plain)]"

definition drain_run_status_copy :: "go_lib \<Rightarrow> copier" where
  "drain_run_status_copy lib = new_copy (drain_run_status_into lib)"

lemma deep_drain_run_status [deep_intros]:
  assumes "lib_copies lib"
  shows "deep_copier (drain_run_status_type lib) (drain_run_status_into lib)"
  unfolding drain_run_status_type_def drain_run_status_into_def
  by (rule deep_struct_copy) (auto simp: field_copier_def intro!: deep_intros lib_copiesD [OF assms] assms)

definition drain_safety_type :: gty where
  "drain_safety_type = TStruct
    [(''MaxNodesPerRun'', TPtr TPrim), (''MinReadyNodes'', TPtr TPrim), (''DryRun'', TPrim)]"

definition drain_safety_into :: copier where
  "drain_safety_into = struct_copy
    [(''MaxNodesPerRun'', new_copy plain), (''MinReadyNodes'', new_copy plain)]"

definition drain_safety_copy :: copier where
  "drain_safety_copy = new_copy drain_safety_into"

lemma deep_drain_safety [deep_intros]: "deep_copier drain_safety_type drain_safety_into"
  unfolding drain_safety_type_def drain_safety_into_def
  by (rule deep_struct_copy) (auto simp: field_copier_def intro!: deep_intros)

definition drain_schedule_type :: gty where
  "drain_schedule_type = TStruct
    [(''Cron'', TPrim), (''Timezone'', TPrim)]"

definition drain_schedule_into :: copier where
  "drain_schedule_into = struct_copy []"

definition drain_schedule_copy :: copier where
  "drain_schedule_copy = new_copy drain_schedule_into"

lemma plain_drain_schedule [deep_intros]: "deep_copier drain_schedule_type plain"
  by (simp add: deep_flat drain_schedule_type_def)

lemma deep_drain_schedule [deep_intros]: "deep_copier drain_schedule_type drain_schedule_into"
  unfolding drain_schedule_type_def drain_schedule_into_def
  by (rule deep_struct_copy) (auto simp: field_copier_def intro!: deep_intros)

definition drain_thresholds_type :: gty where
  "drain_thresholds_type = TStruct
    [(''CPURequestPercent'', TPtr TPrim), (''MemoryRequestPercent'', TPtr TPrim)]"

definition drain_thresholds_into :: copier where
  "drain_thresholds_into = struct_copy
    [(''CPURequestPercent'', new_copy plain), (''MemoryRequestPercent'', new_copy plain)]"

definition drain_thresholds_copy :: copier where
  "drain_thresholds_copy = new_copy drain_thresholds_into"

lemma deep_drain_thresholds [deep_intros]: "deep_copier drain_thresholds_type drain_thresholds_into"
  unfolding drain_thresholds_type_def drain_thresholds_into_def
  by (rule deep_struct_copy) (auto simp: field_copier_def intro!: deep_intros)

definition slumlord_node_drain_policy_spec_type :: gty where
  "slumlord_node_drain_policy_spec_type = TStruct
    [(''NodeSelector'', TDict TPrim), (''Thresholds'', drain_thresholds_type),
     (''Schedule'', drain_schedule_type), (''Drain'', drain_config_type),
     (''Safety'', drain_safety_type), (''Suspend'', TPrim), (''ReconcileInterval'', TPtr TPrim)]"

definition slumlord_node_drain_policy_spec_into :: copier where
  "slumlord_node_drain_policy_spec_into = struct_copy
    [(''NodeSelector'', dict_copy plain), (''Thresholds'', drain_thresholds_into),
     (''Schedule'', plain), (''Drain'', drain_config_into), (''Safety'', drain_safety_into),
     (''ReconcileInterval'', new_copy plain)]"

definition slumlord_node_drain_policy_spec_copy :: copier where
  "slumlord_node_drain_policy_spec_copy = new_copy slumlord_node_drain_policy_spec_into"

lemma deep_slumlord_node_drain_policy_spec [deep_intros]: "deep_copier slumlord_node_drain_policy_spec_type slumlord_node_drain_policy_spec_into"
  unfolding slumlord_node_drain_policy_spec_type_def slumlord_node_drain_policy_spec_into_def
  by (rule deep_struct_copy) (auto simp: field_copier_def intro!: deep_intros)

definition slumlord_node_drain_policy_status_type :: "go_lib \<Rightarrow> gty" where
  "slumlord_node_drain_policy_status_type lib = TStruct
    [(''Conditions'', TSlice (fst (gl_condition lib))),
     (''LastRun'', TPtr (drain_run_status_type lib)), (''NextRun'', TPtr (fst (gl_time lib))),
     (''TotalNodesDrained'', TPrim)]"

definition slumlord_node_drain_policy_status_into :: "go_lib \<Rightarrow> copier" where
  "slumlord_node_drain_policy_status_into lib = struct_copy
    [(''Conditions'', slice_copy (snd (gl_condition lib))),
     (''LastRun'', new_copy (drain_run_status_into lib)),
     (''NextRun'', new_copy (snd (gl_time lib)))]"

definition slumlord_node_drain_policy_status_copy :: "go_lib \<Rightarrow> copier" where
  "slumlord_node_drain_policy_status_copy lib = new_copy (slumlord_node_drain_policy_status_into lib)"

lemma deep_slumlord_node_drain_policy_status [deep_intros]:
  assumes "lib_copies lib"
  shows "deep_copier (slumlord_node_drain_policy_status_type lib) (slumlord_node_drain_policy_status_into lib)"
  unfolding slumlord_node_drain_policy_status_type_def slumlord_node_drain_policy_status_into_def
  by (rule deep_struct_copy) (auto simp: field_copier_def intro!: deep_intros lib_copiesD [OF assms] assms)

definition slumlord_node_drain_policy_type :: "go_lib \<Rightarrow> gty" where
  "slumlord_node_drain_policy_type lib = TStruct
    [(''TypeMeta'', type_meta_type), (''ObjectMeta'', fst (gl_object_meta lib)),
     (''Spec'', slumlord_node_drain_policy_spec_type),
     (''Status'', slumlord_node_drain_policy_status_type lib)]"

definition slumlord_node_drain_policy_into :: "go_lib \<Rightarrow> copier" where
  "slumlord_node_drain_policy_into lib = struct_copy
    [(''TypeMeta'', plain), (''ObjectMeta'', snd (gl_object_meta lib)),
     (''Spec'', slumlord_node_drain_policy_spec_into),
     (''Status'', slumlord_node_drain_policy_status_into lib)]"

definition slumlord_node_drain_policy_copy :: "go_lib \<Rightarrow> copier" where
  "slumlord_node_drain_policy_copy lib = new_copy (slumlord_node_drain_policy_into lib)"

definition slumlord_node_drain_policy_object :: "go_lib \<Rightarrow> val \<Rightarrow> go_heap \<Rightarrow> val option \<times> go_heap" where
  "slumlord_node_drain_policy_object lib = as_object (slumlord_node_drain_policy_copy lib)"

lemma deep_slumlord_node_drain_policy [deep_intros]:
  assumes "lib_copies lib"
  shows "deep_copier (slumlord_node_drain_policy_type lib) (slumlord_node_drain_policy_into lib)"
  unfolding slumlord_node_drain_policy_type_def slumlord_node_drain_policy_into_def
  by (rule deep_struct_copy) (auto simp: field_copier_def intro!: deep_intros lib_copiesD [OF assms] assms)

definition slumlord_node_drain_policy_list_type :: "go_lib \<Rightarrow> gty" where
  "slumlord_node_drain_policy_list_type lib = TStruct
    [(''TypeMeta'', type_meta_type), (''ListMeta'', fst (gl_list_meta lib)),
     (''Items'', TSlice (slumlord_node_drain_policy_type lib))]"

definition slumlord_node_drain_policy_list_into :: "go_lib \<Rightarrow> copier" where
  "slumlord_node_drain_policy_list_into lib = struct_copy
    [(''TypeMeta'', plain), (''ListMeta'', snd (gl_list_meta lib)),
     (''Items'', slice_copy (slumlord_node_drain_policy_into lib))]"

definition slumlord_node_drain_policy_list_copy :: "go_lib \<Rightarrow> copier" where
  "slumlord_node_drain_policy_list_copy lib = new_copy (slumlord_node_drain_policy_list_into lib)"

definition slumlord_node_drain_policy_list_object :: "go_lib \<Rightarrow> val \<Rightarrow> go_heap \<Rightarrow> val option \<times> go_heap" where
  "slumlord_node_drain_policy_list_object lib = as_object (slumlord_node_drain_policy_list_copy lib)"

lemma deep_slumlord_node_drain_policy_list [deep_intros]:
  assumes "lib_copies lib"
  shows "deep_copier (slumlord_node_drain_policy_list_type lib) (slumlord_node_drain_policy_list_into lib)"
  unfolding slumlord_node_drain_policy_list_type_def slumlord_node_drain_policy_list_into_def
  by (rule deep_struct_copy) (auto simp: field_copier_def intro!: deep_intros lib_copiesD [OF assms] assms)

section \<open>Idle detectors\<close>

definition idle_thresholds_type :: gty where
  "idle_thresholds_type = TStruct
    [(''CPUPercent'', TPtr TPrim), (''MemoryPercent'', TPtr TPrim)]"

definition idle_thresholds_into :: copier where
  "idle_thresholds_into = struct_copy
    [(''CPUPercent'', new_copy plain), (''MemoryPercent'', new_copy plain)]"

definition idle_thresholds_copy :: copier where
  "idle_thresholds_copy = new_copy idle_thresholds_into"

lemma deep_idle_thresholds [deep_intros]: "deep_copier idle_thresholds_type idle_thresholds_into"
  unfolding idle_thresholds_type_def idle_thresholds_into_def
  by (rule deep_struct_copy) (auto simp: field_copier_def intro!: deep_intros)

definition idle_workload_type :: "go_lib \<Rightarrow> gty" where
  "idle_workload_type lib = TStruct
    [(''Kind'', TPrim), (''Name'', TPrim), (''IdleSince'', fst (gl_time lib)),
     (''CurrentCPUPercent'', TPtr TPrim), (''CurrentMemoryPercent'', TPtr TPrim)]"

definition idle_workload_into :: "go_lib \<Rightarrow> copier" where
  "idle_workload_into lib = struct_copy
    [(''IdleSince'', snd (gl_time lib)), (''CurrentCPUPercent'', new_copy plain),
     (''CurrentMemoryPercent'', new_copy plain)]"

definition idle_workload_copy :: "go_lib \<Rightarrow> copier" where
  "idle_workload_copy lib = new_copy (idle_workload_into lib)"

lemma deep_idle_workload [deep_intros]:
  assumes "lib_copies lib"
  shows "deep_copier (idle_workload_type lib) (idle_workload_into lib)"
  unfolding idle_workload_type_def idle_workload_into_def
  by (rule deep_struct_copy) (auto simp: field_copier_def intro!: deep_intros lib_copiesD [OF assms] assms)

definition min_requests_type :: "go_lib \<Rightarrow> gty" where
  "min_requests_type lib = TStruct
    [(''CPU'', TPtr (fst (gl_quantity lib))), (''Memory'', TPtr (fst (gl_quantity lib)))]"

definition min_requests_into :: "go_lib \<Rightarrow> copier" where
  "min_requests_into lib = struct_copy
    [(''CPU'', new_copy (snd (gl_quantity lib))), (''Memory'', new_copy (snd (gl_quantity lib)))]"

definition min_requests_copy :: "go_lib \<Rightarrow> copier" where
  "min_requests_copy lib = new_copy (min_requests_into lib)"

lemma deep_min_requests [deep_intros]:
  assumes "lib_copies lib"
  shows "deep_copier (min_requests_type lib) (min_requests_into lib)"
  unfolding min_requests_type_def min_requests_into_def
  by (rule deep_struct_copy) (auto simp: field_copier_def intro!: deep_intros lib_copiesD [OF assms] assms)

definition resize_config_type :: "go_lib \<Rightarrow> gty" where
  "resize_config_type lib = TStruct
    [(''BufferPercent'', TPtr TPrim), (''MinRequests'', TPtr (min_requests_type lib))]"

definition resize_config_into :: "go_lib \<Rightarrow> copier" where
  "resize_config_into lib = struct_copy
    [(''BufferPercent'', new_copy plain), (''MinRequests'', new_copy (min_requests_into lib))]"

definition resize_config_copy :: "go_lib \<Rightarrow> copier" where
  "resize_config_copy lib = new_copy (resize_config_into lib)"

lemma deep_resize_config [deep_intros]:
  assumes "lib_copies lib"
  shows "deep_copier (resize_config_type lib) (resize_config_into lib)"
  unfolding resize_config_type_def resize_config_into_def
  by (rule deep_struct_copy) (auto simp: field_copier_def intro!: deep_intros lib_copiesD [OF assms] assms)

definition resized_workload_type :: "go_lib \<Rightarrow> gty" where
  "resized_workload_type lib = TStruct
    [(''Kind'', TPrim), (''Name'', TPrim), (''OriginalRequests'', TDict (fst (gl_quantity lib))),
     (''CurrentRequests'', TDict (fst (gl_quantity lib))), (''ResizedAt'', fst (gl_time lib)),
     (''PodCount'', TPrim)]"

definition resized_workload_into :: "go_lib \<Rightarrow> copier" where
  "resized_workload_into lib = struct_copy
    [(''OriginalRequests'', dict_copy (snd (gl_quantity lib))),
     (''CurrentRequests'', dict_copy (snd (gl_quantity lib))), (''ResizedAt'', snd (gl_time lib))]"

definition resized_workload_copy :: "go_lib \<Rightarrow> copier" where
  "resized_workload_copy lib = new_copy (resized_workload_into lib)"

lemma deep_resized_workload [deep_intros]:
  assumes "lib_copies lib"
  shows "deep_copier (resized_workload_type lib) (resized_workload_into lib)"
  unfolding resized_workload_type_def resized_workload_into_def
  by (rule deep_struct_copy) (auto simp: field_copier_def intro!: deep_intros lib_copiesD [OF assms] assms)

definition scaled_workload_type :: "go_lib \<Rightarrow> gty" where
  "scaled_workload_type lib = TStruct
    [(''Kind'', TPrim), (''Name'', TPrim), (''OriginalReplicas'', TPtr TPrim),
     (''OriginalSuspend'', TPtr TPrim), (''ScaledAt'', fst (gl_time lib))]"

definition scaled_workload_into :: "go_lib \<Rightarrow> copier" where
  "scaled_workload_into lib = struct_copy
    [(''OriginalReplicas'', new_copy plain), (''OriginalSuspend'', new_copy plain),
     (''ScaledAt'', snd (gl_time lib))]"

definition scaled_workload_copy :: "go_lib \<Rightarrow> copier" where
  "scaled_workload_copy lib = new_copy (scaled_workload_into lib)"

lemma deep_scaled_workload [deep_intros]:
  assumes "lib_copies lib"
  shows "deep_copier (scaled_workload_type lib) (scaled_workload_into lib)"
  unfolding scaled_workload_type_def scaled_workload_into_def
  by (rule deep_struct_copy) (auto simp: field_copier_def intro!: deep_intros lib_copiesD [OF assms] assms)

definition slumlord_idle_detector_spec_type :: "go_lib \<Rightarrow> gty" where
  "slumlord_idle_detector_spec_type lib = TStruct
    [(''Selector'', workload_selector_type), (''Thresholds'', idle_thresholds_type),
     (''IdleDuration'', TPrim), (''Action'', TPrim), (''Resize'', TPtr (resize_config_type lib)),
     (''ReconcileInterval'', TPtr TPrim)]"

definition slumlord_idle_detector_spec_into :: "go_lib \<Rightarrow> copier" where
  "slumlord_idle_detector_spec_into lib = struct_copy
    [(''Selector'', workload_selector_into), (''Thresholds'', idle_thresholds_into),
     (''Resize'', new_copy (resize_config_into lib)), (''ReconcileInterval'', new_copy plain)]"

definition slumlord_idle_detector_spec_copy :: "go_lib \<Rightarrow> copier" where
  "slumlord_idle_detector_spec_copy lib = new_copy (slumlord_idle_detector_spec_into lib)"

lemma deep_slumlord_idle_detector_spec [deep_intros]:
  assumes "lib_copies lib"
  shows "deep_copier (slumlord_idle_detector_spec_type lib) (slumlord_idle_detector_spec_into lib)"
  unfolding slumlord_idle_detector_spec_type_def slumlord_idle_detector_spec_into_def
  by (rule deep_struct_copy) (auto simp: field_copier_def intro!: deep_intros lib_copiesD [OF assms] assms)

definition slumlord_idle_detector_status_type :: "go_lib \<Rightarrow> gty" where
  "slumlord_idle_detector_status_type lib = TStruct
    [(''IdleWorkloads'', TSlice (idle_workload_type lib)),
     (''ScaledWorkloads'', TSlice (scaled_workload_type lib)),
     (''ResizedWorkloads'', TSlice (resized_workload_type lib)),
     (''LastCheckTime'', TPtr (fst (gl_time lib)))]"

definition slumlord_idle_detector_status_into :: "go_lib \<Rightarrow> copier" where
  "slumlord_idle_detector_status_into lib = struct_copy
    [(''IdleWorkloads'', slice_copy (idle_workload_into lib)),
     (''ScaledWorkloads'', slice_copy (scaled_workload_into lib)),
     (''ResizedWorkloads'', slice_copy (resized_workload_into lib)),
     (''LastCheckTime'', new_copy (snd (gl_time lib)))]"

definition slumlord_idle_detector_status_copy :: "go_lib \<Rightarrow> copier" where
  "slumlord_idle_detector_status_copy lib = new_copy (slumlord_idle_detector_status_into lib)"

lemma deep_slumlord_idle_detector_status [deep_intros]:
  assumes "lib_copies lib"
  shows "deep_copier (slumlord_idle_detector_status_type lib) (slumlord_idle_detector_status_into lib)"
  unfolding slumlord_idle_detector_status_type_def slumlord_idle_detector_status_into_def
  by (rule deep_struct_copy) (auto simp: field_copier_def intro!: deep_intros lib_copiesD [OF assms] assms)

definition slumlord_idle_detector_type :: "go_lib \<Rightarrow> gty" where
  "slumlord_idle_detector_type lib = TStruct
    [(''TypeMeta'', type_meta_type), (''ObjectMeta'', fst (gl_object_meta lib)),
     (''Spec'', slumlord_idle_detector_spec_type lib),
     (''Status'', slumlord_idle_detector_status_type lib)]"

definition slumlord_idle_detector_into :: "go_lib \<Rightarrow> copier" where
  "slumlord_idle_detector_into lib = struct_copy
    [(''TypeMeta'', plain), (''ObjectMeta'', snd (gl_object_meta lib)),
     (''Spec'', slumlord_idle_detector_spec_into lib),
     (''Status'', slumlord_idle_detector_status_into lib)]"

definition slumlord_idle_detector_copy :: "go_lib \<Rightarrow> copier" where
  "slumlord_idle_detector_copy lib = new_copy (slumlord_idle_detector_into lib)"

definition slumlord_idle_detector_object :: "go_lib \<Rightarrow> val \<Rightarrow> go_heap \<Rightarrow> val option \<times> go_heap" where
  "slumlord_idle_detector_object lib = as_object (slumlord_idle_detector_copy lib)"

lemma deep_slumlord_idle_detector [deep_intros]:
  assumes "lib_copies lib"
  shows "deep_copier (slumlord_idle_detector_type lib) (slumlord_idle_detector_into lib)"
  unfolding slumlord_idle_detector_type_def slumlord_idle_detector_into_def
  by (rule deep_struct_copy) (auto simp: field_copier_def intro!: deep_intros lib_copiesD [OF assms] assms)

definition slumlord_idle_detector_list_type :: "go_lib \<Rightarrow> gty" where
  "slumlord_idle_detector_list_type lib = TStruct
    [(''TypeMeta'', type_meta_type), (''ListMeta'', fst (gl_list_meta lib)),
     (''Items'', TSlice (slumlord_idle_detector_type lib))]"

definition slumlord_idle_detector_list_into :: "go_lib \<Rightarrow> copier" where
  "slumlord_idle_detector_list_into lib = struct_copy
    [(''TypeMeta'', plain), (''ListMeta'', snd (gl_list_meta lib)),
     (''Items'', slice_copy (slumlord_idle_detector_into lib))]"

definition slumlord_idle_detector_list_copy :: "go_lib \<Rightarrow> copier" where
  "slumlord_idle_detector_list_copy lib = new_copy (slumlord_idle_detector_list_into lib)"

definition slumlord_idle_detector_list_object :: "go_lib \<Rightarrow> val \<Rightarrow> go_heap \<Rightarrow> val option \<times> go_heap" where
  "slumlord_idle_detector_list_object lib = as_object (slumlord_idle_detector_list_copy lib)"

lemma deep_slumlord_idle_detector_list [deep_intros]:
  assumes "lib_copies lib"
  shows "deep_copier (slumlord_idle_detector_list_type lib) (slumlord_idle_detector_list_into lib)"
  unfolding slumlord_idle_detector_list_type_def slumlord_idle_detector_list_into_def
  by (rule deep_struct_copy) (auto simp: field_copier_def intro!: deep_intros lib_copiesD [OF assms] assms)

section \<open>The objects of the API\<close>

definition api_objects :: "go_lib \<Rightarrow> (gty \<times> (val \<Rightarrow> go_heap \<Rightarrow> val option \<times> go_heap)) list" where
  "api_objects lib =
     [(slumlord_sleep_schedule_type lib, slumlord_sleep_schedule_object lib),
      (slumlord_sleep_schedule_list_type lib, slumlord_sleep_schedule_list_object lib),
      (slumlord_auto_schedule_policy_type lib, slumlord_auto_schedule_policy_object lib),
      (slumlord_auto_schedule_policy_list_type lib, slumlord_auto_schedule_policy_list_object lib),
      (slumlord_bin_packer_type lib, slumlord_bin_packer_object lib),
      (slumlord_bin_packer_list_type lib, slumlord_bin_packer_list_object lib),
      (slumlord_node_drain_policy_type lib, slumlord_node_drain_policy_object lib),
      (slumlord_node_drain_policy_list_type lib, slumlord_node_drain_policy_list_object lib),
      (slumlord_idle_detector_type lib, slumlord_idle_detector_object lib),
      (slumlord_idle_detector_list_type lib, slumlord_idle_detector_list_object lib)]"

definition object_copied :: "gty \<Rightarrow> tree \<Rightarrow> val \<Rightarrow> go_heap \<Rightarrow> val option \<times> go_heap \<Rightarrow> bool" where
  "object_copied t x v h r =
     (case r of
        (None, h') \<Rightarrow> v = Ptr None \<and> h' = h
      | (Some v', h') \<Rightarrow> v \<noteq> Ptr None \<and> copied (TPtr t) x h (v', h'))"

lemma as_object_copies:
  assumes "deep_copier t c" "heap_ok h" "go_view (TPtr t) h v = Some (x, R)"
  shows "object_copied t x v h (as_object (new_copy c) v h)"
proof (cases "v = Ptr None")
  case True
  then show ?thesis by (simp add: as_object_def new_copy_def object_copied_def)
next
  case False
  obtain v' h' where c: "new_copy c v h = (v', h')" by force
  have cp: "copied (TPtr t) x h (v', h')"
    using deep_new_copy [OF assms(1)] assms(2,3) c unfolding deep_copier_def by metis
  have "x \<noteq> Nil" using assms(3) False
    by (auto simp: at_cell_Some split: val.splits option.splits cell.splits list.splits)
  then have "v' \<noteq> Ptr None" using cp by (auto simp: copied_def)
  then show ?thesis using False cp by (simp add: as_object_def c object_copied_def)
qed

lemmas object_defs =
  slumlord_sleep_schedule_object_def slumlord_sleep_schedule_copy_def
  slumlord_sleep_schedule_list_object_def slumlord_sleep_schedule_list_copy_def
  slumlord_auto_schedule_policy_object_def slumlord_auto_schedule_policy_copy_def
  slumlord_auto_schedule_policy_list_object_def slumlord_auto_schedule_policy_list_copy_def
  slumlord_bin_packer_object_def slumlord_bin_packer_copy_def
  slumlord_bin_packer_list_object_def slumlord_bin_packer_list_copy_def
  slumlord_node_drain_policy_object_def slumlord_node_drain_policy_copy_def
  slumlord_node_drain_policy_list_object_def slumlord_node_drain_policy_list_copy_def
  slumlord_idle_detector_object_def slumlord_idle_detector_copy_def
  slumlord_idle_detector_list_object_def slumlord_idle_detector_list_copy_def

lemma api_object_into:
  assumes "lib_copies lib" "(t, obj) \<in> set (api_objects lib)"
  shows "\<exists>c. deep_copier t c \<and> obj = as_object (new_copy c)"
proof -
  have deep: "deep_copier t c \<Longrightarrow> \<exists>c'. deep_copier t c' \<and> as_object (new_copy c) = as_object (new_copy c')"
    for t c by blast
  show ?thesis
    using assms by (auto simp: api_objects_def object_defs intro!: deep deep_intros)
qed

text \<open>
  C23: Every object and list of the API is copied deeply, with its type: the copy reads as the same
  tree, old memory keeps its contents, and every cell that the copy reaches is new, down to the
  last optional number; a nil pointer gives the nil interface and changes nothing.
\<close>

theorem api_objects_copied_deeply:
  assumes "lib_copies lib" "(t, obj) \<in> set (api_objects lib)" "heap_ok h" "go_view (TPtr t) h v = Some (x, R)"
  shows "object_copied t x v h (obj v h)"
  using api_object_into [OF assms(1,2)] as_object_copies [OF _ assms(3,4)] by blast

text \<open>
  C24: The informer cache hands out copies of its objects. What a controller then writes to
  the memory of its copy, status entries or labels, cannot be read through the cached object, and
  no later write to the cached object can be read through the copy.
\<close>

theorem cached_object_isolated:
  assumes "lib_copies lib" "(t, obj) \<in> set (api_objects lib)" "heap_ok h" "go_view (TPtr t) h v = Some (x, R)"
    and "obj v h = (Some v', h')"
  shows "(\<forall>ws. (\<forall>a\<in>fst ` set ws. hp_next h \<le> a) \<longrightarrow> go_view (TPtr t) (write_all ws h') v = Some (x, R)) \<and>
    (\<forall>ws. (\<forall>a\<in>fst ` set ws. a < hp_next h) \<longrightarrow> (\<exists>R'. go_view (TPtr t) (write_all ws h') v' = Some (x, R')))"
proof -
  obtain c where c: "deep_copier t c" "obj = as_object (new_copy c)"
    using api_object_into [OF assms(1,2)] by blast
  then have "new_copy c v h = (v', h')"
    using assms(5) by (auto simp: as_object_def split: prod.splits if_splits)
  from deep_copy_isolates [OF deep_new_copy [OF c(1)] assms(3,4) this] show ?thesis by blast
qed

section \<open>The specification that a policy generates\<close>

text \<open>
  \<open>buildSleepScheduleSpec\<close> in memory: the selector is copied with its method \<open>DeepCopy\<close>, the windows
  with \<open>append\<close> to a nil slice, which copies the structs and nothing behind them, and gives nil
  when there are none.
\<close>

definition append_to_nil :: copier where
  "append_to_nil v h =
     (case v of
        Slice (Some (a, i, n)) \<Rightarrow>
          (case hp_cells h a of
             Some (Vals vs) \<Rightarrow>
               (if n = 0 then (Slice None, h)
                else (let (b, h1) = go_alloc (Vals (slice_vals i n vs)) h in (Slice (Some (b, 0, n)), h1)))
           | _ \<Rightarrow> (v, h))
      | _ \<Rightarrow> (v, h))"

definition field_of :: "string \<Rightarrow> val \<Rightarrow> val" where
  "field_of n v = (case v of Struct fs \<Rightarrow> (case map_of fs n of Some x \<Rightarrow> x | None \<Rightarrow> v) | _ \<Rightarrow> v)"

definition build_sleep_schedule_spec_mem :: copier where
  "build_sleep_schedule_spec_mem p h =
     (let (sel, h1) = value_copy workload_selector_into (field_of ''Selector'' p) h;
          (sch, h2) = append_to_nil (field_of ''Schedules'' p) h1
      in (Struct [(''Suspend'', field_of ''Suspend'' p), (''Selector'', sel), (''Schedule'', Ptr None),
                  (''Schedules'', sch), (''ReconcileInterval'', Ptr None)], h2))"

text \<open>The cells behind the elements of a slice; for the windows of a profile, their lists of days.\<close>

definition slice_cells :: "gty \<Rightarrow> go_heap \<Rightarrow> val \<Rightarrow> nat set" where
  "slice_cells t h v =
     (case v of
        Slice (Some (a, i, n)) \<Rightarrow>
          (case hp_cells h a of
             Some (Vals vs) \<Rightarrow> (case view_all (go_view t h) (slice_vals i n vs) of Some (xs, S) \<Rightarrow> S | None \<Rightarrow> {})
           | _ \<Rightarrow> {})
      | _ \<Rightarrow> {})"

definition days_cells :: "go_heap \<Rightarrow> val \<Rightarrow> nat set" where
  "days_cells h p = slice_cells sleep_window_type h (field_of ''Schedules'' p)"

text \<open>The tree that the generated specification should read as.\<close>

fun generated_tree :: "tree \<Rightarrow> tree" where
  "generated_tree (Node [(_, sel), (_, sch), (_, sus)]) =
     Node [(''Suspend'', sus), (''Selector'', sel), (''Schedule'', Nil),
           (''Schedules'', if sch = Elems [] then Nil else sch), (''ReconcileInterval'', Nil)]"
| "generated_tree x = x"

lemma view_profile:
  assumes "go_view auto_schedule_profile_type h p = Some (x, R)"
  shows "\<exists>sel sch sus x1 R1 x2 R2. p = Struct [(''Selector'', sel), (''Schedules'', sch), (''Suspend'', Prim sus)] \<and>
    go_view workload_selector_type h sel = Some (x1, R1) \<and> go_view (TSlice sleep_window_type) h sch = Some (x2, R2) \<and>
    x = Node [(''Selector'', x1), (''Schedules'', x2), (''Suspend'', Leaf sus)]"
proof -
  obtain fs xs where "p = Struct fs" "x = Node xs" "go_view auto_schedule_profile_type h (Struct fs) = Some (Node xs, R)"
    using assms unfolding auto_schedule_profile_type_def by (rule view_struct_Node)
  then show ?thesis
    unfolding auto_schedule_profile_type_def by auto
qed

lemma slice_cells_grows:
  assumes "heap_ok h" "grows h h'" "go_view (TSlice t) h v = Some (x, R)"
  shows "slice_cells t h' v = slice_cells t h v" "\<forall>a \<in> slice_cells t h v. a < hp_next h"
proof -
  show "slice_cells t h' v = slice_cells t h v"
    using assms(3) view_all_grows [OF _ assms(2,1)] mapped_old [OF view_mapped [OF assms(3)] assms(1)] assms(2)
    by (auto simp: slice_cells_def grows_def)
  show "\<forall>a \<in> slice_cells t h v. a < hp_next h"
    using assms(3) mapped_old [OF view_mapped [OF assms(3)] assms(1)] by (auto simp: slice_cells_def)
qed

lemma append_to_nil_shares:
  assumes "heap_ok h" "go_view (TSlice t) h v = Some (x, R)" "append_to_nil v h = (v', h')"
  shows "heap_ok h' \<and> grows h h' \<and>
    (\<exists>R'. go_view (TSlice t) h' v' = Some (if x = Elems [] then Nil else x, R') \<and>
      {a \<in> R'. a < hp_next h} = slice_cells t h v)"
proof (cases "v = Slice None")
  case True
  then show ?thesis using assms by (auto simp: append_to_nil_def slice_cells_def)
next
  case False
  with assms(2) obtain a i n vs zs S where *: "v = Slice (Some (a, i, n))" "hp_cells h a = Some (Vals vs)"
      "i + n \<le> length vs" "view_all (go_view t h) (slice_vals i n vs) = Some (zs, S)" "x = Elems zs"
    unfolding view_iffs(3) by blast
  show ?thesis
  proof (cases "n = 0")
    case True
    then show ?thesis using assms * by (auto simp: append_to_nil_def slice_vals_def slice_cells_def)
  next
    case n: False
    obtain b h1 where al: "go_alloc (Vals (slice_vals i n vs)) h = (b, h1)" by force
    note h1 = alloc_grows [OF al assms(1)]
    have r: "v' = Slice (Some (b, 0, n))" "h' = h1" using assms(3) * n al by (auto simp: append_to_nil_def)
    have "slice_vals i n vs \<noteq> []" using n *(3) by (auto simp: slice_vals_def)
    then have zs: "zs \<noteq> []" using *(4) by (cases "slice_vals i n vs") auto
    have "go_view (TSlice t) h1 v' = Some (x, insert b S)"
      using view_all_grows [OF *(4) h1(2) assms(1)] h1(3) r *(3,5) by (simp add: slice_vals_def)
    moreover have "mapped S h" by (rule view_all_mapped [OF *(4) view_mapped])
    then have "\<forall>a\<in>S. a < hp_next h" using mapped_old assms(1) by blast
    moreover have "slice_cells t h v = S" using * by (simp add: slice_cells_def)
    ultimately show ?thesis using h1(1,2,4) r(2) zs *(5) by (intro conjI exI [of _ "insert b S"]) auto
  qed
qed

text \<open>
  A generated specification reads as its profile, its selector is independent of the policy,
  but the lists of days of its windows are the very cells of the profile: what the two share is
  exactly these.
\<close>

theorem generated_spec_shares_days:
  assumes "heap_ok h" "go_view auto_schedule_profile_type h p = Some (x, R)"
    and "build_sleep_schedule_spec_mem p h = (v', h')"
  shows "\<exists>R'. go_view slumlord_sleep_schedule_spec_type h' v' = Some (generated_tree x, R') \<and>
    {a \<in> R'. a < hp_next h} = days_cells h p"
proof -
  from view_profile [OF assms(2)] obtain sel sch sus x1 R1 x2 R2 where
    p: "p = Struct [(''Selector'', sel), (''Schedules'', sch), (''Suspend'', Prim sus)]"
      "go_view workload_selector_type h sel = Some (x1, R1)" "go_view (TSlice sleep_window_type) h sch = Some (x2, R2)"
      "x = Node [(''Selector'', x1), (''Schedules'', x2), (''Suspend'', Leaf sus)]"
    by - (elim exE conjE, rule that, assumption+)
  obtain sel' h1 where c1: "value_copy workload_selector_into sel h = (sel', h1)" by force
  have "copied workload_selector_type x1 h (sel', h1)"
    using deep_value_copy [OF deep_workload_selector] assms(1) p(2) c1 unfolding deep_copier_def by metis
  then obtain T where h1: "heap_ok h1" "grows h h1" "go_view workload_selector_type h1 sel' = Some (x1, T)"
      "\<forall>a\<in>T. hp_next h \<le> a" by (rule copiedE)
  have sch: "go_view (TSlice sleep_window_type) h1 sch = Some (x2, R2)"
    by (rule view_grows [OF p(3) h1(2) assms(1)])
  obtain sch' h2 where c2: "append_to_nil sch h1 = (sch', h2)" by force
  from append_to_nil_shares [OF h1(1) sch c2] obtain U where h2: "heap_ok h2" "grows h1 h2"
      "go_view (TSlice sleep_window_type) h2 sch' = Some (if x2 = Elems [] then Nil else x2, U)"
      "{a \<in> U. a < hp_next h1} = slice_cells sleep_window_type h1 sch" by blast
  have v': "v' = Struct [(''Suspend'', Prim sus), (''Selector'', sel'), (''Schedule'', Ptr None),
      (''Schedules'', sch'), (''ReconcileInterval'', Ptr None)]" "h' = h2"
    using assms(3) by (simp_all add: build_sleep_schedule_spec_mem_def field_of_def p(1) c1 c2)
  have "go_view slumlord_sleep_schedule_spec_type h' v' = Some (generated_tree x, T \<union> U)"
    using view_grows [OF h1(3) h2(2) h1(1)] h2(3) unfolding v' slumlord_sleep_schedule_spec_type_def p(4)
    by (auto simp del: view_iffs(3))
  moreover have "{a \<in> T \<union> U. a < hp_next h} = days_cells h p"
  proof -
    note cells = slice_cells_grows [OF assms(1) h1(2) p(3)]
    have "{a \<in> T \<union> U. a < hp_next h} = {a \<in> U. a < hp_next h1} \<inter> {a. a < hp_next h}"
      using h1(2,4) by (auto simp: grows_def)
    also have "\<dots> = slice_cells sleep_window_type h sch" using h2(4) cells by auto
    finally show ?thesis by (simp add: days_cells_def p(1) field_of_def)
  qed
  ultimately show ?thesis by blast
qed

section \<open>Examples\<close>

definition sample_lib :: go_lib where
  "sample_lib =
     \<lparr>gl_object_meta = (TStruct [(''Name'', TPrim), (''Labels'', TDict TPrim)],
                        struct_copy [(''Labels'', dict_copy plain)]),
      gl_list_meta = (TStruct [(''ResourceVersion'', TPrim)], plain),
      gl_label_selector = (TStruct [(''MatchLabels'', TDict TPrim)], struct_copy [(''MatchLabels'', dict_copy plain)]),
      gl_condition = (TStruct [(''Type'', TPrim), (''Status'', TPrim)], plain),
      gl_time = (TPrim, plain), gl_quantity = (TPrim, plain)\<rparr>"

lemma sample_lib_copies: "lib_copies sample_lib"
  unfolding lib_copies_def sample_lib_def
  by (auto simp: field_copier_def intro!: deep_intros deep_struct_copy deep_flat)

text \<open>A cached schedule with one recorded deployment of three replicas.\<close>

definition sample_schedule :: val where
  "sample_schedule =
     Struct [(''TypeMeta'', Struct [(''Kind'', Prim (PStr ''SlumlordSleepSchedule'')), (''APIVersion'', Prim (PStr ''v1''))]),
             (''ObjectMeta'', Struct [(''Name'', Prim (PStr ''night'')), (''Labels'', Dict None)]),
             (''Spec'', Struct
                [(''Suspend'', Prim (PBool False)),
                 (''Selector'', Struct [(''MatchLabels'', Dict None), (''MatchNames'', Slice None), (''Types'', Slice None)]),
                 (''Schedule'', Ptr None), (''Schedules'', Slice None), (''ReconcileInterval'', Ptr None)]),
             (''Status'', Struct
                [(''Sleeping'', Prim (PBool True)), (''DaysDisplay'', Prim (PStr ''daily'')),
                 (''ManagedWorkloads'', Slice (Some (1, 0, 1))), (''LastTransitionTime'', Ptr None),
                 (''Conditions'', Slice None)])]"

definition sample_heap :: go_heap where
  "sample_heap =
     \<lparr>hp_cells =
        [0 \<mapsto> Vals [Prim (PInt 3)],
         1 \<mapsto> Vals [Struct [(''Kind'', Prim (PStr ''Deployment'')), (''Name'', Prim (PStr ''web'')),
                          (''OriginalReplicas'', Ptr (Some 0)), (''OriginalSuspend'', Ptr None),
                          (''OriginalHibernation'', Ptr None), (''OriginalNodeSetCounts'', Ptr None)]],
         2 \<mapsto> Vals [sample_schedule]],
      hp_next = 3\<rparr>"

lemmas sample_defs =
  sample_lib_def sample_schedule_def sample_heap_def
  slumlord_sleep_schedule_type_def slumlord_sleep_schedule_spec_type_def slumlord_sleep_schedule_status_type_def
  managed_workload_type_def workload_selector_type_def sleep_window_type_def type_meta_type_def

lemma sample_heap_ok: "heap_ok sample_heap"
  by (simp add: heap_ok_def sample_heap_def)

lemma sample_view:
  "\<exists>x R. go_view (TPtr (slumlord_sleep_schedule_type sample_lib)) sample_heap (Ptr (Some 2)) = Some (x, R)"
  by (simp add: sample_defs slice_vals_def)

lemma sample_schedule_in_api:
  "(slumlord_sleep_schedule_type lib, slumlord_sleep_schedule_object lib) \<in> set (api_objects lib)"
  by (simp add: api_objects_def)

theorem api_objects_copied_deeply_witness:
  "\<exists>x. object_copied (slumlord_sleep_schedule_type sample_lib) x (Ptr (Some 2)) sample_heap
     (slumlord_sleep_schedule_object sample_lib (Ptr (Some 2)) sample_heap)"
proof -
  obtain x R where "go_view (TPtr (slumlord_sleep_schedule_type sample_lib)) sample_heap (Ptr (Some 2)) = Some (x, R)"
    using sample_view by blast
  from api_objects_copied_deeply [OF sample_lib_copies sample_schedule_in_api sample_heap_ok this]
  show ?thesis by blast
qed

text \<open>The controller clears the replicas of the first entry of its copy, which is cell 3.\<close>

theorem cached_object_isolated_witness:
  "\<exists>x R v' h'. slumlord_sleep_schedule_object sample_lib (Ptr (Some 2)) sample_heap = (Some v', h') \<and>
     go_view (TPtr (slumlord_sleep_schedule_type sample_lib)) (write_all [(3, Vals [Prim (PInt 0)])] h') (Ptr (Some 2)) =
       Some (x, R)"
proof -
  let ?obj = "slumlord_sleep_schedule_object sample_lib (Ptr (Some 2)) sample_heap"
  obtain x R where x: "go_view (TPtr (slumlord_sleep_schedule_type sample_lib)) sample_heap (Ptr (Some 2)) = Some (x, R)"
    using sample_view by blast
  have "object_copied (slumlord_sleep_schedule_type sample_lib) x (Ptr (Some 2)) sample_heap ?obj"
    unfolding object_defs
    by (rule as_object_copies [OF deep_slumlord_sleep_schedule [OF sample_lib_copies] sample_heap_ok x])
  then obtain v' h' where r: "?obj = (Some v', h')"
    by (cases ?obj) (auto simp: object_copied_def split: option.splits)
  have "\<forall>a\<in>fst ` set [(3, Vals [Prim (PInt 0)])]. hp_next sample_heap \<le> a"
    by (simp add: sample_heap_def)
  with cached_object_isolated [OF sample_lib_copies sample_schedule_in_api sample_heap_ok x r] r
  show ?thesis by blast
qed

text \<open>A profile with one window on Mondays; the list of days is cell 0.\<close>

definition sample_profile :: val where
  "sample_profile =
     Struct [(''Selector'', Struct [(''MatchLabels'', Dict None), (''MatchNames'', Slice None), (''Types'', Slice None)]),
             (''Schedules'', Slice (Some (1, 0, 1))), (''Suspend'', Prim (PBool False))]"

definition profile_heap :: go_heap where
  "profile_heap =
     \<lparr>hp_cells =
        [0 \<mapsto> Vals [Prim (PInt 1)],
         1 \<mapsto> Vals [Struct [(''Start'', Prim (PStr ''22:00'')), (''End'', Prim (PStr ''06:00'')),
                          (''Timezone'', Prim (PStr ''UTC'')), (''Days'', Slice (Some (0, 0, 1)))]]],
      hp_next = 2\<rparr>"

theorem generated_spec_shares_days_witness:
  "case build_sleep_schedule_spec_mem sample_profile profile_heap of (v', h') \<Rightarrow>
     (\<exists>y R'. go_view slumlord_sleep_schedule_spec_type h' v' = Some (y, R') \<and> {a \<in> R'. a < 2} = {0})"
proof -
  have ok: "heap_ok profile_heap" "hp_next profile_heap = 2" by (simp_all add: heap_ok_def profile_heap_def)
  obtain x R where x: "go_view auto_schedule_profile_type profile_heap sample_profile = Some (x, R)"
    by (auto simp: auto_schedule_profile_type_def workload_selector_type_def sleep_window_type_def
        sample_profile_def profile_heap_def slice_vals_def)
  have days: "days_cells profile_heap sample_profile = {0}"
    by (simp add: days_cells_def slice_cells_def field_of_def sample_profile_def profile_heap_def slice_vals_def
        sleep_window_type_def go_view.simps view_all.simps(2) at_cell_def)
  obtain v' h' where b: "build_sleep_schedule_spec_mem sample_profile profile_heap = (v', h')" by force
  from generated_spec_shares_days [OF ok(1) x b] show ?thesis unfolding ok(2) days b by blast
qed

end
