(* ===== verification/Kube_Nodes.thy ===== *)
theory Kube_Nodes
  imports Kube_Client "HOL-Library.Multiset"
begin

text \<open>
  Pods, nodes and resource quantities, as the bin packer, the drain controller and the idle
  detector read them, and the functions on them that the controllers share. A
  \<open>resource.Quantity\<close> is its exact value in billionths of its unit; the API admits nothing
  finer. Adding and comparing quantities is exact.
\<close>

type_synonym quantity = int

text \<open>\<open>Quantity.MilliValue\<close> and \<open>Quantity.Value\<close> round up, away from the fraction.\<close>

definition milli_value :: "quantity \<Rightarrow> int" where
  "milli_value q = - ((- q) div 1000000)"

definition whole_value :: "quantity \<Rightarrow> int" where
  "whole_value q = - ((- q) div 1000000000)"

record container =
  ct_name :: string
  ct_cpu :: "quantity option"
  ct_mem :: "quantity option"

text \<open>An owner reference: kind and name.\<close>

type_synonym owner_ref = "string \<times> string"

record volume =
  vol_host_path :: bool
  vol_empty_dir :: bool

record toleration =
  tol_key :: string
  tol_operator :: string
  tol_value :: string
  tol_effect :: string

record taint =
  tt_key :: string
  tt_value :: string
  tt_effect :: string

record pod =
  p_name :: string
  p_namespace :: string
  p_labels :: smap
  p_annotations :: smap
  p_owners :: "owner_ref list"
  p_deleting :: bool
  p_node :: string
  p_phase :: string
  p_containers :: "container list"
  p_init_containers :: "container list"
  p_node_selector :: smap
  p_tolerations :: "toleration list"
  p_volumes :: "volume list"

record node =
  n_name :: string
  n_labels :: smap
  n_unschedulable :: bool
  n_taints :: "taint list"
  n_cpu :: quantity
  n_mem :: quantity
  n_conditions :: "(string \<times> string) list"

record replica_set =
  rs_name :: string
  rs_namespace :: string
  rs_owners :: "owner_ref list"

section \<open>Requests of a pod\<close>

fun sum_requests :: "container list \<Rightarrow> quantity \<times> quantity \<Rightarrow> quantity \<times> quantity" where
  "sum_requests [] acc = acc"
| "sum_requests (c # cs) (cpu, mem) =
     sum_requests cs
       (case ct_cpu c of Some q \<Rightarrow> cpu + q | None \<Rightarrow> cpu,
        case ct_mem c of Some q \<Rightarrow> mem + q | None \<Rightarrow> mem)"

text \<open>\<open>podRequests\<close>: the larger of the sums over the containers and over the init containers.\<close>

definition pod_requests :: "pod \<Rightarrow> quantity \<times> quantity" where
  "pod_requests p =
     (let (cpu, mem) = sum_requests (p_containers p) (0, 0);
          (icpu, imem) = sum_requests (p_init_containers p) (0, 0)
      in (if cpu < icpu then icpu else cpu, if mem < imem then imem else mem))"

section \<open>Load of a node\<close>

text \<open>The map \<open>podsByNode\<close>: the running pods of a node, in the order of the list.\<close>

definition pods_on_node :: "pod list \<Rightarrow> string \<Rightarrow> pod list" where
  "pods_on_node pods name =
     filter (\<lambda>p. p_node p \<noteq> [] \<and> p_phase p = ''Running'' \<and> p_node p = name) pods"

fun total_requests :: "pod list \<Rightarrow> quantity \<times> quantity \<Rightarrow> quantity \<times> quantity" where
  "total_requests [] acc = acc"
| "total_requests (p # ps) (cpu, mem) =
     total_requests ps (cpu + fst (pod_requests p), mem + snd (pod_requests p))"

definition cpu_percent :: "quantity \<Rightarrow> quantity \<Rightarrow> int" where
  "cpu_percent reqs alloc =
     (if 0 < milli_value alloc then s32 (go_div (s64 (milli_value reqs * 100)) (milli_value alloc)) else 0)"

definition mem_percent :: "quantity \<Rightarrow> quantity \<Rightarrow> int" where
  "mem_percent reqs alloc =
     (if 0 < whole_value alloc then s32 (go_div (s64 (whole_value reqs * 100)) (whole_value alloc)) else 0)"

definition has_owner_kind :: "string \<Rightarrow> owner_ref list \<Rightarrow> bool" where
  "has_owner_kind kind refs = list_ex (\<lambda>r. fst r = kind) refs"

definition has_key :: "string \<Rightarrow> smap \<Rightarrow> bool" where
  "has_key k m = list_ex (\<lambda>e. fst e = k) m"

definition mirror_annotation :: string where
  "mirror_annotation = ''kubernetes.io/config.mirror''"

lemma total_requests_acc:
  "total_requests ps (a, b) =
     (a + (\<Sum>p \<leftarrow> ps. fst (pod_requests p)), b + (\<Sum>p \<leftarrow> ps. snd (pod_requests p)))"
  by (induction ps arbitrary: a b) auto

lemma percent_bounds:
  assumes "0 \<le> r" "0 < a" "r * 100 < 2 ^ 63" "r * 100 div a < 2 ^ 31"
  shows "s32 (go_div (s64 (r * 100)) a) = r * 100 div a"
proof -
  have "0 \<le> r * 100 div a" using assms by (simp add: pos_imp_zdiv_nonneg_iff)
  then show ?thesis using assms s32_id [of "r * 100 div a"] s64_id [of "r * 100"]
    by (simp add: go_div_nonneg)
qed

section \<open>Sorting and analysing nodes\<close>

text \<open>The contract of \<open>sort.Slice\<close> that is used: a permutation of the slice.\<close>

definition permutes :: "('a list \<Rightarrow> 'a list) \<Rightarrow> bool" where
  "permutes srt \<longleftrightarrow> (\<forall>xs. mset (srt xs) = mset xs)"

lemma permutes_set: "permutes srt \<Longrightarrow> set (srt xs) = set xs"
  unfolding permutes_def by (metis set_mset_mset)

lemma permutes_length: "permutes srt \<Longrightarrow> length (srt xs) = length xs"
  unfolding permutes_def by (metis size_mset)

text \<open>
  The contract that the analyses of the bin packer and of the drain controller share: one
  entry per schedulable node that the selector matches, in order, and with each entry some of
  the pods that run on its node.
\<close>

locale node_analysis =
  fixes sel :: smap
    and node_of :: "'i \<Rightarrow> node"
    and offered :: "'i \<Rightarrow> pod list"
    and analyze :: "pod list \<Rightarrow> node list \<Rightarrow> 'i list"
  assumes nodes_of: "map node_of (analyze pods nodes) =
      filter (\<lambda>n. \<not> n_unschedulable n \<and> gmatches sel (n_labels n)) nodes"
    and offered_pods: "i \<in> set (analyze pods nodes) \<Longrightarrow>
      set (offered i) \<subseteq> set (pods_on_node pods (n_name (node_of i)))"
begin

lemma entry_node:
  assumes "i \<in> set (analyze pods nodes)"
  shows "node_of i \<in> set nodes \<and> \<not> n_unschedulable (node_of i) \<and> gmatches sel (n_labels (node_of i))"
proof -
  from assms have "node_of i \<in> set (map node_of (analyze pods nodes))" by simp
  then show ?thesis unfolding nodes_of by simp
qed

lemma entry_names:
  "map (\<lambda>i. n_name (node_of i)) (analyze pods nodes) =
     map n_name (filter (\<lambda>n. \<not> n_unschedulable n \<and> gmatches sel (n_labels n)) nodes)"
  unfolding nodes_of [of pods, symmetric] by simp

lemma entry_names_distinct:
  "distinct (map n_name nodes) \<Longrightarrow> distinct (map (\<lambda>i. n_name (node_of i)) (analyze pods nodes))"
  unfolding entry_names by (simp add: distinct_map_filter)

lemma entry_name_in:
  "i \<in> set (analyze pods nodes) \<Longrightarrow> n_name (node_of i) \<in> set (map n_name nodes)"
  using entry_node by auto

lemma entry_pod:
  assumes "i \<in> set (analyze pods nodes)" "p \<in> set (offered i)"
  shows "p \<in> set pods \<and> p_phase p = ''Running'' \<and> p_node p = n_name (node_of i)"
  using offered_pods [OF assms(1)] assms(2) by (auto simp: pods_on_node_def)

lemma entries_bounded: "length (analyze pods nodes) \<le> length nodes"
proof -
  have "length (analyze pods nodes) = length (map node_of (analyze pods nodes))" by simp
  also have "... \<le> length nodes" unfolding nodes_of by simp
  finally show ?thesis .
qed

end

end
