(* ===== verification/Bin_Packer.thy ===== *)
theory Bin_Packer
  imports Kube_Nodes Sleep_Window "HOL-Library.Multiset"
begin

text \<open>
  The bin packer (\<open>binpacker_controller.go\<close>): it finds nodes whose requests are below the
  thresholds, plans to evict their pods onto other nodes by simulating the placement, and
  carries the plan out. Parameters are the client, \<open>sort.Slice\<close> as \<open>srt\<close>,
  \<open>metav1.LabelSelectorAsSelector\<close> as \<open>as_sel\<close>, the time zone database and the clock.
\<close>

section \<open>Types\<close>

record pack_spec =
  bs_action :: string
  bs_node_selector :: smap
  bs_namespaces :: "string list"
  bs_exclude_namespaces :: "string list"
  bs_cpu_threshold :: "int option"
  bs_mem_threshold :: "int option"
  bs_schedule :: "sleep_window option"
  bs_max_evictions :: "int option"
  bs_dry_run :: bool
  bs_interval :: "duration option"

record candidate_node =
  cn_name :: string
  cn_cpu_percent :: int
  cn_mem_percent :: int
  cn_pod_count :: int

record planned_eviction =
  pe_pod :: string
  pe_namespace :: string
  pe_source :: string
  pe_target :: string
  pe_reason :: string

record pack_status =
  bst_candidates :: "candidate_node list"
  bst_candidate_count :: int
  bst_plan :: "planned_eviction list"
  bst_last_analysis :: "instant option"
  bst_last_consolidation :: "instant option"
  bst_nodes_analyzed :: int
  bst_evicted_cycle :: int
  bst_total_evicted :: int

text \<open>
  The finalizer list is reduced to whether it holds the bin packer's own finalizer, which is
  all that \<open>controllerutil\<close> is asked about; \<open>bp_deleting\<close> is a non-zero deletion timestamp.
\<close>

record bin_packer =
  bp_name :: string
  bp_deleting :: bool
  bp_finalizer :: bool
  bp_spec :: pack_spec
  bp_status :: pack_status

text \<open>\<open>nodeInfo\<close>; the allocatable resources are those of the node it holds.\<close>

record node_info =
  ni_node :: node
  ni_cpu_requests :: quantity
  ni_mem_requests :: quantity
  ni_cpu_percent :: int
  ni_mem_percent :: int
  ni_evictable :: "pod list"
  ni_scheduled_cpu :: quantity
  ni_scheduled_mem :: quantity

abbreviation ni_name :: "node_info \<Rightarrow> string" where
  "ni_name i \<equiv> n_name (ni_node i)"

text \<open>\<open>workloadRef\<close>: namespace, kind and name of a replicating controller.\<close>

datatype workload_ref = WorkloadRef string string string

fun wr_namespace :: "workload_ref \<Rightarrow> string" where
  "wr_namespace (WorkloadRef ns k n) = ns"

record disruption_budget =
  pdb_namespace :: string
  pdb_selector :: "label_selector option"
  pdb_allowed :: int

text \<open>What the safety context reads of a Deployment or StatefulSet.\<close>

record replicated =
  rp_namespace :: string
  rp_name :: string
  rp_template_labels :: smap
  rp_ready :: int

record safety_context =
  sc_workloads :: "string \<Rightarrow> workload_ref option"
  sc_budget :: "workload_ref \<Rightarrow> int"

section \<open>Evictable pods\<close>

definition slash_key :: "string \<Rightarrow> string \<Rightarrow> string" where
  "slash_key ns name = ns @ ''/'' @ name"

type_synonym rs_map = "string \<Rightarrow> replica_set option"

definition rs_map_of :: "replica_set list \<Rightarrow> rs_map" where
  "rs_map_of rss = map_of (rev (map (\<lambda>rs. (slash_key (rs_namespace rs) (rs_name rs), rs)) rss))"

text \<open>The loop over the owner references of a pod.\<close>

fun resolve_owners :: "string \<Rightarrow> rs_map \<Rightarrow> owner_ref list \<Rightarrow> workload_ref option" where
  "resolve_owners ns rsm [] = None"
| "resolve_owners ns rsm ((kind, name) # refs) =
     (if kind = ''StatefulSet'' then Some (WorkloadRef ns ''StatefulSet'' name)
      else if kind = ''ReplicaSet'' then
        (case rsm (slash_key ns name) of
           None \<Rightarrow> None
         | Some rs \<Rightarrow>
             map_option (\<lambda>r. WorkloadRef ns ''Deployment'' (snd r))
               (find (\<lambda>r. fst r = ''Deployment'') (rs_owners rs)))
      else resolve_owners ns rsm refs)"

definition resolve_workload :: "rs_map \<Rightarrow> pod \<Rightarrow> workload_ref option" where
  "resolve_workload rsm p = resolve_owners (p_namespace p) rsm (p_owners p)"

text \<open>The loop that rejects pods owned by a DaemonSet, directly or through a ReplicaSet.\<close>

definition daemon_owned :: "rs_map \<Rightarrow> pod \<Rightarrow> bool" where
  "daemon_owned rsm p =
     list_ex (\<lambda>(kind, name).
        kind = ''DaemonSet'' \<or>
        (kind = ''ReplicaSet'' \<and>
         (case rsm (slash_key (p_namespace p) name) of
            None \<Rightarrow> False
          | Some rs \<Rightarrow> has_owner_kind ''DaemonSet'' (rs_owners rs)))) (p_owners p)"

definition is_evictable :: "string list \<Rightarrow> string list \<Rightarrow> rs_map \<Rightarrow> pod \<Rightarrow> bool" where
  "is_evictable excluded included rsm p =
     (if p_namespace p \<in> set excluded then False
      else if included \<noteq> [] \<and> p_namespace p \<notin> set included then False
      else if has_key mirror_annotation (p_annotations p) then False
      else if p_owners p = [] then False
      else if daemon_owned rsm p then False
      else if resolve_workload rsm p = None then False
      else if list_ex vol_host_path (p_volumes p) then False
      else if p_deleting p then False
      else True)"

section \<open>Analysis\<close>

definition default_exclude_namespaces :: "string list" where
  "default_exclude_namespaces = [''kube-system'', ''kube-public'', ''kube-node-lease'']"

definition excluded_namespaces :: "pack_spec \<Rightarrow> string list" where
  "excluded_namespaces sp =
     (if bs_exclude_namespaces sp = [] then default_exclude_namespaces else bs_exclude_namespaces sp)"

definition analyze_node :: "pack_spec \<Rightarrow> rs_map \<Rightarrow> pod list \<Rightarrow> node \<Rightarrow> node_info" where
  "analyze_node sp rsm pods n =
     (let ps = pods_on_node pods (n_name n);
          (cpu, mem) = total_requests ps (0, 0)
      in \<lparr>ni_node = n, ni_cpu_requests = cpu, ni_mem_requests = mem,
          ni_cpu_percent = cpu_percent cpu (n_cpu n), ni_mem_percent = mem_percent mem (n_mem n),
          ni_evictable = filter (is_evictable (excluded_namespaces sp) (bs_namespaces sp) rsm) ps,
          ni_scheduled_cpu = cpu, ni_scheduled_mem = mem\<rparr>)"

definition analyze_all :: "pack_spec \<Rightarrow> rs_map \<Rightarrow> pod list \<Rightarrow> node list \<Rightarrow> node_info list" where
  "analyze_all sp rsm pods nodes =
     map (analyze_node sp rsm pods)
       (filter (\<lambda>n. \<not> n_unschedulable n \<and> gmatches (bs_node_selector sp) (n_labels n)) nodes)"

section \<open>Candidates\<close>

definition below_thresholds :: "pack_spec \<Rightarrow> node_info \<Rightarrow> bool" where
  "below_thresholds sp i =
     (case (bs_cpu_threshold sp, bs_mem_threshold sp) of
        (Some c, Some m) \<Rightarrow> ni_cpu_percent i < c \<and> ni_mem_percent i < m
      | (Some c, None) \<Rightarrow> ni_cpu_percent i < c
      | (None, Some m) \<Rightarrow> ni_mem_percent i < m
      | (None, None) \<Rightarrow> False)"

definition utilization :: "node_info \<Rightarrow> int" where
  "utilization i = s32 (ni_cpu_percent i + ni_mem_percent i)"

definition find_candidate_nodes ::
  "(node_info list \<Rightarrow> node_info list) \<Rightarrow> node_info list \<Rightarrow> pack_spec \<Rightarrow> node_info list" where
  "find_candidate_nodes srt infos sp =
     srt (filter (\<lambda>i. ni_evictable i \<noteq> [] \<and> below_thresholds sp i) infos)"

section \<open>Safety context\<close>

text \<open>The loop over the disruption budgets: the smallest one that matches, or -1.\<close>

fun pdb_budget :: "selector_of \<Rightarrow> string \<Rightarrow> smap \<Rightarrow> disruption_budget list \<Rightarrow> int \<Rightarrow> int" where
  "pdb_budget as_sel ns labels [] budget = budget"
| "pdb_budget as_sel ns labels (pdb # pdbs) budget =
     (if pdb_namespace pdb \<noteq> ns then pdb_budget as_sel ns labels pdbs budget
      else
        (case pdb_selector pdb of
           None \<Rightarrow> pdb_budget as_sel ns labels pdbs budget
         | Some ls \<Rightarrow>
           (case as_sel ls of
              None \<Rightarrow> pdb_budget as_sel ns labels pdbs budget
            | Some matches \<Rightarrow>
                pdb_budget as_sel ns labels pdbs
                  (if matches labels \<and> (budget = - 1 \<or> pdb_allowed pdb < budget)
                   then pdb_allowed pdb else budget))))"

definition find_replicated :: "string \<Rightarrow> string \<Rightarrow> replicated list \<Rightarrow> replicated option" where
  "find_replicated ns name rps = find (\<lambda>r. rp_namespace r = ns \<and> rp_name r = name) (rev rps)"

definition workload_budget ::
  "selector_of \<Rightarrow> disruption_budget list \<Rightarrow> replicated list \<Rightarrow> replicated list \<Rightarrow> workload_ref \<Rightarrow> int" where
  "workload_budget as_sel pdbs deployments stss wl =
     (case wl of WorkloadRef ns kind name \<Rightarrow>
        (let found = (if kind = ''Deployment'' then find_replicated ns name deployments
                      else if kind = ''StatefulSet'' then find_replicated ns name stss else None);
             (labels, ready) = (case found of Some r \<Rightarrow> (rp_template_labels r, rp_ready r) | None \<Rightarrow> ([], 0));
             budget = pdb_budget as_sel ns labels pdbs (- 1)
         in if 0 \<le> budget then budget else s32 (ready - 1)))"

text \<open>
  \<open>podWorkloads\<close> and the set of workloads of the candidates' pods. A budget is only stored for
  a workload of the set; reading any other one gives 0.
\<close>

definition candidate_pods :: "node_info list \<Rightarrow> pod list" where
  "candidate_pods cs = concat (map ni_evictable cs)"

definition pod_workloads :: "rs_map \<Rightarrow> pod list \<Rightarrow> string \<Rightarrow> workload_ref option" where
  "pod_workloads rsm ps =
     map_of (rev (concat (map (\<lambda>p. case resolve_workload rsm p of
                                      None \<Rightarrow> []
                                    | Some wl \<Rightarrow> [(slash_key (p_namespace p) (p_name p), wl)]) ps)))"

definition resolved_workloads :: "rs_map \<Rightarrow> pod list \<Rightarrow> workload_ref list" where
  "resolved_workloads rsm ps =
     concat (map (\<lambda>p. case resolve_workload rsm p of None \<Rightarrow> [] | Some wl \<Rightarrow> [wl]) ps)"

definition safety_of ::
  "selector_of \<Rightarrow> rs_map \<Rightarrow> node_info list \<Rightarrow> disruption_budget list \<Rightarrow> replicated list \<Rightarrow> replicated list \<Rightarrow>
   safety_context" where
  "safety_of as_sel rsm cs pdbs deployments stss =
     \<lparr>sc_workloads = pod_workloads rsm (candidate_pods cs),
      sc_budget = (\<lambda>wl. if wl \<in> set (resolved_workloads rsm (candidate_pods cs))
                        then workload_budget as_sel pdbs deployments stss wl else 0)\<rparr>"

section \<open>Placement\<close>

definition toleration_matches :: "toleration \<Rightarrow> taint \<Rightarrow> bool" where
  "toleration_matches tol t =
     (let effect_ok = (tol_effect tol = [] \<or> tol_effect tol = tt_effect t) in
      if tol_operator tol = ''Exists'' \<and> tol_key tol = [] then True
      else if tol_key tol = tt_key t then
        (if tol_operator tol = ''Exists'' then effect_ok
         else (tol_operator tol = ''Equal'' \<and> tol_value tol = tt_value t \<and> effect_ok) \<or>
              (tol_operator tol = [] \<and> tol_value tol = tt_value t \<and> effect_ok))
      else False)"

definition pod_tolerates_taint :: "pod \<Rightarrow> taint \<Rightarrow> bool" where
  "pod_tolerates_taint p t = list_ex (\<lambda>tol. toleration_matches tol t) (p_tolerations p)"

definition tolerates_taints :: "pod \<Rightarrow> node \<Rightarrow> bool" where
  "tolerates_taints p n =
     list_all (\<lambda>t. (tt_effect t \<noteq> ''NoSchedule'' \<and> tt_effect t \<noteq> ''NoExecute'') \<or> pod_tolerates_taint p t)
       (n_taints n)"

definition can_fit_on_node :: "pod \<Rightarrow> node_info \<Rightarrow> quantity \<Rightarrow> quantity \<Rightarrow> bool" where
  "can_fit_on_node p target cpu mem =
     (if n_cpu (ni_node target) < ni_scheduled_cpu target + cpu then False
      else if n_mem (ni_node target) < ni_scheduled_mem target + mem then False
      else if \<not> gmatches (p_node_selector p) (n_labels (ni_node target)) then False
      else if \<not> tolerates_taints p (ni_node target) then False
      else True)"

text \<open>\<open>findTargetNode\<close>: the first target that fits, whose simulated load grows; no name if none.\<close>

fun find_target_node :: "pod \<Rightarrow> node_info list \<Rightarrow> string \<times> node_info list" where
  "find_target_node p [] = ([], [])"
| "find_target_node p (t # ts) =
     (let (cpu, mem) = pod_requests p in
      if can_fit_on_node p t cpu mem
      then (ni_name t, t\<lparr>ni_scheduled_cpu := ni_scheduled_cpu t + cpu,
                         ni_scheduled_mem := ni_scheduled_mem t + mem\<rparr> # ts)
      else (let (name, ts') = find_target_node p ts in (name, t # ts')))"

section \<open>The plan\<close>

record plan_state =
  pl_targets :: "node_info list"
  pl_budget :: "workload_ref \<Rightarrow> int"
  pl_plan :: "planned_eviction list"

definition plan_reason :: "node_info \<Rightarrow> string" where
  "plan_reason c =
     ''node '' @ ni_name c @ '' below utilization threshold (cpu='' @ show_int (ni_cpu_percent c) @
     ''%, mem='' @ show_int (ni_mem_percent c) @ ''%)''"

text \<open>One pod of the nested loops; the early return is \<open>plan_loop\<close>'s.\<close>

definition plan_pod ::
  "(string \<Rightarrow> workload_ref option) \<Rightarrow> node_info \<Rightarrow> pod \<Rightarrow> plan_state \<Rightarrow> plan_state" where
  "plan_pod workloads c p st =
     (let key = slash_key (p_namespace p) (p_name p) in
      if (case workloads key of Some wl \<Rightarrow> pl_budget st wl \<le> 0 | None \<Rightarrow> False) then st
      else (let (name, targets) = find_target_node p (pl_targets st) in
            if name = [] then st\<lparr>pl_targets := targets\<rparr>
            else \<lparr>pl_targets = targets,
                  pl_budget = (case workloads key of
                                 Some wl \<Rightarrow> (pl_budget st)(wl := pl_budget st wl - 1)
                               | None \<Rightarrow> pl_budget st),
                  pl_plan = pl_plan st @
                    [\<lparr>pe_pod = p_name p, pe_namespace = p_namespace p, pe_source = ni_name c,
                      pe_target = name, pe_reason = plan_reason c\<rparr>]\<rparr>))"

fun plan_loop ::
  "int \<Rightarrow> (string \<Rightarrow> workload_ref option) \<Rightarrow> (node_info \<times> pod) list \<Rightarrow> plan_state \<Rightarrow> plan_state" where
  "plan_loop max_evictions workloads [] st = st"
| "plan_loop max_evictions workloads ((c, p) # cps) st =
     (if 0 < max_evictions \<and> max_evictions \<le> s32 (int (length (pl_plan st))) then st
      else plan_loop max_evictions workloads cps (plan_pod workloads c p st))"

definition target_nodes :: "node_info list \<Rightarrow> node_info list \<Rightarrow> node_info list" where
  "target_nodes candidates infos = filter (\<lambda>i. ni_name i \<notin> set (map ni_name candidates)) infos"

definition candidate_pairs :: "node_info list \<Rightarrow> (node_info \<times> pod) list" where
  "candidate_pairs candidates = concat (map (\<lambda>c. map (Pair c) (ni_evictable c)) candidates)"

definition build_consolidation_plan ::
  "node_info list \<Rightarrow> node_info list \<Rightarrow> pack_spec \<Rightarrow> safety_context \<Rightarrow> planned_eviction list" where
  "build_consolidation_plan candidates infos sp safety =
     pl_plan
       (plan_loop (case bs_max_evictions sp of Some m \<Rightarrow> m | None \<Rightarrow> 0) (sc_workloads safety)
          (candidate_pairs candidates)
          \<lparr>pl_targets = target_nodes candidates infos, pl_budget = sc_budget safety, pl_plan = []\<rparr>)"

section \<open>Reconcile\<close>

text \<open>
  The client of the bin packer. \<open>b_evict\<close> creates an eviction for a pod by name and namespace;
  updates answer with the server's copy of the packer, which replaces the caller's.
\<close>

record 'w pack_kube =
  b_get_packer :: "string \<Rightarrow> 'w \<Rightarrow> kerr + bin_packer"
  b_update_packer :: "bin_packer \<Rightarrow> 'w \<Rightarrow> (kerr + bin_packer) \<times> 'w"
  b_update_status :: "bin_packer \<Rightarrow> 'w \<Rightarrow> (kerr + bin_packer) \<times> 'w"
  b_nodes :: "'w \<Rightarrow> kerr + node list"
  b_pods :: "'w \<Rightarrow> kerr + pod list"
  b_replica_sets :: "'w \<Rightarrow> kerr + replica_set list"
  b_budgets :: "'w \<Rightarrow> kerr + disruption_budget list"
  b_deployments :: "'w \<Rightarrow> kerr + replicated list"
  b_stateful_sets :: "'w \<Rightarrow> kerr + replicated list"
  b_evict :: "string \<Rightarrow> string \<Rightarrow> 'w \<Rightarrow> kerr option \<times> 'w"

definition pack_interval :: "duration \<Rightarrow> pack_spec \<Rightarrow> duration" where
  "pack_interval dflt sp =
     (case bs_interval sp of Some d \<Rightarrow> d | None \<Rightarrow> if 0 < dflt then dflt else 6 * minute)"

definition analyze_nodes ::
  "'w pack_kube \<Rightarrow> pack_spec \<Rightarrow> 'w \<Rightarrow> kerr + (node_info list \<times> rs_map)" where
  "analyze_nodes c sp w =
     (case b_nodes c w of
        Inl e \<Rightarrow> Inl e
      | Inr nodes \<Rightarrow>
        (case b_pods c w of
           Inl e \<Rightarrow> Inl e
         | Inr pods \<Rightarrow>
           (case b_replica_sets c w of
              Inl e \<Rightarrow> Inl e
            | Inr rss \<Rightarrow> (let rsm = rs_map_of rss in Inr (analyze_all sp rsm pods nodes, rsm)))))"

definition build_safety_context ::
  "selector_of \<Rightarrow> 'w pack_kube \<Rightarrow> node_info list \<Rightarrow> rs_map \<Rightarrow> 'w \<Rightarrow> kerr + safety_context" where
  "build_safety_context as_sel c candidates rsm w =
     (if resolved_workloads rsm (candidate_pods candidates) = []
      then Inr (safety_of as_sel rsm candidates [] [] [])
      else
        (case b_budgets c w of
           Inl e \<Rightarrow> Inl e
         | Inr pdbs \<Rightarrow>
           (case b_deployments c w of
              Inl e \<Rightarrow> Inl e
            | Inr ds \<Rightarrow>
              (case b_stateful_sets c w of
                 Inl e \<Rightarrow> Inl e
               | Inr ss \<Rightarrow> Inr (safety_of as_sel rsm candidates pdbs ds ss)))))"

text \<open>
  The loop of \<open>executePlan\<close>: a pod that is gone is skipped, any other error ends the run after an
  attempt to persist the number of evictions so far.
\<close>

fun execute_plan ::
  "'w pack_kube \<Rightarrow> bin_packer \<Rightarrow> planned_eviction list \<Rightarrow> nat \<Rightarrow> 'w \<Rightarrow> nat \<times> kerr option \<times> bin_packer \<times> 'w" where
  "execute_plan c bp [] evicted w = (evicted, None, bp, w)"
| "execute_plan c bp (e # es) evicted w =
     (case b_evict c (pe_pod e) (pe_namespace e) w of
        (None, w') \<Rightarrow> execute_plan c bp es (Suc evicted) w'
      | (Some err, w') \<Rightarrow>
          if ignore_not_found err = None then execute_plan c bp es evicted w'
          else
            (let bp' = bp\<lparr>bp_status := (bp_status bp)\<lparr>bst_evicted_cycle := s32 (int evicted)\<rparr>\<rparr> in
             case b_update_status c bp' w' of
               (Inl e', w'') \<Rightarrow> (evicted, Some err, bp', w'')
             | (Inr r, w'') \<Rightarrow> (evicted, Some err, r, w'')))"

definition status_result ::
  "'w pack_kube \<Rightarrow> duration \<Rightarrow> bin_packer \<Rightarrow> 'w \<Rightarrow> result \<times> 'w" where
  "status_result c dflt bp w =
     (case b_update_status c bp w of
        (Inl e, w') \<Rightarrow> (Done 0 (Some e), w')
      | (Inr r, w') \<Rightarrow> (Done (pack_interval dflt (bp_spec r)) None, w'))"

definition set_analysis ::
  "node_info list \<Rightarrow> node_info list \<Rightarrow> instant \<Rightarrow> bin_packer \<Rightarrow> bin_packer" where
  "set_analysis infos candidates now bp =
     bp\<lparr>bp_status := (bp_status bp)
       \<lparr>bst_last_analysis := Some now, bst_nodes_analyzed := s32 (int (length infos)),
        bst_candidates := map (\<lambda>i. \<lparr>cn_name = ni_name i, cn_cpu_percent = ni_cpu_percent i,
            cn_mem_percent = ni_mem_percent i, cn_pod_count = s32 (int (length (ni_evictable i)))\<rparr>) candidates,
        bst_candidate_count := s32 (int (length candidates))\<rparr>\<rparr>"

definition set_cycle :: "planned_eviction list \<Rightarrow> int \<Rightarrow> bin_packer \<Rightarrow> bin_packer" where
  "set_cycle plan n bp =
     bp\<lparr>bp_status := (bp_status bp)\<lparr>bst_evicted_cycle := n, bst_plan := plan\<rparr>\<rparr>"

text \<open>The part of \<open>Reconcile\<close> after the finalizer, inside the consolidation window.\<close>

definition consolidate ::
  "(node_info list \<Rightarrow> node_info list) \<Rightarrow> selector_of \<Rightarrow> duration \<Rightarrow> 'w pack_kube \<Rightarrow> instant \<Rightarrow> bin_packer \<Rightarrow> 'w \<Rightarrow>
   result \<times> 'w" where
  "consolidate srt as_sel dflt c now bp w =
     (let sp = bp_spec bp in
      case analyze_nodes c sp w of
        Inl e \<Rightarrow> (Done (pack_interval dflt sp) (Some e), w)
      | Inr (infos, rsm) \<Rightarrow>
        (let candidates = find_candidate_nodes srt infos sp;
             bp1 = set_analysis infos candidates now bp
         in if bs_action sp = ''report'' then status_result c dflt (set_cycle [] 0 bp1) w
            else
              (case build_safety_context as_sel c candidates rsm w of
                 Inl e \<Rightarrow> (Done (pack_interval dflt sp) (Some e), w)
               | Inr safety \<Rightarrow>
                 (let plan = build_consolidation_plan candidates infos sp safety in
                  if bs_dry_run sp then status_result c dflt (set_cycle plan 0 bp1) w
                  else
                    (let bp2 = bp1\<lparr>bp_status := (bp_status bp1)\<lparr>bst_plan := plan\<rparr>\<rparr> in
                     case execute_plan c bp2 plan 0 w of
                       (evicted, err, bp3, w') \<Rightarrow>
                         (let st = bp_status bp3;
                              st' = st\<lparr>bst_evicted_cycle := s32 (int evicted),
                                       bst_total_evicted := s64 (bst_total_evicted st + int evicted)\<rparr>;
                              st'' = (if 0 < evicted then st'\<lparr>bst_last_consolidation := Some now\<rparr> else st')
                          in status_result c dflt (bp3\<lparr>bp_status := st''\<rparr>) w'))))))"

definition pack_reconcile ::
  "(string \<Rightarrow> location option) \<Rightarrow> (node_info list \<Rightarrow> node_info list) \<Rightarrow> selector_of \<Rightarrow> duration \<Rightarrow>
   'w pack_kube \<Rightarrow> instant \<Rightarrow> instant \<Rightarrow> string \<Rightarrow> 'w \<Rightarrow> result \<times> 'w" where
  "pack_reconcile load srt as_sel dflt c t now name w =
     (case b_get_packer c name w of
        Inl e \<Rightarrow> (Done 0 (ignore_not_found e), w)
      | Inr bp \<Rightarrow>
          if bp_deleting bp then
            (if bp_finalizer bp
             then (case b_update_packer c (bp\<lparr>bp_finalizer := False\<rparr>) w of
                     (Inl e, w') \<Rightarrow> (Done 0 (Some e), w')
                   | (Inr r, w') \<Rightarrow> (Done 0 None, w'))
             else (Done 0 None, w))
          else
            (case (if bp_finalizer bp then (Inr bp, w) else b_update_packer c (bp\<lparr>bp_finalizer := True\<rparr>) w) of
               (Inl e, w1) \<Rightarrow> (Done 0 (Some e), w1)
             | (Inr bp1, w1) \<Rightarrow>
                 if bs_schedule (bp_spec bp1) \<noteq> None \<and>
                    \<not> is_in_consolidation_window load (bs_schedule (bp_spec bp1)) t
                 then (Done (pack_interval dflt (bp_spec bp1)) None, w1)
                 else consolidate srt as_sel dflt c now bp1 w1))"

section \<open>Placement keeps to the node\<close>

lemma find_target_node_cases:
  assumes "find_target_node p ts = (name, ts')"
  shows "(name = [] \<and> ts' = ts) \<or>
    (\<exists>us t vs cpu mem. ts = us @ t # vs \<and> name = ni_name t \<and> pod_requests p = (cpu, mem) \<and>
      can_fit_on_node p t cpu mem \<and>
      ts' = us @ t\<lparr>ni_scheduled_cpu := ni_scheduled_cpu t + cpu, ni_scheduled_mem := ni_scheduled_mem t + mem\<rparr> # vs)"
  using assms
proof (induction p ts arbitrary: name ts' rule: find_target_node.induct)
  case (1 p)
  then show ?case by simp
next
  case (2 p t ts)
  obtain cpu mem where req: "pod_requests p = (cpu, mem)" by (cases "pod_requests p")
  show ?case
  proof (cases "can_fit_on_node p t cpu mem")
    case True
    with 2(2) req show ?thesis by (intro disjI2 exI [of _ "[]"]) auto
  next
    case False
    with 2(2) req obtain ts1 where rest: "find_target_node p ts = (name, ts1)" and ts': "ts' = t # ts1"
      by (auto simp: Let_def split: prod.splits)
    from 2(1) [OF req [symmetric] refl False rest] ts' show ?thesis
      by (metis append_Cons)
  qed
qed

text \<open>
  The plan with what the plan itself does not keep: for each planned eviction the candidate
  and the pod it came from.
\<close>

type_synonym placed = "node_info \<times> pod \<times> planned_eviction"

definition load_cpu :: "placed list \<Rightarrow> string \<Rightarrow> quantity" where
  "load_cpu gs name =
     (\<Sum>g \<leftarrow> gs. if pe_target (snd (snd g)) = name then fst (pod_requests (fst (snd g))) else 0)"

definition load_mem :: "placed list \<Rightarrow> string \<Rightarrow> quantity" where
  "load_mem gs name =
     (\<Sum>g \<leftarrow> gs. if pe_target (snd (snd g)) = name then snd (pod_requests (fst (snd g))) else 0)"

text \<open>A planned eviction and its target: where the pod comes from and where it may go.\<close>

definition placed_ok :: "(node_info \<times> pod) list \<Rightarrow> node_info list \<Rightarrow> placed \<Rightarrow> bool" where
  "placed_ok pairs targets g \<longleftrightarrow>
     (case g of (c, p, e) \<Rightarrow>
        (c, p) \<in> set pairs \<and> pe_pod e = p_name p \<and> pe_namespace e = p_namespace p \<and> pe_source e = ni_name c \<and>
        (\<exists>t \<in> set targets. pe_target e = ni_name t \<and> gmatches (p_node_selector p) (n_labels (ni_node t)) \<and>
           tolerates_taints p (ni_node t)))"

definition add_load :: "placed list \<Rightarrow> node_info \<Rightarrow> node_info" where
  "add_load gs t =
     t\<lparr>ni_scheduled_cpu := ni_scheduled_cpu t + load_cpu gs (ni_name t),
       ni_scheduled_mem := ni_scheduled_mem t + load_mem gs (ni_name t)\<rparr>"

definition within_node :: "node_info \<Rightarrow> bool" where
  "within_node t \<longleftrightarrow> ni_scheduled_cpu t \<le> n_cpu (ni_node t) \<and> ni_scheduled_mem t \<le> n_mem (ni_node t)"

definition plan_inv ::
  "(node_info \<times> pod) list \<Rightarrow> node_info list \<Rightarrow> placed list \<Rightarrow> plan_state \<Rightarrow> bool" where
  "plan_inv pairs targets gs st \<longleftrightarrow>
     pl_plan st = map (snd \<circ> snd) gs \<and> list_all (placed_ok pairs targets) gs \<and>
     pl_targets st = map (add_load gs) targets \<and>
     (\<forall>t \<in> set targets. \<forall>g \<in> set gs. pe_target (snd (snd g)) = ni_name t \<longrightarrow> within_node (add_load gs t))"

lemma add_load_Nil [simp]: "add_load [] t = t"
  by (simp add: add_load_def load_cpu_def load_mem_def)

lemma add_load_snoc:
  "add_load (gs @ [(c, p, e)]) t =
     (if pe_target e = ni_name t
      then (add_load gs t)\<lparr>ni_scheduled_cpu := ni_scheduled_cpu (add_load gs t) + fst (pod_requests p),
                           ni_scheduled_mem := ni_scheduled_mem (add_load gs t) + snd (pod_requests p)\<rparr>
      else add_load gs t)"
  by (simp add: add_load_def load_cpu_def load_mem_def)

lemma add_load_node [simp]: "ni_node (add_load gs t) = ni_node t"
  by (simp add: add_load_def)

lemma can_fit_facts:
  "can_fit_on_node p t cpu mem \<Longrightarrow>
     ni_scheduled_cpu t + cpu \<le> n_cpu (ni_node t) \<and> ni_scheduled_mem t + mem \<le> n_mem (ni_node t) \<and>
     gmatches (p_node_selector p) (n_labels (ni_node t)) \<and> tolerates_taints p (ni_node t)"
  by (auto simp: can_fit_on_node_def split: if_splits)

text \<open>One more pod, placed on a target with room for it, keeps the invariant.\<close>

lemma plan_inv_place:
  assumes inv: "plan_inv pairs targets gs st" and cp: "(c, p) \<in> set pairs"
    and names: "distinct (map ni_name targets)" and t: "targets = us @ t # vs"
    and fit: "can_fit_on_node p (add_load gs t) (fst (pod_requests p)) (snd (pod_requests p))"
    and e: "pe_pod e = p_name p" "pe_namespace e = p_namespace p" "pe_source e = ni_name c" "pe_target e = ni_name t"
    and st': "pl_plan st' = pl_plan st @ [e]"
      "pl_targets st' = map (add_load gs) us @
         (add_load gs t)\<lparr>ni_scheduled_cpu := ni_scheduled_cpu (add_load gs t) + fst (pod_requests p),
           ni_scheduled_mem := ni_scheduled_mem (add_load gs t) + snd (pod_requests p)\<rparr> # map (add_load gs) vs"
  shows "plan_inv pairs targets (gs @ [(c, p, e)]) st'"
proof -
  let ?gs = "gs @ [(c, p, e)]"
  have others: "ni_name t' \<noteq> ni_name t" if "t' \<in> set us \<union> set vs" for t'
    using names that unfolding t by (auto simp: image_iff)
  have "placed_ok pairs targets (c, p, e)"
    using cp can_fit_facts [OF fit] t e by (auto simp: placed_ok_def)
  moreover have "pl_targets st' = map (add_load ?gs) targets"
    using others [THEN not_sym] e(4) by (auto simp: st' t add_load_snoc)
  moreover have "within_node (add_load ?gs t')"
    if t': "t' \<in> set targets" and g: "g \<in> set ?gs" "pe_target (snd (snd g)) = ni_name t'" for t' g
  proof (cases "t' = t")
    case True
    then show ?thesis using can_fit_facts [OF fit] e(4) by (simp add: within_node_def add_load_snoc)
  next
    case False
    with others t' have ne: "ni_name t' \<noteq> ni_name t" by (auto simp: t)
    with g e(4) have "g \<in> set gs" by auto
    with inv t' g(2) have "within_node (add_load gs t')" by (auto simp: plan_inv_def)
    with ne e(4) show ?thesis by (simp add: add_load_snoc)
  qed
  ultimately show ?thesis
    using inv st'(1) unfolding plan_inv_def by (simp add: Ball_def)
qed

lemma plan_pod_inv:
  assumes inv: "plan_inv pairs targets gs st" and cp: "(c, p) \<in> set pairs"
    and names: "distinct (map ni_name targets)" "[] \<notin> set (map ni_name targets)"
  shows "\<exists>gs'. plan_inv pairs targets gs' (plan_pod workloads c p st)"
proof (cases "plan_pod workloads c p st = st")
  case True
  with inv show ?thesis by auto
next
  case moved: False
  obtain name ts where find: "find_target_node p (pl_targets st) = (name, ts)"
    by (cases "find_target_node p (pl_targets st)")
  define e where "e = \<lparr>pe_pod = p_name p, pe_namespace = p_namespace p, pe_source = ni_name c,
    pe_target = name, pe_reason = plan_reason c\<rparr>"
  from find_target_node_cases [OF find] moved obtain us t vs cpu mem where
      split: "pl_targets st = us @ t # vs" and name: "name = ni_name t"
    and req: "pod_requests p = (cpu, mem)" and fit: "can_fit_on_node p t cpu mem"
    and ts: "ts = us @ t\<lparr>ni_scheduled_cpu := ni_scheduled_cpu t + cpu, ni_scheduled_mem := ni_scheduled_mem t + mem\<rparr> # vs"
    by (auto simp: plan_pod_def find Let_def)
  have "pl_targets st = map (add_load gs) targets" using inv by (simp add: plan_inv_def)
  with split obtain us0 t0 vs0 where t0: "targets = us0 @ t0 # vs0" "us = map (add_load gs) us0"
      "t = add_load gs t0" "vs = map (add_load gs) vs0"
    by (auto simp: map_eq_append_conv Cons_eq_map_conv)
  then have "name \<noteq> []" using name names(2) by (auto simp: add_load_def)
  then have step: "pl_targets (plan_pod workloads c p st) = ts" "pl_plan (plan_pod workloads c p st) = pl_plan st @ [e]"
    using moved by (auto simp: plan_pod_def find e_def Let_def split: if_splits option.splits)
  have "plan_inv pairs targets (gs @ [(c, p, e)]) (plan_pod workloads c p st)"
    by (rule plan_inv_place [OF inv cp names(1) t0(1)]) (use fit step in \<open>simp_all add: e_def name req ts t0\<close>)
  then show ?thesis by blast
qed

lemma plan_loop_inv:
  assumes "plan_inv pairs targets gs st" and "set cps \<subseteq> set pairs"
    and names: "distinct (map ni_name targets)" "[] \<notin> set (map ni_name targets)"
  shows "\<exists>gs'. plan_inv pairs targets gs' (plan_loop m workloads cps st)"
  using assms(1,2)
proof (induction m workloads cps st arbitrary: gs rule: plan_loop.induct)
  case (1 m workloads st)
  then show ?case by auto
next
  case (2 m workloads c p cps st)
  show ?case
  proof (cases "0 < m \<and> m \<le> s32 (int (length (pl_plan st)))")
    case True
    with 2(2) show ?thesis by auto
  next
    case False
    from 2(3) have "(c, p) \<in> set pairs" by simp
    from plan_pod_inv [OF 2(2) this names] obtain gs' where
      "plan_inv pairs targets gs' (plan_pod workloads c p st)" by blast
    from 2(1) [OF False this] 2(3) False show ?thesis by auto
  qed
qed

section \<open>What a plan promises\<close>

interpretation pack_analysis: node_analysis "bs_node_selector sp" ni_node ni_evictable "analyze_all sp rsm"
  for sp :: pack_spec and rsm :: rs_map
  by unfold_locales (auto simp: analyze_all_def analyze_node_def Let_def case_prod_beta comp_def)

text \<open>A pod that the analysis offers for eviction, from the node it runs on.\<close>

definition evictable_from :: "pack_spec \<Rightarrow> rs_map \<Rightarrow> pod list \<Rightarrow> node list \<Rightarrow> node \<Rightarrow> pod \<Rightarrow> bool" where
  "evictable_from sp rsm pods nodes n p \<longleftrightarrow>
     n \<in> set nodes \<and> \<not> n_unschedulable n \<and> gmatches (bs_node_selector sp) (n_labels n) \<and>
     p \<in> set pods \<and> p_node p = n_name n \<and> p_phase p = ''Running'' \<and>
     p_namespace p \<notin> set (excluded_namespaces sp) \<and>
     (bs_namespaces sp = [] \<or> p_namespace p \<in> set (bs_namespaces sp)) \<and>
     \<not> has_key mirror_annotation (p_annotations p) \<and> \<not> daemon_owned rsm p \<and>
     resolve_workload rsm p \<noteq> None \<and> \<not> list_ex vol_host_path (p_volumes p) \<and> \<not> p_deleting p"

lemma is_evictable_iff:
  "is_evictable ex inc rsm p \<longleftrightarrow>
     p_namespace p \<notin> set ex \<and> (inc = [] \<or> p_namespace p \<in> set inc) \<and>
     \<not> has_key mirror_annotation (p_annotations p) \<and> \<not> daemon_owned rsm p \<and>
     resolve_workload rsm p \<noteq> None \<and> \<not> list_ex vol_host_path (p_volumes p) \<and> \<not> p_deleting p"
proof -
  have "resolve_workload rsm p \<noteq> None \<Longrightarrow> p_owners p \<noteq> []" by (auto simp: resolve_workload_def)
  then show ?thesis by (auto simp: is_evictable_def)
qed

lemma analyzed_node:
  assumes "i \<in> set (analyze_all sp rsm pods nodes)" "p \<in> set (ni_evictable i)"
  shows "evictable_from sp rsm pods nodes (ni_node i) p"
proof -
  have "is_evictable (excluded_namespaces sp) (bs_namespaces sp) rsm p"
    using assms by (auto simp: analyze_all_def analyze_node_def Let_def case_prod_beta)
  then show ?thesis
    using pack_analysis.entry_node [OF assms(1)] pack_analysis.entry_pod [OF assms]
    by (simp add: evictable_from_def is_evictable_iff)
qed

definition plan_for ::
  "(node_info list \<Rightarrow> node_info list) \<Rightarrow> pack_spec \<Rightarrow> rs_map \<Rightarrow> pod list \<Rightarrow> node list \<Rightarrow> safety_context \<Rightarrow>
   planned_eviction list" where
  "plan_for srt sp rsm pods nodes safety =
     (let infos = analyze_all sp rsm pods nodes in
      build_consolidation_plan (find_candidate_nodes srt infos sp) infos sp safety)"

lemma plan_for_placed:
  fixes srt sp rsm pods nodes
  defines "cs \<equiv> find_candidate_nodes srt (analyze_all sp rsm pods nodes) sp"
  defines "ts \<equiv> target_nodes cs (analyze_all sp rsm pods nodes)"
  assumes names: "distinct (map n_name nodes)" "[] \<notin> set (map n_name nodes)"
  shows "\<exists>gs. plan_for srt sp rsm pods nodes safety = map (snd \<circ> snd) gs \<and>
    (\<forall>g \<in> set gs. placed_ok (candidate_pairs cs) ts g) \<and>
    (\<forall>t \<in> set ts. \<forall>g \<in> set gs. pe_target (snd (snd g)) = ni_name t \<longrightarrow> within_node (add_load gs t))"
proof -
  have infos: "distinct (map ni_name (analyze_all sp rsm pods nodes))" "[] \<notin> set (map ni_name (analyze_all sp rsm pods nodes))"
    using pack_analysis.entry_names_distinct [OF names(1)] pack_analysis.entry_name_in names(2) by fastforce+
  then have ts: "distinct (map ni_name ts)" "[] \<notin> set (map ni_name ts)"
    by (auto simp: ts_def target_nodes_def distinct_map_filter)
  have start: "plan_inv (candidate_pairs cs) ts []
      \<lparr>pl_targets = ts, pl_budget = sc_budget safety, pl_plan = []\<rparr>"
    by (simp add: plan_inv_def map_idI)
  obtain gs where inv: "plan_inv (candidate_pairs cs) ts gs
      (plan_loop (case bs_max_evictions sp of Some m \<Rightarrow> m | None \<Rightarrow> 0) (sc_workloads safety)
        (candidate_pairs cs) \<lparr>pl_targets = ts, pl_budget = sc_budget safety, pl_plan = []\<rparr>)"
    using plan_loop_inv [OF start subset_refl ts] by blast
  then show ?thesis
    unfolding plan_for_def build_consolidation_plan_def plan_inv_def Let_def list_all_iff cs_def ts_def by blast
qed

text \<open>
  C13: Every planned eviction is of a running pod that may be evicted, from an underutilised
  node, onto a node that is not being emptied itself, whose labels and taints the pod accepts;
  and the requests of all pods planned onto a node, with those of the pods it runs, stay
  within its allocatable CPU and memory. Nodes have different, non-empty names.
\<close>

theorem plan_places_pods_safely:
  assumes srt: "permutes srt" and names: "distinct (map n_name nodes)" "[] \<notin> set (map n_name nodes)"
  shows "\<exists>gs. plan_for srt sp rsm pods nodes safety = map (snd \<circ> snd) gs \<and>
    (\<forall>(c, p, e) \<in> set gs. pe_pod e = p_name p \<and> pe_namespace e = p_namespace p \<and> pe_source e = ni_name c \<and>
       evictable_from sp rsm pods nodes (ni_node c) p \<and> below_thresholds sp c \<and>
       (\<exists>t \<in> set (analyze_all sp rsm pods nodes). pe_target e = ni_name t \<and>
          \<not> (ni_evictable t \<noteq> [] \<and> below_thresholds sp t) \<and>
          gmatches (p_node_selector p) (n_labels (ni_node t)) \<and> tolerates_taints p (ni_node t) \<and>
          ni_scheduled_cpu t + load_cpu gs (ni_name t) \<le> n_cpu (ni_node t) \<and>
          ni_scheduled_mem t + load_mem gs (ni_name t) \<le> n_mem (ni_node t)))"
proof -
  let ?infos = "analyze_all sp rsm pods nodes"
  let ?cs = "find_candidate_nodes srt ?infos sp"
  let ?ts = "target_nodes ?cs ?infos"
  have cs: "set ?cs = {i \<in> set ?infos. ni_evictable i \<noteq> [] \<and> below_thresholds sp i}"
    using permutes_set [OF srt] by (auto simp: find_candidate_nodes_def)
  obtain gs where gs: "plan_for srt sp rsm pods nodes safety = map (snd \<circ> snd) gs"
    "\<forall>g \<in> set gs. placed_ok (candidate_pairs ?cs) ?ts g"
    "\<forall>t \<in> set ?ts. \<forall>g \<in> set gs. pe_target (snd (snd g)) = ni_name t \<longrightarrow> within_node (add_load gs t)"
    using plan_for_placed [OF names] by blast
  have "pe_pod e = p_name p \<and> pe_namespace e = p_namespace p \<and> pe_source e = ni_name c \<and>
       evictable_from sp rsm pods nodes (ni_node c) p \<and> below_thresholds sp c \<and>
       (\<exists>t \<in> set ?infos. pe_target e = ni_name t \<and> \<not> (ni_evictable t \<noteq> [] \<and> below_thresholds sp t) \<and>
          gmatches (p_node_selector p) (n_labels (ni_node t)) \<and> tolerates_taints p (ni_node t) \<and>
          ni_scheduled_cpu t + load_cpu gs (ni_name t) \<le> n_cpu (ni_node t) \<and>
          ni_scheduled_mem t + load_mem gs (ni_name t) \<le> n_mem (ni_node t))"
    if g: "(c, p, e) \<in> set gs" for c p e
  proof -
    from gs(2) g have ok: "placed_ok (candidate_pairs ?cs) ?ts (c, p, e)" by blast
    then have cp: "c \<in> set ?cs" "p \<in> set (ni_evictable c)"
      by (auto simp: placed_ok_def candidate_pairs_def)
    with cs have c: "c \<in> set ?infos" "below_thresholds sp c" by auto
    from ok obtain t where t: "t \<in> set ?ts" "pe_target e = ni_name t"
      "gmatches (p_node_selector p) (n_labels (ni_node t))" "tolerates_taints p (ni_node t)"
      by (auto simp: placed_ok_def)
    from gs(3) t(1,2) g have "within_node (add_load gs t)" by fastforce
    moreover have "t \<in> set ?infos" "t \<notin> set ?cs" using t(1) by (auto simp: target_nodes_def)
    ultimately show ?thesis
      using ok t c(2) cs analyzed_node [OF c(1) cp(2)]
      by (auto simp: placed_ok_def within_node_def add_load_def intro!: bexI [of _ t])
  qed
  with gs(1) show ?thesis by blast
qed

text \<open>Two nodes of four CPUs: on the first one pod of a Deployment, on the second no pod.\<close>

definition small_container :: container where
  "small_container = \<lparr>ct_name = ''c'', ct_cpu = Some (500 * 1000000), ct_mem = None\<rparr>"

definition small_pod :: pod where
  "small_pod =
     \<lparr>p_name = ''web-1'', p_namespace = ''dev'', p_labels = [], p_annotations = [],
      p_owners = [(''ReplicaSet'', ''web-rs'')], p_deleting = False, p_node = ''a'', p_phase = ''Running'',
      p_containers = [small_container], p_init_containers = [], p_node_selector = [],
      p_tolerations = [], p_volumes = []\<rparr>"

definition cpu_node :: "string \<Rightarrow> node" where
  "cpu_node name =
     \<lparr>n_name = name, n_labels = [], n_unschedulable = False, n_taints = [],
      n_cpu = 4 * 1000000000, n_mem = 1000000000, n_conditions = [(''Ready'', ''True'')]\<rparr>"

definition small_pack :: pack_spec where
  "small_pack =
     \<lparr>bs_action = ''consolidate'', bs_node_selector = [], bs_namespaces = [], bs_exclude_namespaces = [],
      bs_cpu_threshold = Some 30, bs_mem_threshold = None, bs_schedule = None, bs_max_evictions = Some 1,
      bs_dry_run = False, bs_interval = None\<rparr>"

definition small_rs_map :: rs_map where
  "small_rs_map = rs_map_of [\<lparr>rs_name = ''web-rs'', rs_namespace = ''dev'', rs_owners = [(''Deployment'', ''web'')]\<rparr>]"

definition small_deployment :: replicated where
  "small_deployment = \<lparr>rp_namespace = ''dev'', rp_name = ''web'', rp_template_labels = [], rp_ready = 2\<rparr>"

definition small_infos :: "node_info list" where
  "small_infos = analyze_all small_pack small_rs_map [small_pod] [cpu_node ''a'', cpu_node ''b'']"

definition small_safety :: safety_context where
  "small_safety =
     safety_of (\<lambda>_. None) small_rs_map (find_candidate_nodes (\<lambda>xs. xs) small_infos small_pack) [] [small_deployment] []"

definition small_plan :: "planned_eviction list" where
  "small_plan = plan_for (\<lambda>xs. xs) small_pack small_rs_map [small_pod] [cpu_node ''a'', cpu_node ''b''] small_safety"

theorem plan_places_pods_safely_witness:
  "map (\<lambda>e. (pe_pod e, pe_source e, pe_target e)) small_plan = [(''web-1'', ''a'', ''b'')] \<and>
   (\<exists>gs :: placed list. small_plan = map (snd \<circ> snd) gs \<and>
    (\<forall>(c, p, e) \<in> set gs. evictable_from small_pack small_rs_map [small_pod] [cpu_node ''a'', cpu_node ''b''] (ni_node c) p))"
proof -
  have "map (\<lambda>e. (pe_pod e, pe_source e, pe_target e)) small_plan = [(''web-1'', ''a'', ''b'')]"
    by code_simp
  moreover have srt: "permutes (\<lambda>xs :: node_info list. xs)" by (simp add: permutes_def)
  have names: "distinct (map n_name [cpu_node ''a'', cpu_node ''b''])" "[] \<notin> set (map n_name [cpu_node ''a'', cpu_node ''b''])"
    by (simp_all add: cpu_node_def)
  obtain gs :: "placed list" where "small_plan = map (snd \<circ> snd) gs"
      "\<forall>(c, p, e) \<in> set gs. evictable_from small_pack small_rs_map [small_pod] [cpu_node ''a'', cpu_node ''b''] (ni_node c) p"
    using plan_places_pods_safely [OF srt names, of small_pack small_rs_map "[small_pod]" small_safety]
    unfolding small_plan_def case_prod_beta by blast
  ultimately show ?thesis by blast
qed

text \<open>How many planned evictions hit a workload.\<close>

definition planned_for ::
  "(string \<Rightarrow> workload_ref option) \<Rightarrow> planned_eviction list \<Rightarrow> workload_ref \<Rightarrow> nat" where
  "planned_for workloads plan wl =
     length (filter (\<lambda>e. workloads (slash_key (pe_namespace e) (pe_pod e)) = Some wl) plan)"

definition budget_inv ::
  "(string \<Rightarrow> workload_ref option) \<Rightarrow> (workload_ref \<Rightarrow> int) \<Rightarrow> plan_state \<Rightarrow> bool" where
  "budget_inv workloads budget st \<longleftrightarrow>
     (\<forall>wl. pl_budget st wl = budget wl - int (planned_for workloads (pl_plan st) wl) \<and>
           int (planned_for workloads (pl_plan st) wl) \<le> max 0 (budget wl))"

lemma plan_pod_budget:
  assumes "budget_inv workloads budget st"
  shows "budget_inv workloads budget (plan_pod workloads c p st)"
proof -
  let ?key = "slash_key (p_namespace p) (p_name p)"
  obtain name ts where find: "find_target_node p (pl_targets st) = (name, ts)"
    by (cases "find_target_node p (pl_targets st)")
  show ?thesis
  proof (cases "(case workloads ?key of Some wl \<Rightarrow> pl_budget st wl \<le> 0 | None \<Rightarrow> False) \<or> name = []")
    case True
    with assms find show ?thesis by (auto simp: plan_pod_def Let_def budget_inv_def)
  next
    case False
    show ?thesis
      unfolding budget_inv_def
    proof
      fix wl
      from assms have old: "pl_budget st wl = budget wl - int (planned_for workloads (pl_plan st) wl)"
        "int (planned_for workloads (pl_plan st) wl) \<le> max 0 (budget wl)" by (simp_all add: budget_inv_def)
      let ?new = "plan_pod workloads c p st"
      have plan: "planned_for workloads (pl_plan ?new) wl =
          planned_for workloads (pl_plan st) wl + (if workloads ?key = Some wl then 1 else 0)"
        using False find by (simp add: plan_pod_def planned_for_def)
      have budget: "pl_budget ?new wl = pl_budget st wl - (if workloads ?key = Some wl then 1 else 0)"
        using False find by (simp add: plan_pod_def split: option.split)
      have "workloads ?key = Some wl \<Longrightarrow> 0 < pl_budget st wl" using False by simp
      with old plan budget show "pl_budget ?new wl = budget wl - int (planned_for workloads (pl_plan ?new) wl) \<and>
          int (planned_for workloads (pl_plan ?new) wl) \<le> max 0 (budget wl)" by auto
    qed
  qed
qed

lemma plan_loop_budget:
  "budget_inv workloads budget st \<Longrightarrow> budget_inv workloads budget (plan_loop m workloads cps st)"
  by (induction m workloads cps st rule: plan_loop.induct) (auto simp: plan_pod_budget)

text \<open>
  C14: No plan takes more pods from a workload than its disruption budget allows, and none at
  all from a workload without a positive budget.
\<close>

theorem plan_within_budget:
  "int (planned_for (sc_workloads safety) (build_consolidation_plan candidates infos sp safety) wl)
     \<le> max 0 (sc_budget safety wl)"
proof -
  have "budget_inv (sc_workloads safety) (sc_budget safety)
      \<lparr>pl_targets = target_nodes candidates infos, pl_budget = sc_budget safety, pl_plan = []\<rparr>"
    by (simp add: budget_inv_def planned_for_def)
  from plan_loop_budget [OF this] show ?thesis
    by (simp add: build_consolidation_plan_def budget_inv_def)
qed

text \<open>A disruption budget that selects a workload's pods: same namespace, selector valid and matching.\<close>

definition selects :: "selector_of \<Rightarrow> string \<Rightarrow> smap \<Rightarrow> disruption_budget \<Rightarrow> bool" where
  "selects as_sel ns labels d \<longleftrightarrow>
     pdb_namespace d = ns \<and>
     (\<exists>ls matches. pdb_selector d = Some ls \<and> as_sel ls = Some matches \<and> matches labels)"

lemma pdb_budget_step:
  "pdb_budget as_sel ns labels (d # pdbs) b =
     pdb_budget as_sel ns labels pdbs
       (if selects as_sel ns labels d \<and> (b = - 1 \<or> pdb_allowed d < b) then pdb_allowed d else b)"
proof (cases "pdb_namespace d = ns")
  case True
  show ?thesis
  proof (cases "pdb_selector d")
    case (Some ls)
    then show ?thesis by (cases "as_sel ls") (simp_all add: True selects_def)
  qed (simp add: True selects_def)
qed (simp add: selects_def)

declare pdb_budget.simps(2) [simp del]

lemma pdb_budget_started:
  "0 \<le> b \<Longrightarrow> (\<And>d. d \<in> set pdbs \<Longrightarrow> 0 \<le> pdb_allowed d) \<Longrightarrow>
     pdb_budget as_sel ns labels pdbs b =
       foldr min (map pdb_allowed (filter (selects as_sel ns labels) pdbs)) b"
proof (induction pdbs arbitrary: b)
  case (Cons d pdbs)
  have out: "foldr min xs (min a b) = min a (foldr min xs b)" for xs and a :: int
    by (induction xs) (auto simp: min_def)
  show ?case
  proof (cases "selects as_sel ns labels d")
    case True
    let ?b = "min (pdb_allowed d) b"
    have "pdb_budget as_sel ns labels (d # pdbs) b = pdb_budget as_sel ns labels pdbs ?b"
      using True Cons.prems(1) by (simp add: pdb_budget_step min_def)
    also have "... = foldr min (map pdb_allowed (filter (selects as_sel ns labels) pdbs)) ?b"
      using Cons.prems by (intro Cons.IH) auto
    finally show ?thesis using True by (simp add: out)
  next
    case False
    then show ?thesis using Cons by (simp add: pdb_budget_step)
  qed
qed simp

lemma pdb_budget_first:
  "(\<And>d. d \<in> set pdbs \<Longrightarrow> 0 \<le> pdb_allowed d) \<Longrightarrow>
     pdb_budget as_sel ns labels pdbs (- 1) =
       (case map pdb_allowed (filter (selects as_sel ns labels) pdbs) of
          [] \<Rightarrow> - 1 | a # as \<Rightarrow> foldr min as a)"
proof (induction pdbs)
  case (Cons d pdbs)
  then show ?case by (auto simp: pdb_budget_step pdb_budget_started)
qed simp

lemma foldr_min_Min: "foldr min as (a :: int) = Min (set (a # as))"
  by (induction as) (auto simp: insert_commute min.left_commute min.commute)

text \<open>The labels and ready replicas the code finds for a workload.\<close>

definition workload_target :: "replicated list \<Rightarrow> replicated list \<Rightarrow> workload_ref \<Rightarrow> smap \<times> int" where
  "workload_target deployments stss wl =
     (case wl of WorkloadRef ns kind name \<Rightarrow>
        (case (if kind = ''Deployment'' then find_replicated ns name deployments
               else if kind = ''StatefulSet'' then find_replicated ns name stss else None) of
           Some r \<Rightarrow> (rp_template_labels r, rp_ready r) | None \<Rightarrow> ([], 0)))"

text \<open>
  The budget of a workload is the least number of disruptions allowed by the budgets of its
  namespace whose selector matches its pod template; where there is none, all but one of its
  ready replicas. The status of a budget never allows a negative number.
\<close>

theorem workload_budget_eq:
  assumes "\<And>d. d \<in> set pdbs \<Longrightarrow> 0 \<le> pdb_allowed d"
  shows "workload_budget as_sel pdbs deployments stss wl =
    (let (labels, ready) = workload_target deployments stss wl;
         allowed = map pdb_allowed (filter (selects as_sel (wr_namespace wl) labels) pdbs)
     in if allowed = [] then s32 (ready - 1) else Min (set allowed))"
proof (cases wl)
  case (WorkloadRef ns kind name)
  obtain labels ready where t: "workload_target deployments stss wl = (labels, ready)"
    by (cases "workload_target deployments stss wl")
  let ?allowed = "map pdb_allowed (filter (selects as_sel ns labels) pdbs)"
  have b: "workload_budget as_sel pdbs deployments stss wl =
      (let budget = pdb_budget as_sel ns labels pdbs (- 1) in if 0 \<le> budget then budget else s32 (ready - 1))"
    using t by (simp add: workload_budget_def workload_target_def WorkloadRef Let_def)
  show ?thesis
  proof (cases ?allowed)
    case Nil
    then show ?thesis using b assms t by (simp add: pdb_budget_first WorkloadRef)
  next
    case (Cons a as)
    have "\<forall>x \<in> set ?allowed. 0 \<le> x" using assms by auto
    then have "\<forall>x \<in> set (a # as). 0 \<le> x" unfolding Cons .
    then have "0 \<le> Min (set (a # as))" by (intro Min.boundedI) auto
    moreover have "pdb_budget as_sel ns labels pdbs (- 1) = Min (set (a # as))"
      using assms Cons by (simp add: pdb_budget_first foldr_min_Min del: Min_insert)
    ultimately show ?thesis using b t Cons by (auto simp: WorkloadRef Let_def simp del: Min_insert)
  qed
qed

text \<open>Two budgets match the pods of a workload, a third is of another namespace.\<close>

theorem workload_budget_eq_witness:
  "workload_budget (\<lambda>_. Some (\<lambda>_. True))
     [\<lparr>pdb_namespace = ''dev'', pdb_selector = Some (LabelSelector [] []), pdb_allowed = 2\<rparr>,
      \<lparr>pdb_namespace = ''prod'', pdb_selector = Some (LabelSelector [] []), pdb_allowed = 0\<rparr>,
      \<lparr>pdb_namespace = ''dev'', pdb_selector = Some (LabelSelector [] []), pdb_allowed = 1\<rparr>]
     [small_deployment] [] (WorkloadRef ''dev'' ''Deployment'' ''web'') = 1"
  by (subst workload_budget_eq) (auto simp: workload_target_def small_deployment_def find_replicated_def selects_def)

section \<open>Limits on evictions\<close>

lemma find_target_node_nil: "find_target_node p [] = ([], [])"
  by simp

lemma plan_pod_length: "length (pl_plan (plan_pod workloads c p st)) \<le> Suc (length (pl_plan st))"
  by (simp add: plan_pod_def Let_def split: option.split prod.split)

lemma plan_loop_capped:
  "0 < m \<Longrightarrow> m < 2 ^ 31 \<Longrightarrow> int (length (pl_plan st)) \<le> m \<Longrightarrow>
     int (length (pl_plan (plan_loop m workloads cps st))) \<le> m"
proof (induction m workloads cps st rule: plan_loop.induct)
  case (2 m workloads c p cps st)
  have len: "s32 (int (length (pl_plan st))) = int (length (pl_plan st))"
    using 2(3,4) by (intro s32_id) auto
  show ?case
  proof (cases "m \<le> int (length (pl_plan st))")
    case True
    with 2 len show ?thesis by simp
  next
    case False
    have "int (length (pl_plan (plan_pod workloads c p st))) \<le> m"
      using plan_pod_length [of workloads c p st] False by linarith
    then show ?thesis using 2 len False by simp
  qed
qed simp

text \<open>
  A positive \<open>maxEvictionsPerCycle\<close> bounds the length of every plan.
\<close>

theorem plan_capped:
  assumes "bs_max_evictions sp = Some m" "0 < m" "m < 2 ^ 31"
  shows "int (length (build_consolidation_plan candidates infos sp safety)) \<le> m"
  using assms by (simp add: build_consolidation_plan_def plan_loop_capped)

theorem plan_capped_witness:
  "int (length (build_consolidation_plan small_infos small_infos small_pack small_safety)) \<le> 1"
  by (rule plan_capped) (simp_all add: small_pack_def)

text \<open>
  In report mode and in a dry run no eviction is created: the result and the state of the
  cluster are the same whatever the eviction call would do.
\<close>

theorem no_eviction_without_consent:
  assumes "bs_action (bp_spec bp) = ''report'' \<or> bs_dry_run (bp_spec bp)"
  shows "consolidate srt as_sel dflt (c\<lparr>b_evict := ev\<rparr>) now bp w = consolidate srt as_sel dflt c now bp w"
proof -
  have [simp]: "analyze_nodes (c\<lparr>b_evict := ev\<rparr>) = analyze_nodes c"
    by (intro ext) (simp add: analyze_nodes_def cong: sum.case_cong)
  have [simp]: "build_safety_context as_sel (c\<lparr>b_evict := ev\<rparr>) = build_safety_context as_sel c" for as_sel
    by (intro ext) (simp add: build_safety_context_def cong: sum.case_cong)
  have [simp]: "status_result (c\<lparr>b_evict := ev\<rparr>) = status_result c"
    by (intro ext) (simp add: status_result_def)
  show ?thesis
    unfolding consolidate_def by (rule disjE [OF assms]) (simp_all add: Let_def split: sum.split prod.split)
qed

text \<open>A packer in a dry run, on a client where evictions fail; the plan is made all the same.\<close>

definition small_kube :: "nat pack_kube" where
  "small_kube =
     \<lparr>b_get_packer = (\<lambda>_ _. Inl ErrNotFound), b_update_packer = (\<lambda>p w. (Inr p, w)),
      b_update_status = (\<lambda>p w. (Inr p, length (bst_plan (bp_status p)))),
      b_nodes = (\<lambda>_. Inr [cpu_node ''a'', cpu_node ''b'']), b_pods = (\<lambda>_. Inr [small_pod]),
      b_replica_sets = (\<lambda>_. Inr [\<lparr>rs_name = ''web-rs'', rs_namespace = ''dev'', rs_owners = [(''Deployment'', ''web'')]\<rparr>]),
      b_budgets = (\<lambda>_. Inr []), b_deployments = (\<lambda>_. Inr [small_deployment]), b_stateful_sets = (\<lambda>_. Inr []),
      b_evict = (\<lambda>_ _ w. (Some (ErrOther ''denied''), w))\<rparr>"

definition dry_packer :: bin_packer where
  "dry_packer =
     \<lparr>bp_name = ''pack'', bp_deleting = False, bp_finalizer = True, bp_spec = small_pack\<lparr>bs_dry_run := True\<rparr>,
      bp_status = \<lparr>bst_candidates = [], bst_candidate_count = 0, bst_plan = [], bst_last_analysis = None,
                   bst_last_consolidation = None, bst_nodes_analyzed = 0, bst_evicted_cycle = 0, bst_total_evicted = 0\<rparr>\<rparr>"

theorem no_eviction_without_consent_witness:
  "snd (consolidate (\<lambda>xs. xs) (\<lambda>_. None) 0 (small_kube\<lparr>b_evict := (\<lambda>_ _ w. (None, w + 100))\<rparr>) 0 dry_packer 0) = 1"
proof -
  have "snd (consolidate (\<lambda>xs. xs) (\<lambda>_. None) 0 small_kube 0 dry_packer 0) = 1" by code_simp
  moreover have "bs_action (bp_spec dry_packer) = ''report'' \<or> bs_dry_run (bp_spec dry_packer)"
    by (simp add: dry_packer_def)
  ultimately show ?thesis by (simp only: no_eviction_without_consent)
qed

end
