(* ===== verification/Node_Drain.thy ===== *)
theory Node_Drain
  imports Kube_Nodes
begin

text \<open>
  The node drain controller (\<open>nodedrainpolicy_controller.go\<close>): when a cron tick is due it
  cordons the least used nodes, evicts their pods, waits until they are gone and deletes or
  uncordons the node. The run-time environment (cron and zone libraries, formatting,
  \<open>sort.Slice\<close>, \<open>meta.SetStatusCondition\<close>) and the client with the clock are records of
  functions, parameters of every operation. Waiting for a drain is a loop that nothing in the
  code bounds but the clock, so the operations that wait return an option, \<open>None\<close> if they
  never come back.
\<close>

section \<open>Types\<close>

record drain_thresholds =
  dt_cpu :: "int option"
  dt_mem :: "int option"

record drain_schedule =
  dsc_cron :: string
  dsc_timezone :: string

record drain_config =
  dc_grace :: "int option"
  dc_timeout :: "int option"
  dc_delete_empty_dir :: bool
  dc_ignore_daemon_sets :: "bool option"
  dc_delete_node :: bool
  dc_pod_selector :: smap

record drain_safety =
  dsf_max_nodes :: "int option"
  dsf_min_ready :: "int option"
  dsf_dry_run :: bool

record drain_spec =
  dsp_node_selector :: smap
  dsp_thresholds :: drain_thresholds
  dsp_schedule :: drain_schedule
  dsp_drain :: drain_config
  dsp_safety :: drain_safety
  dsp_suspend :: bool
  dsp_interval :: "duration option"

record node_result =
  nr_name :: string
  nr_cpu_percent :: int
  nr_mem_percent :: int
  nr_action :: string
  nr_reason :: string
  nr_pods_evicted :: int

record drain_run =
  dr_start :: instant
  dr_completion :: "instant option"
  dr_evaluated :: int
  dr_candidates :: int
  dr_drained :: int
  dr_deleted :: int
  dr_results :: "node_result list"

record drain_status =
  dst_conditions :: "condition list"
  dst_last_run :: "drain_run option"
  dst_next_run :: "instant option"
  dst_total_drained :: int

record drain_policy =
  dp_name :: string
  dp_generation :: int
  dp_deleting :: bool
  dp_finalizer :: bool
  dp_spec :: drain_spec
  dp_status :: drain_status

text \<open>\<open>drainNodeInfo\<close>; name and allocatable resources are those of the node it holds.\<close>

record drain_info =
  di_node :: node
  di_cpu_requests :: quantity
  di_mem_requests :: quantity
  di_cpu_percent :: int
  di_mem_percent :: int
  di_drainable :: "pod list"

abbreviation di_name :: "drain_info \<Rightarrow> string" where
  "di_name i \<equiv> n_name (di_node i)"

text \<open>
  The libraries: \<open>time.LoadLocation\<close> and the cron parser with its \<open>Next\<close>, each with an error
  text; \<open>%q\<close>, \<open>time.RFC3339\<close> and \<open>err.Error()\<close> of a client error; \<open>sort.Slice\<close> by
  utilization; \<open>meta.SetStatusCondition\<close>; the default interval of the reconciler.
\<close>

record drain_env =
  de_load :: "string \<Rightarrow> string + location"
  de_cron :: "string \<Rightarrow> string + (location \<Rightarrow> instant \<Rightarrow> instant)"
  de_quote :: "string \<Rightarrow> string"
  de_rfc3339 :: "location \<Rightarrow> instant \<Rightarrow> string"
  de_text :: "kerr \<Rightarrow> string"
  de_sort :: "drain_info list \<Rightarrow> drain_info list"
  de_set_cond :: "condition list \<Rightarrow> condition \<Rightarrow> condition list"
  de_default :: duration

text \<open>
  The client. \<open>dk_patch_node\<close> sends the merge patch of a node whose body is the new value of
  \<open>spec.unschedulable\<close>, or empty. \<open>dk_now\<close> is \<open>time.Now\<close>, which may let time pass; \<open>dk_wait\<close>
  waits for a duration and tells whether the context was cancelled first; \<open>dk_event\<close> records an
  event with its reason and text.
\<close>

record 'w drain_kube =
  dk_get_policy :: "string \<Rightarrow> 'w \<Rightarrow> kerr + drain_policy"
  dk_update_policy :: "drain_policy \<Rightarrow> 'w \<Rightarrow> (kerr + drain_policy) \<times> 'w"
  dk_update_status :: "drain_policy \<Rightarrow> 'w \<Rightarrow> (kerr + drain_policy) \<times> 'w"
  dk_nodes :: "'w \<Rightarrow> kerr + node list"
  dk_pods :: "'w \<Rightarrow> kerr + pod list"
  dk_get_node :: "string \<Rightarrow> 'w \<Rightarrow> kerr + node"
  dk_patch_node :: "string \<Rightarrow> bool option \<Rightarrow> 'w \<Rightarrow> kerr option \<times> 'w"
  dk_evict :: "string \<Rightarrow> string \<Rightarrow> int option \<Rightarrow> 'w \<Rightarrow> kerr option \<times> 'w"
  dk_delete_node :: "string \<Rightarrow> 'w \<Rightarrow> kerr option \<times> 'w"
  dk_event :: "string \<Rightarrow> string \<Rightarrow> 'w \<Rightarrow> 'w"
  dk_now :: "'w \<Rightarrow> instant \<times> 'w"
  dk_wait :: "duration \<Rightarrow> 'w \<Rightarrow> bool \<times> 'w"

definition drain_interval :: "drain_env \<Rightarrow> drain_policy \<Rightarrow> duration" where
  "drain_interval env p =
     (case dsp_interval (dp_spec p) of
        Some d \<Rightarrow> d
      | None \<Rightarrow> if 0 < de_default env then de_default env else 6 * minute + 30 * second)"

section \<open>Analysis\<close>

definition is_drainable :: "pod \<Rightarrow> bool \<Rightarrow> bool \<Rightarrow> smap \<Rightarrow> bool" where
  "is_drainable p ignore_daemon_sets delete_empty_dir sel =
     (if has_key mirror_annotation (p_annotations p) then False
      else if p_deleting p then False
      else if ignore_daemon_sets \<and> has_owner_kind ''DaemonSet'' (p_owners p) then False
      else if \<not> delete_empty_dir \<and> list_ex vol_empty_dir (p_volumes p) then False
      else gmatches sel (p_labels p))"

definition ignores_daemon_sets :: "drain_config \<Rightarrow> bool" where
  "ignores_daemon_sets d = (case dc_ignore_daemon_sets d of Some b \<Rightarrow> b | None \<Rightarrow> True)"

definition drain_analyze_node :: "drain_spec \<Rightarrow> pod list \<Rightarrow> node \<Rightarrow> drain_info" where
  "drain_analyze_node sp pods n =
     (let ps = pods_on_node pods (n_name n);
          (cpu, mem) = total_requests ps (0, 0);
          d = dsp_drain sp
      in \<lparr>di_node = n, di_cpu_requests = cpu, di_mem_requests = mem,
          di_cpu_percent = cpu_percent cpu (n_cpu n), di_mem_percent = mem_percent mem (n_mem n),
          di_drainable = filter
            (\<lambda>p. is_drainable p (ignores_daemon_sets d) (dc_delete_empty_dir d) (dc_pod_selector d)) ps\<rparr>)"

definition drain_analyze_all :: "drain_spec \<Rightarrow> pod list \<Rightarrow> node list \<Rightarrow> drain_info list" where
  "drain_analyze_all sp pods nodes =
     map (drain_analyze_node sp pods)
       (filter (\<lambda>n. \<not> n_unschedulable n \<and> gmatches (dsp_node_selector sp) (n_labels n)) nodes)"

definition drain_analyze_nodes :: "'w drain_kube \<Rightarrow> drain_spec \<Rightarrow> 'w \<Rightarrow> kerr + drain_info list" where
  "drain_analyze_nodes c sp w =
     (case dk_nodes c w of
        Inl e \<Rightarrow> Inl e
      | Inr nodes \<Rightarrow>
        (case dk_pods c w of
           Inl e \<Rightarrow> Inl e
         | Inr pods \<Rightarrow> Inr (drain_analyze_all sp pods nodes)))"

definition below_some_threshold :: "drain_thresholds \<Rightarrow> drain_info \<Rightarrow> bool" where
  "below_some_threshold t i =
     ((case dt_cpu t of Some c \<Rightarrow> di_cpu_percent i < c | None \<Rightarrow> False) \<or>
      (case dt_mem t of Some m \<Rightarrow> di_mem_percent i < m | None \<Rightarrow> False))"

definition find_drain_candidates :: "drain_info list \<Rightarrow> drain_spec \<Rightarrow> drain_info list" where
  "find_drain_candidates infos sp = filter (below_some_threshold (dsp_thresholds sp)) infos"

fun ready_condition :: "(string \<times> string) list \<Rightarrow> bool" where
  "ready_condition [] = False"
| "ready_condition ((type, status) # cs) =
     (if type = ''Ready'' then status = ''True'' else ready_condition cs)"

definition is_node_ready :: "node \<Rightarrow> bool" where
  "is_node_ready n = ready_condition (n_conditions n)"

section \<open>How many nodes may be drained\<close>

definition max_drainable :: "drain_safety \<Rightarrow> drain_info list \<Rightarrow> int" where
  "max_drainable s infos =
     (let max_nodes = (case dsf_max_nodes s of Some m \<Rightarrow> m | None \<Rightarrow> 1);
          min_ready = (case dsf_min_ready s of Some m \<Rightarrow> m | None \<Rightarrow> 1);
          ready = s32 (int (length (filter (\<lambda>i. is_node_ready (di_node i)) infos)));
          m = s32 (ready - min_ready);
          m' = (if m < 0 then 0 else m)
      in if max_nodes < m' then max_nodes else m')"

text \<open>The slice \<open>candidates[:maxDrainable]\<close>, which panics on a negative bound.\<close>

definition limit_candidates :: "int \<Rightarrow> drain_info list \<Rightarrow> drain_info list option" where
  "limit_candidates m cs =
     (if m < s32 (int (length cs)) then if m < 0 then None else Some (take (nat m) cs) else Some cs)"

section \<open>Waiting for a drain\<close>

text \<open>A pod that \<open>waitForDrain\<close> still waits for.\<close>

definition still_there :: "string \<Rightarrow> pod \<Rightarrow> bool" where
  "still_there name p =
     (p_node p = name \<and> p_phase p \<noteq> ''Succeeded'' \<and> p_phase p \<noteq> ''Failed'' \<and> \<not> p_deleting p \<and>
      \<not> has_owner_kind ''DaemonSet'' (p_owners p) \<and> \<not> has_key mirror_annotation (p_annotations p))"

partial_function (option) wait_loop ::
  "'w drain_kube \<Rightarrow> string \<Rightarrow> instant \<Rightarrow> 'w \<Rightarrow> (bool \<times> 'w) option" where
  "wait_loop c name deadline w =
     (case dk_now c w of (now, w1) \<Rightarrow>
        if now < deadline then
          (case dk_pods c w1 of
             Inl e \<Rightarrow> Some (False, w1)
           | Inr pods \<Rightarrow>
               if filter (still_there name) pods = [] then Some (True, w1)
               else
                 (case dk_wait c (2 * second) w1 of (cancelled, w2) \<Rightarrow>
                    if cancelled then Some (False, w2) else wait_loop c name deadline w2))
        else Some (False, w1))"

declare wait_loop.simps [code]

definition wait_for_drain ::
  "'w drain_kube \<Rightarrow> string \<Rightarrow> duration \<Rightarrow> 'w \<Rightarrow> (bool \<times> 'w) option" where
  "wait_for_drain c name timeout w =
     (case dk_now c w of (now, w1) \<Rightarrow> wait_loop c name (now + timeout) w1)"

section \<open>Draining one node\<close>

definition unschedulable_patch :: "node \<Rightarrow> bool \<Rightarrow> bool option" where
  "unschedulable_patch n b = (if n_unschedulable n = b then None else Some b)"

definition cordon_node :: "'w drain_kube \<Rightarrow> node \<Rightarrow> 'w \<Rightarrow> kerr option \<times> 'w" where
  "cordon_node c n w = dk_patch_node c (n_name n) (unschedulable_patch n True) w"

definition uncordon_node :: "'w drain_kube \<Rightarrow> string \<Rightarrow> 'w \<Rightarrow> kerr option \<times> 'w" where
  "uncordon_node c name w =
     (case dk_get_node c name w of
        Inl e \<Rightarrow> (Some e, w)
      | Inr n \<Rightarrow> dk_patch_node c (n_name n) (unschedulable_patch n False) w)"

text \<open>The eviction is created under the pod's name, with the grace period when one is given.\<close>

definition evict_pod_for_drain :: "'w drain_kube \<Rightarrow> pod \<Rightarrow> int option \<Rightarrow> 'w \<Rightarrow> kerr option \<times> 'w" where
  "evict_pod_for_drain c p grace w = dk_evict c (p_namespace p) (p_name p) grace w"

definition delete_node :: "'w drain_kube \<Rightarrow> string \<Rightarrow> 'w \<Rightarrow> kerr option \<times> 'w" where
  "delete_node c name w = dk_delete_node c name w"

declare evict_pod_for_drain_def [simp] delete_node_def [simp]

text \<open>The eviction loop: pods evicted, errors that count, and the state.\<close>

fun evict_pods :: "'w drain_kube \<Rightarrow> int option \<Rightarrow> pod list \<Rightarrow> int \<times> int \<times> 'w \<Rightarrow> int \<times> int \<times> 'w" where
  "evict_pods c grace [] acc = acc"
| "evict_pods c grace (p # ps) (evicted, errors, w) =
     (case evict_pod_for_drain c p grace w of
        (None, w') \<Rightarrow> evict_pods c grace ps (s32 (evicted + 1), errors, w')
      | (Some e, w') \<Rightarrow>
          if ignore_not_found e = None then evict_pods c grace ps (evicted, errors, w')
          else evict_pods c grace ps (evicted, errors + 1, w'))"

text \<open>
  The state of a run. \<open>policy.Status.LastRun\<close> points to the run record from the first drained
  node on, and a successful status update decodes the server's answer into what the policy
  points to: \<open>st_run\<close> then is the answer's.
\<close>

record 'w drain_st =
  st_world :: 'w
  st_policy :: drain_policy
  st_run :: drain_run

definition add_result :: "node_result \<Rightarrow> 'w drain_st \<Rightarrow> 'w drain_st" where
  "add_result r st = st\<lparr>st_run := (st_run st)\<lparr>dr_results := dr_results (st_run st) @ [r]\<rparr>\<rparr>"

definition usage_text :: "drain_info \<Rightarrow> string" where
  "usage_text i =
     ''(cpu='' @ show_int (di_cpu_percent i) @ ''%, mem='' @ show_int (di_mem_percent i) @ ''%)''"

definition result_of :: "drain_info \<Rightarrow> string \<Rightarrow> string \<Rightarrow> int \<Rightarrow> node_result" where
  "result_of i action reason pods =
     \<lparr>nr_name = di_name i, nr_cpu_percent = di_cpu_percent i, nr_mem_percent = di_mem_percent i,
      nr_action = action, nr_reason = reason, nr_pods_evicted = pods\<rparr>"

definition persist_run :: "'w drain_kube \<Rightarrow> 'w drain_st \<Rightarrow> 'w drain_st" where
  "persist_run c st =
     (let p = st_policy st;
          p' = p\<lparr>dp_status := (dp_status p)\<lparr>dst_last_run := Some (st_run st),
                   dst_total_drained := s64 (dst_total_drained (dp_status p) + 1)\<rparr>\<rparr>
      in case dk_update_status c p' (st_world st) of
           (Inl e, w) \<Rightarrow> st\<lparr>st_world := w, st_policy := p'\<rparr>
         | (Inr r, w) \<Rightarrow>
             st\<lparr>st_world := w, st_policy := r,
                st_run := (case dst_last_run (dp_status r) of Some run \<Rightarrow> run | None \<Rightarrow> st_run st)\<rparr>)"

text \<open>After a drain that timed out.\<close>

definition drain_timed_out ::
  "'w drain_kube \<Rightarrow> drain_info \<Rightarrow> int \<Rightarrow> int \<Rightarrow> 'w drain_st \<Rightarrow> 'w drain_st" where
  "drain_timed_out c i evicted errors st =
     (case uncordon_node c (di_name i) (st_world st) of (_, w) \<Rightarrow>
        add_result
          (result_of i ''failed''
             (if 0 < errors then ''eviction failed for '' @ show_int errors @ '' pods and drain timed out''
              else ''drain timed out'') evicted)
          (st\<lparr>st_world := dk_event c ''DrainFailed'' (''Drain timed out for node '' @ di_name i) w\<rparr>))"

text \<open>After a drain that completed.\<close>

definition drain_completed ::
  "drain_env \<Rightarrow> 'w drain_kube \<Rightarrow> drain_info \<Rightarrow> int \<Rightarrow> 'w drain_st \<Rightarrow> 'w drain_st" where
  "drain_completed env c i evicted st =
     (let name = di_name i; run = (st_run st)\<lparr>dr_drained := s32 (dr_drained (st_run st) + 1)\<rparr>;
          reason = ''Node drained '' @ usage_text i;
          (action, run', w) =
            (if dc_delete_node (dsp_drain (dp_spec (st_policy st))) then
               (case delete_node c name (st_world st) of
                  (Some e, w) \<Rightarrow>
                    (''drained'', run,
                     dk_event c ''NodeDeleteFailed'' (''Failed to delete node '' @ name @ '': '' @ de_text env e) w)
                | (None, w) \<Rightarrow>
                    (''deleted'', run\<lparr>dr_deleted := s32 (dr_deleted run + 1)\<rparr>,
                     dk_event c ''NodeDeleted'' (''Deleted node '' @ name @ '' after drain'') w))
             else (''drained'', run, st_world st));
          w' = dk_event c ''DrainCompleted''
                 (''Completed draining node '' @ name @ '' ('' @ show_int evicted @ '' pods evicted)'') w
      in persist_run c
           (add_result (result_of i action reason evicted) (st\<lparr>st_run := run', st_world := w'\<rparr>)))"

definition drain_one ::
  "drain_env \<Rightarrow> 'w drain_kube \<Rightarrow> bool \<Rightarrow> int \<Rightarrow> drain_info \<Rightarrow> 'w drain_st \<Rightarrow> 'w drain_st option" where
  "drain_one env c dry_run timeout i st =
     (if dry_run then
        Some (add_result (result_of i ''dry-run'' (''Would drain node '' @ usage_text i)
                            (s32 (int (length (di_drainable i))))) st)
      else
        (case cordon_node c (di_node i) (st_world st) of
           (Some e, w) \<Rightarrow>
             Some (add_result (result_of i ''failed'' (''cordon failed: '' @ de_text env e) 0)
               (st\<lparr>st_world := dk_event c ''CordonFailed''
                     (''Failed to cordon node '' @ di_name i @ '': '' @ de_text env e) w\<rparr>))
         | (None, w) \<Rightarrow>
             (case evict_pods c (dc_grace (dsp_drain (dp_spec (st_policy st)))) (di_drainable i)
                     (0, 0, dk_event c ''DrainStarted'' (''Started draining node '' @ di_name i) w) of
                (evicted, errors, w1) \<Rightarrow>
                  (case wait_for_drain c (di_name i) (timeout * second) w1 of
                     None \<Rightarrow> None
                   | Some (False, w2) \<Rightarrow> Some (drain_timed_out c i evicted errors (st\<lparr>st_world := w2\<rparr>))
                   | Some (True, w2) \<Rightarrow> Some (drain_completed env c i evicted (st\<lparr>st_world := w2\<rparr>))))))"

fun drain_all ::
  "drain_env \<Rightarrow> 'w drain_kube \<Rightarrow> bool \<Rightarrow> int \<Rightarrow> drain_info list \<Rightarrow> 'w drain_st \<Rightarrow> 'w drain_st option" where
  "drain_all env c dry_run timeout [] st = Some st"
| "drain_all env c dry_run timeout (i # is) st =
     (case drain_one env c dry_run timeout i st of
        None \<Rightarrow> None
      | Some st' \<Rightarrow> drain_all env c dry_run timeout is st')"

section \<open>When a run is due\<close>

datatype schedule_error = BadTimezone string string | BadCron string string

fun schedule_error_text :: "drain_env \<Rightarrow> schedule_error \<Rightarrow> string" where
  "schedule_error_text env (BadTimezone tz e) = ''invalid timezone '' @ de_quote env tz @ '': '' @ e"
| "schedule_error_text env (BadCron expr e) = ''invalid cron expression '' @ de_quote env expr @ '': '' @ e"

text \<open>The result is the location and the function \<open>schedule.Next\<close> on times in it.\<close>

definition parse_cron_schedule ::
  "drain_env \<Rightarrow> drain_policy \<Rightarrow> schedule_error + location \<times> (instant \<Rightarrow> instant)" where
  "parse_cron_schedule env p =
     (let s = dsp_schedule (dp_spec p) in
      case (if dsc_timezone s = [] then Inr utc else de_load env (dsc_timezone s)) of
        Inl e \<Rightarrow> Inl (BadTimezone (dsc_timezone s) e)
      | Inr loc \<Rightarrow>
          (case de_cron env (dsc_cron s) of
             Inl e \<Rightarrow> Inl (BadCron (dsc_cron s) e)
           | Inr next_at \<Rightarrow> Inr (loc, next_at loc)))"

definition run_due :: "drain_run option \<Rightarrow> instant \<Rightarrow> instant \<Rightarrow> bool" where
  "run_due last_run prev_tick now =
     (case last_run of
        Some run \<Rightarrow> dr_start run < prev_tick \<and> \<not> now < prev_tick
      | None \<Rightarrow> \<not> now < prev_tick)"

section \<open>Reconcile\<close>

definition set_drain_condition ::
  "drain_env \<Rightarrow> string \<Rightarrow> string \<Rightarrow> string \<Rightarrow> drain_policy \<Rightarrow> drain_policy" where
  "set_drain_condition env status reason message p =
     p\<lparr>dp_status := (dp_status p)
       \<lparr>dst_conditions := de_set_cond env (dst_conditions (dp_status p))
          \<lparr>cd_type = ''Ready'', cd_status = status, cd_generation = dp_generation p,
           cd_transition = None, cd_reason = reason, cd_message = message\<rparr>\<rparr>\<rparr>"

text \<open>A status update after which the reconciler returns, with the error \<open>err\<close> of its own.\<close>

definition drain_finish ::
  "drain_env \<Rightarrow> 'w drain_kube \<Rightarrow> kerr option \<Rightarrow> drain_policy \<Rightarrow> 'w \<Rightarrow> result \<times> 'w" where
  "drain_finish env c err p w =
     (case dk_update_status c p w of
        (Inl e, w') \<Rightarrow> (Done 0 (Some e), w')
      | (Inr r, w') \<Rightarrow> (Done (drain_interval env r) err, w'))"

text \<open>A status update followed by a requeue at the instant \<open>t\<close>, or later if it has passed.\<close>

definition drain_requeue ::
  "drain_env \<Rightarrow> 'w drain_kube \<Rightarrow> instant \<Rightarrow> drain_policy \<Rightarrow> 'w \<Rightarrow> result \<times> 'w" where
  "drain_requeue env c t p w =
     (case dk_update_status c p w of
        (Inl e, w') \<Rightarrow> (Done 0 (Some e), w')
      | (Inr r, w') \<Rightarrow>
          (case dk_now c w' of (now, w'') \<Rightarrow>
             (let delay = time_sub t now in
              (Done (if delay < 0 then drain_interval env r else delay) None, w''))))"

definition zero_time :: instant where
  "zero_time = - 62135596800 * second"

definition compute_next_run ::
  "drain_env \<Rightarrow> 'w drain_kube \<Rightarrow> drain_policy \<Rightarrow> 'w \<Rightarrow> (schedule_error + instant) \<times> 'w" where
  "compute_next_run env c p w =
     (case parse_cron_schedule env p of
        Inl e \<Rightarrow> (Inl e, w)
      | Inr (loc, next_at) \<Rightarrow> (case dk_now c w of (now, w') \<Rightarrow> (Inr (next_at now), w')))"

text \<open>The end of a run: completion time, next run, condition, status update.\<close>

definition finalize_run :: "drain_env \<Rightarrow> 'w drain_kube \<Rightarrow> 'w drain_st \<Rightarrow> result \<times> 'w" where
  "finalize_run env c st =
     (case dk_now c (st_world st) of (completion, w1) \<Rightarrow>
        (let run = (st_run st)\<lparr>dr_completion := Some completion\<rparr>;
             p = st_policy st;
             p1 = p\<lparr>dp_status := (dp_status p)\<lparr>dst_last_run := Some run\<rparr>\<rparr>;
             (next_run, p2, w2) =
               (case compute_next_run env c p1 w1 of
                  (Inl e, w2) \<Rightarrow> (zero_time, p1, w2)
                | (Inr t, w2) \<Rightarrow>
                    (t, p1\<lparr>dp_status := (dp_status p1)\<lparr>dst_next_run := Some t\<rparr>\<rparr>, w2));
             p3 = set_drain_condition env ''True'' ''RunCompleted''
                    (''Drained '' @ show_int (dr_drained run) @ ''/'' @ show_int (dr_candidates run) @
                     '' candidate nodes'') p2
         in drain_requeue env c next_run p3 w2))"

text \<open>A drain run, from the analysis to the final status.\<close>

definition drain_execute ::
  "drain_env \<Rightarrow> 'w drain_kube \<Rightarrow> drain_policy \<Rightarrow> 'w \<Rightarrow> (result \<times> 'w) option" where
  "drain_execute env c p w =
     (case dk_now c w of (start, w1) \<Rightarrow>
        (case drain_analyze_nodes c (dp_spec p) w1 of
           Inl e \<Rightarrow>
             Some (drain_finish env c (Some e)
               (set_drain_condition env ''False'' ''AnalysisFailed'' (de_text env e) p) w1)
         | Inr infos \<Rightarrow>
             (let found = find_drain_candidates infos (dp_spec p);
                  candidates = de_sort env found;
                  run = \<lparr>dr_start = start, dr_completion = None, dr_evaluated = s32 (int (length infos)),
                         dr_candidates = s32 (int (length found)), dr_drained = 0, dr_deleted = 0,
                         dr_results = []\<rparr>;
                  safety = dsp_safety (dp_spec p);
                  timeout = (case dc_timeout (dsp_drain (dp_spec p)) of Some t \<Rightarrow> t | None \<Rightarrow> 300)
              in case limit_candidates (max_drainable safety infos) candidates of
                   None \<Rightarrow> Some (Panic, w1)
                 | Some cs \<Rightarrow>
                     (case drain_all env c (dsf_dry_run safety) timeout cs
                             \<lparr>st_world = w1, st_policy = p, st_run = run\<rparr> of
                        None \<Rightarrow> None
                      | Some st \<Rightarrow> Some (finalize_run env c st)))))"

text \<open>\<open>Reconcile\<close> after the finalizer.\<close>

definition drain_scheduled ::
  "drain_env \<Rightarrow> 'w drain_kube \<Rightarrow> drain_policy \<Rightarrow> 'w \<Rightarrow> (result \<times> 'w) option" where
  "drain_scheduled env c p w =
     (if dsp_suspend (dp_spec p) then
        Some (drain_finish env c None (set_drain_condition env ''False'' ''Suspended'' ''Policy is suspended'' p) w)
      else
        (case parse_cron_schedule env p of
           Inl e \<Rightarrow>
             Some (drain_finish env c None
               (set_drain_condition env ''False'' ''InvalidCron'' (schedule_error_text env e) p) w)
         | Inr (loc, next_at) \<Rightarrow>
             (case dk_now c w of (now, w1) \<Rightarrow>
                if run_due (dst_last_run (dp_status p)) (next_at (now - 2 * minute)) now
                then drain_execute env c p w1
                else
                  Some (drain_requeue env c (next_at now)
                    (set_drain_condition env ''True'' ''Scheduled''
                       (''Next run at '' @ de_rfc3339 env loc (next_at now))
                       (p\<lparr>dp_status := (dp_status p)\<lparr>dst_next_run := Some (next_at now)\<rparr>\<rparr>)) w1))))"

definition drain_reconcile ::
  "drain_env \<Rightarrow> 'w drain_kube \<Rightarrow> string \<Rightarrow> 'w \<Rightarrow> (result \<times> 'w) option" where
  "drain_reconcile env c name w =
     (case dk_get_policy c name w of
        Inl e \<Rightarrow> Some (Done 0 (ignore_not_found e), w)
      | Inr p \<Rightarrow>
          if dp_deleting p then
            (if dp_finalizer p
             then (case dk_update_policy c (p\<lparr>dp_finalizer := False\<rparr>) w of
                     (Inl e, w') \<Rightarrow> Some (Done 0 (Some e), w')
                   | (Inr r, w') \<Rightarrow> Some (Done 0 None, w'))
             else Some (Done 0 None, w))
          else
            (case (if dp_finalizer p then (Inr p, w) else dk_update_policy c (p\<lparr>dp_finalizer := True\<rparr>) w) of
               (Inl e, w1) \<Rightarrow> Some (Done 0 (Some e), w1)
             | (Inr p1, w1) \<Rightarrow> drain_scheduled env c p1 w1))"

section \<open>Waiting ends\<close>

text \<open>
  What the standard library promises of the clock: it never runs backwards, and a wait that is
  not cancelled takes at least its duration. \<open>clock\<close> is the time at a state.
\<close>

definition steady_clock :: "'w drain_kube \<Rightarrow> ('w \<Rightarrow> instant) \<Rightarrow> bool" where
  "steady_clock c clock \<longleftrightarrow>
     (\<forall>w t w'. dk_now c w = (t, w') \<longrightarrow> clock w \<le> t \<and> t \<le> clock w') \<and>
     (\<forall>d w w'. dk_wait c d w = (False, w') \<longrightarrow> clock w + d \<le> clock w')"

lemma wait_loop_returns:
  assumes "steady_clock c clock"
  shows "wait_loop c name deadline w \<noteq> None"
proof (induction "nat (deadline - clock w)" arbitrary: w rule: less_induct)
  case less
  obtain now w1 where now: "dk_now c w = (now, w1)" by (cases "dk_now c w")
  obtain cancelled w2 where wait: "dk_wait c 2000000000 w1 = (cancelled, w2)"
    by (cases "dk_wait c 2000000000 w1")
  have step: "clock w \<le> now" "now \<le> clock w1" using assms now by (auto simp: steady_clock_def)
  have "wait_loop c name deadline w2 \<noteq> None" if "now < deadline" "\<not> cancelled"
  proof -
    have "clock w1 + 2000000000 \<le> clock w2" using assms wait that(2) by (auto simp: steady_clock_def)
    then have "nat (deadline - clock w2) < nat (deadline - clock w)" using step that(1) by simp
    then show ?thesis by (rule less.hyps)
  qed
  then show ?case
    by (subst wait_loop.simps) (simp add: now wait split: sum.split del: not_None_eq)
qed

text \<open>
  Waiting for a drain always ends: with a clock that runs, the loop comes back, whatever
  the cluster does.
\<close>

theorem wait_for_drain_returns:
  assumes "steady_clock c clock"
  shows "\<exists>b w'. wait_for_drain c name timeout w = Some (b, w')"
  using wait_loop_returns [OF assms] by (auto simp: wait_for_drain_def split: prod.split)

lemma drain_one_returns:
  assumes "steady_clock c clock"
  shows "drain_one env c dry_run timeout i st \<noteq> None"
  using wait_loop_returns [OF assms]
  by (simp add: drain_one_def wait_for_drain_def split: prod.split option.split bool.split del: not_None_eq)

lemma drain_all_returns:
  assumes "steady_clock c clock"
  shows "drain_all env c dry_run timeout is st \<noteq> None"
  using drain_one_returns [OF assms]
  by (induction "is" arbitrary: st) (simp_all split: option.split del: not_None_eq)

text \<open>
  C31: Every reconcile of a drain policy comes back.
\<close>

theorem drain_reconcile_returns:
  assumes "steady_clock c clock"
  shows "\<exists>r w'. drain_reconcile env c name w = Some (r, w')"
proof -
  have "drain_execute env c p w \<noteq> None" for p w
    using drain_all_returns [OF assms]
    by (simp add: drain_execute_def Let_def split: prod.split sum.split option.split del: not_None_eq)
  then have "drain_scheduled env c p w \<noteq> None" for p w
    by (simp add: drain_scheduled_def split: prod.split sum.split del: not_None_eq)
  then have "drain_reconcile env c name w \<noteq> None"
    by (simp add: drain_reconcile_def split: prod.split sum.split del: not_None_eq)
  then show ?thesis by auto
qed

section \<open>What waiting establishes\<close>

definition no_pod_left :: "'w drain_kube \<Rightarrow> string \<Rightarrow> 'w \<Rightarrow> bool" where
  "no_pod_left c name w \<longleftrightarrow> (\<exists>pods. dk_pods c w = Inr pods \<and> filter (still_there name) pods = [])"

lemma wait_loop_outcome:
  assumes "wait_loop c name deadline w = Some r"
    and "\<And>w. P w \<Longrightarrow> P (snd (dk_now c w))" and "\<And>d w. P w \<Longrightarrow> P (snd (dk_wait c d w))"
    and "P w"
  shows "P (snd r) \<and> (fst r \<longrightarrow> no_pod_left c name (snd r))"
proof -
  have P: "dk_now c w = (t, w') \<Longrightarrow> P w \<Longrightarrow> P w'" "dk_wait c d w = (b, w') \<Longrightarrow> P w \<Longrightarrow> P w'" for w t w' d b
    using assms(2) [of w] assms(3) [of w d] by auto
  have "c = c \<longrightarrow> P w \<longrightarrow> P (snd r) \<and> (fst r \<longrightarrow> no_pod_left c name (snd r))"
    by (rule wait_loop.raw_induct [where P = "\<lambda>c' name deadline w r. c' = c \<longrightarrow> P w \<longrightarrow>
      P (snd r) \<and> (fst r \<longrightarrow> no_pod_left c name (snd r))", OF _ assms(1)])
      (auto simp: no_pod_left_def split: prod.splits if_splits sum.splits dest: P)
  with assms(4) show ?thesis by simp
qed

section \<open>The calls a run makes\<close>

text \<open>A client that remembers the changing calls on nodes and pods, whether they succeed or not.\<close>

datatype drain_op = PatchNode string "bool option" | EvictPod string string | DeleteNode string

definition traced_drain :: "'w drain_kube \<Rightarrow> ('w \<times> drain_op list) drain_kube" where
  "traced_drain c =
     \<lparr>dk_get_policy = (\<lambda>n (w, l). dk_get_policy c n w),
      dk_update_policy = (\<lambda>p (w, l). case dk_update_policy c p w of (r, w') \<Rightarrow> (r, (w', l))),
      dk_update_status = (\<lambda>p (w, l). case dk_update_status c p w of (r, w') \<Rightarrow> (r, (w', l))),
      dk_nodes = (\<lambda>(w, l). dk_nodes c w),
      dk_pods = (\<lambda>(w, l). dk_pods c w),
      dk_get_node = (\<lambda>n (w, l). dk_get_node c n w),
      dk_patch_node = (\<lambda>n b (w, l). case dk_patch_node c n b w of (r, w') \<Rightarrow> (r, (w', l @ [PatchNode n b]))),
      dk_evict = (\<lambda>ns n g (w, l). case dk_evict c ns n g w of (r, w') \<Rightarrow> (r, (w', l @ [EvictPod ns n]))),
      dk_delete_node = (\<lambda>n (w, l). case dk_delete_node c n w of (r, w') \<Rightarrow> (r, (w', l @ [DeleteNode n]))),
      dk_event = (\<lambda>r t (w, l). (dk_event c r t w, l)),
      dk_now = (\<lambda>(w, l). case dk_now c w of (t, w') \<Rightarrow> (t, (w', l))),
      dk_wait = (\<lambda>d (w, l). case dk_wait c d w of (b, w') \<Rightarrow> (b, (w', l)))\<rparr>"

lemma traced_drain_reads [simp]:
  "dk_get_policy (traced_drain c) n wl = dk_get_policy c n (fst wl)"
  "dk_nodes (traced_drain c) wl = dk_nodes c (fst wl)"
  "dk_pods (traced_drain c) wl = dk_pods c (fst wl)"
  "dk_get_node (traced_drain c) n wl = dk_get_node c n (fst wl)"
  by (simp_all add: traced_drain_def case_prod_beta)

lemma traced_drain_log [simp]:
  "snd (snd (dk_update_policy (traced_drain c) p wl)) = snd wl"
  "snd (snd (dk_update_status (traced_drain c) p wl)) = snd wl"
  "snd (dk_event (traced_drain c) r t wl) = snd wl"
  "snd (snd (dk_now (traced_drain c) wl)) = snd wl"
  "snd (snd (dk_wait (traced_drain c) d wl)) = snd wl"
  "snd (snd (dk_patch_node (traced_drain c) n b wl)) = snd wl @ [PatchNode n b]"
  "snd (snd (dk_evict (traced_drain c) ns n g wl)) = snd wl @ [EvictPod ns n]"
  "snd (snd (dk_delete_node (traced_drain c) n wl)) = snd wl @ [DeleteNode n]"
  by (simp_all add: traced_drain_def case_prod_beta)

text \<open>The same facts where a call's result has been named.\<close>

lemma traced_drain_calls:
  "dk_update_policy (traced_drain c) p wl = (r, wl') \<Longrightarrow> snd wl' = snd wl"
  "dk_update_status (traced_drain c) p wl = (r, wl') \<Longrightarrow> snd wl' = snd wl"
  "dk_now (traced_drain c) wl = (t, wl') \<Longrightarrow> snd wl' = snd wl"
  "dk_patch_node (traced_drain c) n b wl = (e, wl') \<Longrightarrow> snd wl' = snd wl @ [PatchNode n b]"
  "dk_evict (traced_drain c) ns n g wl = (e, wl') \<Longrightarrow> snd wl' = snd wl @ [EvictPod ns n]"
  "dk_delete_node (traced_drain c) n wl = (e, wl') \<Longrightarrow> snd wl' = snd wl @ [DeleteNode n]"
  "dk_event (traced_drain c) r' t' wl = wl' \<Longrightarrow> snd wl' = snd wl"
  using traced_drain_log [of c] by (metis snd_conv)+

lemma wait_for_drain_log:
  assumes "wait_for_drain (traced_drain c) name timeout wl = Some (b, wl')"
  shows "snd wl' = snd wl \<and> (b \<longrightarrow> no_pod_left c name (fst wl'))"
proof -
  obtain now wl1 where now: "dk_now (traced_drain c) wl = (now, wl1)" by (cases "dk_now (traced_drain c) wl")
  with assms have "wait_loop (traced_drain c) name (now + timeout) wl1 = Some (b, wl')"
    by (simp add: wait_for_drain_def)
  from wait_loop_outcome [OF this, of "\<lambda>x. snd x = snd wl"] traced_drain_calls(3) [OF now]
  show ?thesis by (simp add: no_pod_left_def)
qed

lemma evict_pods_log:
  "evict_pods (traced_drain c) grace ps (ev, er, wl) = (ev', er', wl') \<Longrightarrow>
     snd wl' = snd wl @ map (\<lambda>p. EvictPod (p_namespace p) (p_name p)) ps"
  by (induction "traced_drain c" grace ps "(ev, er, wl)" arbitrary: ev er wl rule: evict_pods.induct)
    (fastforce split: prod.splits option.splits if_splits dest: traced_drain_calls)+

text \<open>
  The calls for one node: a cordon; if it succeeds, an eviction of every drainable pod; then
  nothing more, or a patch that does not cordon, or, only if asked for, a deletion.
\<close>

definition drain_segment :: "bool \<Rightarrow> drain_info \<Rightarrow> drain_op list \<Rightarrow> bool" where
  "drain_segment deletes i l \<longleftrightarrow>
     (let cordon = PatchNode (di_name i) (unschedulable_patch (di_node i) True);
          evictions = map (\<lambda>p. EvictPod (p_namespace p) (p_name p)) (di_drainable i)
      in l = [cordon] \<or>
         (\<exists>tail. l = cordon # evictions @ tail \<and>
           (tail = [] \<or> (\<exists>m b. tail = [PatchNode m b] \<and> b \<noteq> Some True) \<or>
            (deletes \<and> tail = [DeleteNode (di_name i)]))))"

text \<open>
  What a status update answers: the policy with the spec it was sent. The API server rejects
  an update of an outdated object, so the spec is the stored one.
\<close>

definition keeps_spec :: "'w drain_kube \<Rightarrow> bool" where
  "keeps_spec c \<longleftrightarrow> (\<forall>p w r w'. dk_update_status c p w = (Inr r, w') \<longrightarrow> dp_spec r = dp_spec p)"

lemma keeps_specD:
  "keeps_spec c \<Longrightarrow> dk_update_status (traced_drain c) p w = (Inr r, w') \<Longrightarrow> dp_spec r = dp_spec p"
  by (cases w) (auto simp: keeps_spec_def traced_drain_def split: prod.splits)

lemma persist_run_spec:
  "keeps_spec c \<Longrightarrow> dp_spec (st_policy (persist_run (traced_drain c) st)) = dp_spec (st_policy st)"
  by (auto simp: persist_run_def Let_def dest: keeps_specD split: prod.split sum.split)

lemma persist_run_log [simp]: "snd (st_world (persist_run (traced_drain c) st)) = snd (st_world st)"
  by (auto simp: persist_run_def Let_def dest: traced_drain_calls split: prod.split sum.split)

lemma unschedulable_patch_False: "unschedulable_patch n False \<noteq> Some True"
  by (simp add: unschedulable_patch_def)

lemma uncordon_log:
  "uncordon_node (traced_drain c) name wl = (e, wl') \<Longrightarrow>
     \<exists>tail. snd wl' = snd wl @ tail \<and> (tail = [] \<or> (\<exists>m b. tail = [PatchNode m b] \<and> b \<noteq> Some True))"
  using unschedulable_patch_False
  by (cases "dk_get_node c name (fst wl)") (auto simp: uncordon_node_def dest!: traced_drain_calls(4))

lemma drain_completed_spec:
  "keeps_spec c \<Longrightarrow> dp_spec (st_policy (drain_completed env (traced_drain c) i ev st)) = dp_spec (st_policy st)"
  by (auto simp: drain_completed_def Let_def add_result_def persist_run_spec split: prod.split option.split)

lemma drain_completed_log:
  "snd (st_world (drain_completed env (traced_drain c) i ev st)) = snd (st_world st) @
     (if dc_delete_node (dsp_drain (dp_spec (st_policy st))) then [DeleteNode (di_name i)] else [])"
  by (auto simp: drain_completed_def Let_def add_result_def dest!: traced_drain_calls(6,7)
      split: prod.split option.split)

text \<open>The three ways to handle a node: no cordon, a drain that timed out, a drain that completed.\<close>

definition cordon_call :: "drain_info \<Rightarrow> drain_op" where
  "cordon_call i = PatchNode (di_name i) (unschedulable_patch (di_node i) True)"

definition evict_calls :: "drain_info \<Rightarrow> drain_op list" where
  "evict_calls i = map (\<lambda>p. EvictPod (p_namespace p) (p_name p)) (di_drainable i)"

lemma drain_one_cases:
  assumes "drain_one env (traced_drain c) False timeout i st = Some st'"
  shows "(snd (st_world st') = snd (st_world st) @ [cordon_call i] \<and> st_policy st' = st_policy st) \<or>
    (\<exists>w b ev er. snd w = snd (st_world st) @ cordon_call i # evict_calls i \<and>
       (b \<longrightarrow> no_pod_left c (di_name i) (fst w)) \<and>
       st' = (if b then drain_completed env (traced_drain c) i ev (st\<lparr>st_world := w\<rparr>)
              else drain_timed_out (traced_drain c) i ev er (st\<lparr>st_world := w\<rparr>)))"
proof -
  obtain e w where cordon: "cordon_node (traced_drain c) (di_node i) (st_world st) = (e, w)"
    by (cases "cordon_node (traced_drain c) (di_node i) (st_world st)")
  then have w: "snd w = snd (st_world st) @ [cordon_call i]"
    by (auto simp: cordon_node_def cordon_call_def dest: traced_drain_calls)
  obtain ev er w1 where ev: "evict_pods (traced_drain c) (dc_grace (dsp_drain (dp_spec (st_policy st)))) (di_drainable i)
       (0, 0, dk_event (traced_drain c) ''DrainStarted'' (''Started draining node '' @ di_name i) w) = (ev, er, w1)"
    using prod_cases3 by blast
  show ?thesis
  proof (cases e)
    case (Some err)
    with assms cordon w show ?thesis by (auto simp: drain_one_def add_result_def)
  next
    case None
    with assms cordon ev obtain b w2 where wait: "wait_for_drain (traced_drain c) (di_name i) (timeout * second) w1 = Some (b, w2)"
      and st': "st' = (if b then drain_completed env (traced_drain c) i ev (st\<lparr>st_world := w2\<rparr>)
                       else drain_timed_out (traced_drain c) i ev er (st\<lparr>st_world := w2\<rparr>))"
      by (auto simp: drain_one_def split: option.splits bool.splits)
    have "snd w2 = snd (st_world st) @ cordon_call i # evict_calls i"
      using wait_for_drain_log [OF wait] evict_pods_log [OF ev] w by (simp add: evict_calls_def)
    with st' wait_for_drain_log [OF wait] show ?thesis by blast
  qed
qed

lemma drain_timed_out_log:
  "st_policy (drain_timed_out (traced_drain c) i ev er st) = st_policy st \<and>
   (\<exists>tail. snd (st_world (drain_timed_out (traced_drain c) i ev er st)) = snd (st_world st) @ tail \<and>
      (tail = [] \<or> (\<exists>m b. tail = [PatchNode m b] \<and> b \<noteq> Some True)))"
proof -
  obtain e w where un: "uncordon_node (traced_drain c) (di_name i) (st_world st) = (e, w)"
    by (cases "uncordon_node (traced_drain c) (di_name i) (st_world st)")
  then show ?thesis using uncordon_log [OF un] by (simp add: drain_timed_out_def add_result_def)
qed

lemma drain_one_log:
  assumes "keeps_spec c" "drain_one env (traced_drain c) False timeout i st = Some st'"
  shows "dp_spec (st_policy st') = dp_spec (st_policy st) \<and>
    (\<exists>seg. snd (st_world st') = snd (st_world st) @ seg \<and>
       drain_segment (dc_delete_node (dsp_drain (dp_spec (st_policy st)))) i seg)"
  using drain_one_cases [OF assms(2)]
proof (elim disjE exE conjE)
  fix w b ev er
  assume w: "snd w = snd (st_world st) @ cordon_call i # evict_calls i"
    and st': "st' = (if b then drain_completed env (traced_drain c) i ev (st\<lparr>st_world := w\<rparr>)
              else drain_timed_out (traced_drain c) i ev er (st\<lparr>st_world := w\<rparr>))"
  show ?thesis
  proof (cases b)
    case True
    with st' w drain_completed_spec [OF assms(1), of env i ev "st\<lparr>st_world := w\<rparr>"] show ?thesis
      by (auto simp: drain_completed_log drain_segment_def cordon_call_def evict_calls_def)
  next
    case False
    with st' w drain_timed_out_log [of c i ev er "st\<lparr>st_world := w\<rparr>"] show ?thesis
      by (auto simp: drain_segment_def cordon_call_def evict_calls_def)
  qed
qed (auto simp: drain_segment_def cordon_call_def)

lemma drain_all_log:
  assumes "keeps_spec c" "drain_all env (traced_drain c) False timeout cs st = Some st'"
  shows "\<exists>segs. snd (st_world st') = snd (st_world st) @ concat segs \<and>
    list_all2 (drain_segment (dc_delete_node (dsp_drain (dp_spec (st_policy st))))) cs segs"
  using assms(2)
proof (induction cs arbitrary: st)
  case Nil
  then show ?case by (intro exI [of _ "[]"]) auto
next
  case (Cons i cs)
  from Cons.prems obtain st1 where one: "drain_one env (traced_drain c) False timeout i st = Some st1"
    and rest: "drain_all env (traced_drain c) False timeout cs st1 = Some st'"
    by (auto split: option.splits)
  from drain_one_log [OF assms(1) one] obtain seg where spec: "dp_spec (st_policy st1) = dp_spec (st_policy st)"
    and seg: "snd (st_world st1) = snd (st_world st) @ seg"
      "drain_segment (dc_delete_node (dsp_drain (dp_spec (st_policy st)))) i seg" by blast
  from Cons.IH [OF rest] spec obtain segs where "snd (st_world st') = snd (st_world st1) @ concat segs"
    "list_all2 (drain_segment (dc_delete_node (dsp_drain (dp_spec (st_policy st))))) cs segs" by auto
  with seg show ?case by (intro exI [of _ "seg # segs"]) simp
qed

lemma drain_all_dry_run:
  "drain_all env c True timeout cs st = Some st' \<Longrightarrow> st_world st' = st_world st"
  by (induction env c True timeout cs st rule: drain_all.induct) (auto simp: drain_one_def add_result_def)

lemma finalize_run_log:
  "finalize_run env (traced_drain c) st = (r, wl') \<Longrightarrow> snd wl' = snd (st_world st)"
  by (auto simp: finalize_run_def compute_next_run_def drain_requeue_def Let_def dest!: traced_drain_calls(2,3)
      split: prod.splits sum.splits)

lemma drain_finish_log:
  "drain_finish env (traced_drain c) err p wl = (r, wl') \<Longrightarrow> snd wl' = snd wl"
  "drain_requeue env (traced_drain c) t p wl = (r, wl') \<Longrightarrow> snd wl' = snd wl"
  by (auto simp: drain_finish_def drain_requeue_def Let_def dest!: traced_drain_calls(2,3)
      split: prod.splits sum.splits)

text \<open>What a run that makes a call has found before: due, allowed, and the candidates it drains.\<close>

definition drain_targets :: "drain_env \<Rightarrow> drain_spec \<Rightarrow> drain_info list \<Rightarrow> drain_info list option" where
  "drain_targets env sp infos =
     limit_candidates (max_drainable (dsp_safety sp) infos) (de_sort env (find_drain_candidates infos sp))"

lemma drain_execute_log:
  assumes "keeps_spec c" "drain_execute env (traced_drain c) p wl = Some (r, wl')" "snd wl' \<noteq> snd wl"
  shows "\<not> dsf_dry_run (dsp_safety (dp_spec p)) \<and>
    (\<exists>w1 nodes pods cs segs. dk_nodes c w1 = Inr nodes \<and> dk_pods c w1 = Inr pods \<and>
       drain_targets env (dp_spec p) (drain_analyze_all (dp_spec p) pods nodes) = Some cs \<and>
       snd wl' = snd wl @ concat segs \<and>
       list_all2 (drain_segment (dc_delete_node (dsp_drain (dp_spec p)))) cs segs)"
proof -
  obtain start wl1 where now: "dk_now (traced_drain c) wl = (start, wl1)" by (cases "dk_now (traced_drain c) wl")
  then have log1: "snd wl1 = snd wl" by (rule traced_drain_calls)
  from assms(2,3) now log1 obtain infos where an: "drain_analyze_nodes (traced_drain c) (dp_spec p) wl1 = Inr infos"
    by (cases "drain_analyze_nodes (traced_drain c) (dp_spec p) wl1")
      (auto simp: drain_execute_def dest!: drain_finish_log)
  then obtain nodes pods where np: "dk_nodes c (fst wl1) = Inr nodes" "dk_pods c (fst wl1) = Inr pods"
    "infos = drain_analyze_all (dp_spec p) pods nodes"
    by (auto simp: drain_analyze_nodes_def split: sum.splits)
  from assms(2,3) now log1 an obtain cs where cs: "drain_targets env (dp_spec p) infos = Some cs"
    by (cases "drain_targets env (dp_spec p) infos") (auto simp: drain_execute_def drain_targets_def Let_def)
  define timeout where "timeout = (case dc_timeout (dsp_drain (dp_spec p)) of Some t \<Rightarrow> t | None \<Rightarrow> 300)"
  define dry where "dry = dsf_dry_run (dsp_safety (dp_spec p))"
  define st0 where "st0 = \<lparr>st_world = wl1, st_policy = p, st_run = \<lparr>dr_start = start, dr_completion = None,
      dr_evaluated = s32 (int (length infos)), dr_candidates = s32 (int (length (find_drain_candidates infos (dp_spec p)))),
      dr_drained = 0, dr_deleted = 0, dr_results = []\<rparr>\<rparr>"
  have "drain_execute env (traced_drain c) p wl =
      (case drain_all env (traced_drain c) dry timeout cs st0 of
         None \<Rightarrow> None | Some st \<Rightarrow> Some (finalize_run env (traced_drain c) st))"
    using cs by (simp add: drain_execute_def now an drain_targets_def timeout_def dry_def st0_def Let_def)
  with assms(2) obtain st where all: "drain_all env (traced_drain c) dry timeout cs st0 = Some st"
    and fin: "finalize_run env (traced_drain c) st = (r, wl')"
    by (auto split: option.splits)
  have log: "snd wl' = snd (st_world st)" using finalize_run_log [OF fin] .
  have "\<not> dry"
  proof
    assume dry
    with all have "st_world st = wl1" using drain_all_dry_run [of env "traced_drain c" timeout cs st0 st] by (simp add: st0_def)
    with log log1 assms(3) show False by simp
  qed
  with all have "\<exists>segs. snd (st_world st) = snd (st_world st0) @ concat segs \<and>
      list_all2 (drain_segment (dc_delete_node (dsp_drain (dp_spec (st_policy st0))))) cs segs"
    by (intro drain_all_log [OF assms(1)]) simp
  then obtain segs where "snd (st_world st) = snd wl @ concat segs"
    "list_all2 (drain_segment (dc_delete_node (dsp_drain (dp_spec p)))) cs segs"
    using log1 by (auto simp: st0_def)
  with \<open>\<not> dry\<close> np cs log show ?thesis
    unfolding dry_def by (intro conjI exI [of _ "fst wl1"] exI [of _ nodes] exI [of _ pods] exI [of _ cs] exI [of _ segs]) simp_all
qed

lemma drain_scheduled_due:
  assumes "drain_scheduled env (traced_drain c) p wl = Some (r, wl')" "snd wl' \<noteq> snd wl"
  shows "\<exists>loc next_at wl1. \<not> dsp_suspend (dp_spec p) \<and> parse_cron_schedule env p = Inr (loc, next_at) \<and>
    snd wl1 = snd wl \<and>
    run_due (dst_last_run (dp_status p)) (next_at (fst (dk_now c (fst wl)) - 2 * minute)) (fst (dk_now c (fst wl))) \<and>
    drain_execute env (traced_drain c) p wl1 = Some (r, wl')"
proof -
  obtain now wl1 where now: "dk_now (traced_drain c) wl = (now, wl1)" by (cases "dk_now (traced_drain c) wl")
  then have wl1: "snd wl1 = snd wl" by (rule traced_drain_calls)
  have n: "now = fst (dk_now c (fst wl))"
    using now by (cases wl) (auto simp: traced_drain_def split: prod.splits)
  have s: "\<not> dsp_suspend (dp_spec p)"
    using assms by (auto simp: drain_scheduled_def dest!: drain_finish_log)
  with assms obtain ln where ln: "parse_cron_schedule env p = Inr ln"
    by (cases "parse_cron_schedule env p") (auto simp: drain_scheduled_def dest!: drain_finish_log)
  have "run_due (dst_last_run (dp_status p)) (snd ln (now - 2 * minute)) now"
    using assms s ln now wl1
    by (cases ln) (auto simp: drain_scheduled_def dest!: drain_finish_log split: if_splits)
  with assms s ln now wl1 n show ?thesis
    by (cases ln; intro exI [of _ "fst ln"] exI [of _ "snd ln"] exI [of _ wl1])
      (auto simp: drain_scheduled_def split: if_splits)
qed

section \<open>What a run promises\<close>

interpretation drain_analysis: node_analysis "dsp_node_selector sp" di_node di_drainable "drain_analyze_all sp"
  for sp :: drain_spec
  by unfold_locales (auto simp: drain_analyze_all_def drain_analyze_node_def Let_def case_prod_beta comp_def)

definition cordoned :: "drain_op list \<Rightarrow> string list" where
  "cordoned l = concat (map (\<lambda>x. case x of PatchNode n b \<Rightarrow> if b = Some True then [n] else [] | _ \<Rightarrow> []) l)"

lemma cordoned_simps [simp]:
  "cordoned [] = []" "cordoned (l @ l') = cordoned l @ cordoned l'"
  "cordoned (PatchNode n b # l) = (if b = Some True then n # cordoned l else cordoned l)"
  "cordoned (EvictPod ns m # l) = cordoned l" "cordoned (DeleteNode n # l) = cordoned l"
  by (simp_all add: cordoned_def)

lemma cordoned_evictions [simp]: "cordoned (map (\<lambda>p. EvictPod (f p) (g p)) ps) = []"
  by (induction ps) simp_all

lemma cordoned_segment:
  "drain_segment deletes i seg \<Longrightarrow> \<not> n_unschedulable (di_node i) \<Longrightarrow> cordoned seg = [di_name i]"
  by (auto simp: drain_segment_def Let_def unschedulable_patch_def)

lemma cordoned_segments:
  "list_all2 (drain_segment deletes) cs segs \<Longrightarrow> (\<And>i. i \<in> set cs \<Longrightarrow> \<not> n_unschedulable (di_node i)) \<Longrightarrow>
     cordoned (concat segs) = map di_name cs"
  by (induction rule: list_all2_induct) (simp_all add: cordoned_segment)

text \<open>The API validates that at least one node may be drained and no negative number stays.\<close>

definition valid_safety :: "drain_safety \<Rightarrow> bool" where
  "valid_safety s \<longleftrightarrow>
     (case dsf_max_nodes s of Some m \<Rightarrow> 1 \<le> m | None \<Rightarrow> True) \<and>
     (case dsf_min_ready s of Some m \<Rightarrow> 0 \<le> m \<and> m < 2 ^ 31 | None \<Rightarrow> True)"

definition max_nodes :: "drain_safety \<Rightarrow> int" where
  "max_nodes s = (case dsf_max_nodes s of Some m \<Rightarrow> m | None \<Rightarrow> 1)"

definition min_ready :: "drain_safety \<Rightarrow> int" where
  "min_ready s = (case dsf_min_ready s of Some m \<Rightarrow> m | None \<Rightarrow> 1)"

definition ready_nodes :: "drain_info list \<Rightarrow> int" where
  "ready_nodes infos = int (length (filter (\<lambda>i. is_node_ready (di_node i)) infos))"

lemma max_drainable_eq:
  assumes "valid_safety s" "int (length infos) < 2 ^ 31"
  shows "max_drainable s infos = min (max_nodes s) (max 0 (ready_nodes infos - min_ready s))"
proof -
  have r: "0 \<le> ready_nodes infos" "ready_nodes infos < 2 ^ 31"
    using assms(2) length_filter_le [of "\<lambda>i. is_node_ready (di_node i)" infos]
    unfolding ready_nodes_def by linarith+
  have m: "0 \<le> min_ready s" "min_ready s < 2 ^ 31"
    using assms(1) by (auto simp: valid_safety_def min_ready_def split: option.splits)
  from r m have "s32 (ready_nodes infos) = ready_nodes infos"
    "s32 (ready_nodes infos - min_ready s) = ready_nodes infos - min_ready s"
    by (simp_all add: s32_id)
  then show ?thesis
    by (simp add: max_drainable_def Let_def max_nodes_def min_ready_def ready_nodes_def min_def max_def)
qed

lemma limit_candidates_facts:
  assumes "limit_candidates m xs = Some cs" "int (length xs) < 2 ^ 31"
  shows "cs = take (length cs) xs" "int (length cs) \<le> m"
  using assms by (auto simp: limit_candidates_def s32_id split: if_splits)

lemma mset_take_subset: "mset (take n xs) \<subseteq># mset xs"
  by (metis append_take_drop_id mset_append mset_subset_eq_add_left)

lemma drain_targets_facts:
  assumes "permutes (de_sort env)" "int (length infos) < 2 ^ 31" "drain_targets env sp infos = Some cs"
  shows "mset cs \<subseteq># mset (filter (below_some_threshold (dsp_thresholds sp)) infos)"
    "int (length cs) \<le> max_drainable (dsp_safety sp) infos"
proof -
  let ?xs = "de_sort env (find_drain_candidates infos sp)"
  have "length ?xs \<le> length infos"
    using permutes_length [OF assms(1)] by (simp add: find_drain_candidates_def)
  with assms(2) have "int (length ?xs) < 2 ^ 31" by simp
  note facts = limit_candidates_facts [OF assms(3) [unfolded drain_targets_def] this]
  show "int (length cs) \<le> max_drainable (dsp_safety sp) infos" by (rule facts(2))
  have "mset cs \<subseteq># mset ?xs" using mset_take_subset [of "length cs" ?xs] facts(1) by simp
  then show "mset cs \<subseteq># mset (filter (below_some_threshold (dsp_thresholds sp)) infos)"
    using assms(1) by (simp add: permutes_def find_drain_candidates_def)
qed

text \<open>
  C10: The nodes a run cordons are schedulable nodes that the selector matches and that use
  less than a threshold, each at most once; there are at most \<open>maxNodesPerRun\<close> of them, and
  at least \<open>minReadyNodes\<close> of the ready nodes it found are not needed for them.
\<close>

theorem drain_keeps_ready_nodes:
  assumes "keeps_spec c" "permutes (de_sort env)" "valid_safety (dsp_safety (dp_spec p))"
    and small: "\<And>w nodes. dk_nodes c w = Inr nodes \<Longrightarrow> int (length nodes) < 2 ^ 31"
    and run: "drain_scheduled env (traced_drain c) p (w, []) = Some (r, (w', ops))" "cordoned ops \<noteq> []"
  shows "\<exists>w1 nodes pods. dk_nodes c w1 = Inr nodes \<and> dk_pods c w1 = Inr pods \<and>
    (let infos = drain_analyze_all (dp_spec p) pods nodes in
     mset (cordoned ops) \<subseteq># mset (map di_name (filter (below_some_threshold (dsp_thresholds (dp_spec p))) infos)) \<and>
     int (length (cordoned ops)) \<le> max_nodes (dsp_safety (dp_spec p)) \<and>
     int (length (cordoned ops)) \<le> ready_nodes infos - min_ready (dsp_safety (dp_spec p)))"
proof -
  have ne: "snd (w', ops) \<noteq> snd (w, [])" using run(2) by auto
  from drain_scheduled_due [OF run(1) ne] obtain wl1 where wl1: "snd wl1 = []"
    "drain_execute env (traced_drain c) p wl1 = Some (r, (w', ops))" by auto
  from drain_execute_log [OF assms(1) wl1(2)] wl1(1) ne obtain w1 nodes pods cs segs where
    np: "dk_nodes c w1 = Inr nodes" "dk_pods c w1 = Inr pods"
    and cs: "drain_targets env (dp_spec p) (drain_analyze_all (dp_spec p) pods nodes) = Some cs"
    and ops: "ops = concat segs" "list_all2 (drain_segment (dc_delete_node (dsp_drain (dp_spec p)))) cs segs" by auto
  let ?infos = "drain_analyze_all (dp_spec p) pods nodes"
  have len: "int (length ?infos) < 2 ^ 31"
    using small [OF np(1)] drain_analysis.entries_bounded [of "dp_spec p" pods nodes] by simp
  note t = drain_targets_facts [OF assms(2) len cs]
  have "set cs \<subseteq> set ?infos" using mset_subset_eqD [OF t(1)] by force
  then have "\<not> n_unschedulable (di_node i)" if "i \<in> set cs" for i
    using drain_analysis.entry_node that by blast
  then have "cordoned ops = map di_name cs"
    using ops cordoned_segments by blast
  moreover from this run(2) have "0 < int (length cs)" by simp
  then have "int (length cs) \<le> max_nodes (dsp_safety (dp_spec p))"
    "int (length cs) \<le> ready_nodes ?infos - min_ready (dsp_safety (dp_spec p))"
    using t(2) unfolding max_drainable_eq [OF assms(3) len] by linarith+
  ultimately show ?thesis
    using np image_mset_subseteq_mono [OF t(1), of di_name]
    by (intro exI [of _ w1] exI [of _ nodes] exI [of _ pods]) (auto simp: Let_def)
qed




section \<open>Pods nobody evicts\<close>

lemma wait_for_drain_outcome:
  assumes "wait_for_drain c name timeout w = Some (True, w')"
  shows "no_pod_left c name w'"
proof -
  obtain now w1 where "dk_now c w = (now, w1)" by (cases "dk_now c w")
  with assms have "wait_loop c name (now + timeout) w1 = Some (True, w')" by (simp add: wait_for_drain_def)
  from wait_loop_outcome [OF this, of "\<lambda>_. True"] show ?thesis by simp
qed

text \<open>
  C38: A running pod that the policy does not evict, because of its \<open>emptyDir\<close> volume or because
  the pod selector does not match it, still is waited for: as long as it is listed, the drain
  of its node fails, after the other pods have been evicted.
\<close>

theorem skipped_pod_fails_drain:
  assumes pod: "p \<in> set (pods_on_node pods (n_name n))" "still_there (n_name n) p"
    and skipped: "(\<not> dc_delete_empty_dir (dsp_drain sp) \<and> list_ex vol_empty_dir (p_volumes p)) \<or>
      \<not> gmatches (dc_pod_selector (dsp_drain sp)) (p_labels p)"
    and stays: "\<And>w ps. dk_pods c w = Inr ps \<Longrightarrow> p \<in> set ps"
    and run: "drain_one env c False timeout (drain_analyze_node sp pods n) st = Some st'"
  shows "p \<notin> set (di_drainable (drain_analyze_node sp pods n)) \<and>
    (\<exists>r. dr_results (st_run st') = dr_results (st_run st) @ [r] \<and> nr_name r = n_name n \<and> nr_action r = ''failed'')"
proof -
  let ?i = "drain_analyze_node sp pods n"
  have i: "di_name ?i = n_name n" by (simp add: drain_analyze_node_def Let_def case_prod_beta)
  have "\<not> no_pod_left c (n_name n) w" for w
    using stays pod(2) by (fastforce simp: no_pod_left_def filter_empty_conv)
  then have no: "wait_for_drain c (n_name n) t w \<noteq> Some (True, w')" for t w w'
    by (auto dest: wait_for_drain_outcome)
  have "p \<notin> set (di_drainable ?i)"
    using skipped by (auto simp: drain_analyze_node_def Let_def case_prod_beta is_drainable_def split: if_splits)
  moreover have "\<exists>r. dr_results (st_run st') = dr_results (st_run st) @ [r] \<and> nr_name r = n_name n \<and> nr_action r = ''failed''"
    using run no
    by (auto simp: drain_one_def drain_timed_out_def add_result_def result_of_def i
        split: prod.splits option.splits bool.splits)
  ultimately show ?thesis by blast
qed

text \<open>
  Waiting does not wait for terminating pods: if every pod listed on the node is being
  deleted at the first look, the drain counts as complete there and then.
\<close>

theorem terminating_pods_count_as_gone:
  assumes "dk_now c w = (t, w1)" "dk_now c w1 = (t', w2)" "t' < t + timeout" "dk_pods c w2 = Inr pods"
    and "\<And>p. p \<in> set pods \<Longrightarrow> p_node p = name \<Longrightarrow> p_deleting p"
  shows "wait_for_drain c name timeout w = Some (True, w2)"
proof -
  have "filter (still_there name) pods = []" using assms(5) by (auto simp: filter_empty_conv still_there_def)
  then show ?thesis
    using assms(1-4) by (simp add: wait_for_drain_def wait_loop.simps [of c name "t + timeout" w1])
qed

section \<open>When a run is due\<close>

text \<open>
  A cron expression that never fires, for which \<open>Next\<close> answers the zero time, starts a
  drain run at the first reconcile of a policy that never ran.
\<close>

theorem impossible_cron_drains:
  assumes "\<not> dsp_suspend (dp_spec p)" "parse_cron_schedule env p = Inr (loc, \<lambda>_. zero_time)"
    and "dst_last_run (dp_status p) = None" "zero_time \<le> fst (dk_now c w)"
  shows "drain_scheduled env c p w = drain_execute env c p (snd (dk_now c w))"
  using assms by (simp add: drain_scheduled_def run_due_def case_prod_beta)

text \<open>The cron expression \<open>* * * * *\<close>: the next full minute.\<close>

definition every_minute :: "instant \<Rightarrow> instant" where
  "every_minute t = (t div minute + 1) * minute"

text \<open>
  The test looks at the oldest tick of the last two minutes only. A policy that runs every
  minute and ran in one minute is not due at any time of the next one, although a tick has
  passed since.
\<close>

theorem minute_cron_skips_tick:
  assumes "now div minute = dr_start run div minute + 1"
  shows "\<not> run_due (Some run) (every_minute (now - 2 * minute)) now \<and>
    dr_start run < every_minute (dr_start run) \<and> every_minute (dr_start run) \<le> now"
proof -
  have "(now + (- 2) * minute) div minute = - 2 + now div minute"
    by (rule div_mult_self1) simp
  then have "(now - 2 * minute) div minute = now div minute - 2" by simp
  then have "every_minute (now - 2 * minute) = (dr_start run div minute) * minute"
    using assms by (simp add: every_minute_def)
  moreover have "(dr_start run div minute) * minute \<le> dr_start run" by simp
  moreover have "dr_start run < every_minute (dr_start run)"
    by (simp add: every_minute_def algebra_simps)
  moreover have "every_minute (dr_start run) \<le> now"
    unfolding every_minute_def assms [symmetric] by simp
  ultimately show ?thesis by (simp add: run_due_def)
qed

section \<open>A small cluster\<close>

text \<open>The clock and the pods are the state; evictions remove pods; everything succeeds.\<close>

record drain_world =
  dw_time :: instant
  dw_pods :: "pod list"

definition drain_node_of :: "string \<Rightarrow> node" where
  "drain_node_of name =
     \<lparr>n_name = name, n_labels = [], n_unschedulable = False, n_taints = [],
      n_cpu = 4 * 1000000000, n_mem = 1000000000, n_conditions = [(''Ready'', ''True'')]\<rparr>"

definition small_cluster :: "drain_policy \<Rightarrow> drain_world drain_kube" where
  "small_cluster p =
     \<lparr>dk_get_policy = (\<lambda>_ w. Inr p), dk_update_policy = (\<lambda>p w. (Inr p, w)),
      dk_update_status = (\<lambda>p w. (Inr p, w)),
      dk_nodes = (\<lambda>w. Inr [drain_node_of ''a'', drain_node_of ''b'']), dk_pods = (\<lambda>w. Inr (dw_pods w)),
      dk_get_node = (\<lambda>name w. Inr (drain_node_of name)),
      dk_patch_node = (\<lambda>_ _ w. (None, w)),
      dk_evict = (\<lambda>ns name _ w. (None, w\<lparr>dw_pods := filter (\<lambda>q. p_name q \<noteq> name \<or> p_namespace q \<noteq> ns) (dw_pods w)\<rparr>)),
      dk_delete_node = (\<lambda>_ w. (None, w)), dk_event = (\<lambda>_ _ w. w),
      dk_now = (\<lambda>w. (dw_time w, w)), dk_wait = (\<lambda>d w. (False, w\<lparr>dw_time := dw_time w + d\<rparr>))\<rparr>"

definition small_env :: drain_env where
  "small_env =
     \<lparr>de_load = (\<lambda>_. Inl ''unknown time zone''), de_cron = (\<lambda>_. Inr (\<lambda>_. every_minute)), de_quote = (\<lambda>s. s),
      de_rfc3339 = (\<lambda>_ _. []), de_text = (\<lambda>_. []), de_sort = (\<lambda>xs. xs), de_set_cond = (\<lambda>_ cd. [cd]),
      de_default = 0\<rparr>"

definition small_drain_spec :: drain_spec where
  "small_drain_spec =
     \<lparr>dsp_node_selector = [], dsp_thresholds = \<lparr>dt_cpu = Some 30, dt_mem = None\<rparr>,
      dsp_schedule = \<lparr>dsc_cron = ''* * * * *'', dsc_timezone = []\<rparr>,
      dsp_drain = \<lparr>dc_grace = None, dc_timeout = Some 30, dc_delete_empty_dir = False,
                   dc_ignore_daemon_sets = None, dc_delete_node = True, dc_pod_selector = [(''app'', ''web'')]\<rparr>,
      dsp_safety = \<lparr>dsf_max_nodes = Some 3, dsf_min_ready = None, dsf_dry_run = False\<rparr>,
      dsp_suspend = False, dsp_interval = None\<rparr>"

definition small_policy :: drain_policy where
  "small_policy =
     \<lparr>dp_name = ''night'', dp_generation = 1, dp_deleting = False, dp_finalizer = True, dp_spec = small_drain_spec,
      dp_status = \<lparr>dst_conditions = [], dst_last_run = None, dst_next_run = None, dst_total_drained = 0\<rparr>\<rparr>"

definition drain_pod :: "string \<Rightarrow> string \<Rightarrow> pod" where
  "drain_pod name app =
     \<lparr>p_name = name, p_namespace = ''dev'', p_labels = [(''app'', app)], p_annotations = [], p_owners = [],
      p_deleting = False, p_node = ''a'', p_phase = ''Running'', p_containers = [], p_init_containers = [],
      p_node_selector = [], p_tolerations = [], p_volumes = []\<rparr>"

definition noon :: instant where
  "noon = 1700000000 * second"

definition small_world :: drain_world where
  "small_world = \<lparr>dw_time = noon, dw_pods = [drain_pod ''web-1'' ''web'']\<rparr>"

definition small_ops :: "drain_op list" where
  "small_ops = [PatchNode ''a'' (Some True), EvictPod ''dev'' ''web-1'', DeleteNode ''a'']"

lemma small_run:
  "map_option (\<lambda>(r, w, ops). ops)
     (drain_scheduled small_env (traced_drain (small_cluster small_policy)) small_policy (small_world, [])) = Some small_ops"
  by code_simp

lemma small_run_result:
  obtains r w where "drain_scheduled small_env (traced_drain (small_cluster small_policy)) small_policy (small_world, []) =
    Some (r, (w, small_ops))"
  using small_run by (auto split: prod.splits)

lemma small_cluster_laws:
  "keeps_spec (small_cluster p)" "permutes (de_sort small_env)" "steady_clock (small_cluster p) dw_time"
  "dk_nodes (small_cluster p) w = Inr nodes \<Longrightarrow> int (length nodes) < 2 ^ 31"
  by (auto simp: keeps_spec_def small_cluster_def permutes_def small_env_def steady_clock_def)


text \<open>The properties at work in the small cluster: one drained node, or a pod that stays.\<close>

theorem wait_for_drain_returns_witness:
  "\<exists>b w'. wait_for_drain (small_cluster small_policy) ''a'' (30 * second) small_world = Some (b, w')"
  by (rule wait_for_drain_returns [OF small_cluster_laws(3)])

theorem drain_reconcile_returns_witness:
  "\<exists>r w'. drain_reconcile small_env (small_cluster small_policy) ''night'' small_world = Some (r, w')"
  by (rule drain_reconcile_returns [OF small_cluster_laws(3)])

theorem drain_keeps_ready_nodes_witness:
  "\<exists>nodes pods. cordoned small_ops = [''a''] \<and>
     1 \<le> ready_nodes (drain_analyze_all small_drain_spec pods nodes) - 1"
proof -
  obtain r w where run: "drain_scheduled small_env (traced_drain (small_cluster small_policy)) small_policy
      (small_world, []) = Some (r, (w, small_ops))" by (rule small_run_result)
  have "valid_safety (dsp_safety (dp_spec small_policy))" "cordoned small_ops \<noteq> []"
    by (simp_all add: small_policy_def small_drain_spec_def valid_safety_def small_ops_def)
  note facts = this
  have few: "dk_nodes (small_cluster small_policy) w = Inr nodes \<Longrightarrow> int (length nodes) < 2 ^ 31" for w nodes
    by (rule small_cluster_laws)
  have "cordoned small_ops = [''a'']" "min_ready (dsp_safety (dp_spec small_policy)) = 1"
    "dp_spec small_policy = small_drain_spec"
    by (simp_all add: small_ops_def small_policy_def small_drain_spec_def min_ready_def)
  with drain_keeps_ready_nodes [OF small_cluster_laws(1,2) facts(1) few run facts(2)]
  show ?thesis unfolding Let_def by fastforce
qed



definition small_info :: drain_info where
  "small_info = drain_analyze_node small_drain_spec (dw_pods small_world) (drain_node_of ''a'')"

definition small_run_of :: drain_run where
  "small_run_of = \<lparr>dr_start = noon, dr_completion = None, dr_evaluated = 2, dr_candidates = 2, dr_drained = 0,
                   dr_deleted = 0, dr_results = []\<rparr>"


definition waiting_cluster :: "drain_world drain_kube" where
  "waiting_cluster =
     (small_cluster small_policy)
       \<lparr>dk_pods := (\<lambda>w. Inr [drain_pod ''web-1'' ''web'', drain_pod ''db-0'' ''db''])\<rparr>"

theorem skipped_pod_fails_drain_witness:
  "\<exists>st' r. drain_one small_env waiting_cluster False 4
       (drain_analyze_node small_drain_spec [drain_pod ''web-1'' ''web'', drain_pod ''db-0'' ''db''] (drain_node_of ''a''))
       \<lparr>st_world = small_world, st_policy = small_policy, st_run = small_run_of\<rparr> = Some st' \<and>
     dr_results (st_run st') = [r] \<and> nr_action r = ''failed'' \<and> nr_pods_evicted r = 1"
proof -
  let ?pods = "[drain_pod ''web-1'' ''web'', drain_pod ''db-0'' ''db'']"
  let ?run = "drain_one small_env waiting_cluster False 4 (drain_analyze_node small_drain_spec ?pods (drain_node_of ''a''))
       \<lparr>st_world = small_world, st_policy = small_policy, st_run = small_run_of\<rparr>"
  have "map_option (\<lambda>st. map nr_pods_evicted (dr_results (st_run st))) ?run = Some [1]"
    by code_simp
  then obtain st' where run: "?run = Some st'" and one: "map nr_pods_evicted (dr_results (st_run st')) = [1]" by auto
  have pod: "drain_pod ''db-0'' ''db'' \<in> set (pods_on_node ?pods (n_name (drain_node_of ''a'')))"
    "still_there (n_name (drain_node_of ''a'')) (drain_pod ''db-0'' ''db'')"
    by (simp_all add: pods_on_node_def drain_pod_def drain_node_of_def still_there_def has_owner_kind_def has_key_def)
  have skipped: "(\<not> dc_delete_empty_dir (dsp_drain small_drain_spec) \<and>
      list_ex vol_empty_dir (p_volumes (drain_pod ''db-0'' ''db''))) \<or>
      \<not> gmatches (dc_pod_selector (dsp_drain small_drain_spec)) (p_labels (drain_pod ''db-0'' ''db''))"
    by (simp add: small_drain_spec_def drain_pod_def gmatches_def gget_def)
  have stays: "dk_pods waiting_cluster w = Inr ps \<Longrightarrow> drain_pod ''db-0'' ''db'' \<in> set ps" for w ps
    by (auto simp: waiting_cluster_def)
  from skipped_pod_fails_drain [OF pod skipped stays run] run one show ?thesis
    by (auto simp: small_run_of_def)
qed

definition never_env :: drain_env where
  "never_env = small_env\<lparr>de_cron := (\<lambda>_. Inr (\<lambda>_ _. zero_time))\<rparr>"

theorem impossible_cron_drains_witness:
  "drain_scheduled never_env (small_cluster small_policy) small_policy small_world =
     drain_execute never_env (small_cluster small_policy) small_policy small_world"
proof -
  have "snd (dk_now (small_cluster small_policy) small_world) = small_world"
    by (simp add: small_cluster_def)
  moreover have "drain_scheduled never_env (small_cluster small_policy) small_policy small_world =
      drain_execute never_env (small_cluster small_policy) small_policy
        (snd (dk_now (small_cluster small_policy) small_world))"
    by (rule impossible_cron_drains [where loc = utc])
      (simp_all add: small_policy_def small_drain_spec_def parse_cron_schedule_def never_env_def small_env_def
        small_cluster_def small_world_def noon_def zero_time_def Let_def)
  ultimately show ?thesis by simp
qed

theorem minute_cron_skips_tick_witness:
  "\<not> run_due (Some small_run_of) (every_minute (noon + minute - 2 * minute)) (noon + minute)"
proof -
  have "(noon + minute) div minute = dr_start small_run_of div minute + 1"
    by (simp add: small_run_of_def noon_def)
  from minute_cron_skips_tick [OF this] show ?thesis by blast
qed

theorem terminating_pods_count_as_gone_witness:
  "wait_for_drain (small_cluster small_policy) ''a'' (30 * second)
     (small_world\<lparr>dw_pods := [(drain_pod ''web-1'' ''web'')\<lparr>p_deleting := True\<rparr>]\<rparr>) =
   Some (True, small_world\<lparr>dw_pods := [(drain_pod ''web-1'' ''web'')\<lparr>p_deleting := True\<rparr>]\<rparr>)"
  by (rule terminating_pods_count_as_gone [where t = noon and t' = noon and
      pods = "[(drain_pod ''web-1'' ''web'')\<lparr>p_deleting := True\<rparr>]"])
    (auto simp: small_cluster_def small_world_def)

end
