(* ===== verification/Go_Text.thy ===== *)
theory Go_Text
  imports Go_Time "HOL-Library.Log_Nat"
begin

text \<open>
  The text functions of Go's standard library that the idle detector uses: \<open>path.Match\<close> on
  object names and \<open>time.ParseDuration\<close> on the durations the API admits; and the
  \<open>float64\<close> arithmetic of its percentages.
\<close>

section \<open>path.Match\<close>

text \<open>
  \<open>getEsc\<close>: one character of a character class, with the rest of the pattern, which must not be
  empty. Characters are those of ASCII text, as object names are.
\<close>

definition get_esc :: "string \<Rightarrow> (char \<times> string) option" where
  "get_esc p =
     (case p of
        [] \<Rightarrow> None
      | c # cs \<Rightarrow>
          if c = CHR ''-'' \<or> c = CHR '']'' then None
          else if c = CHR 0x5C then
            (case cs of [] \<Rightarrow> None | d # ds \<Rightarrow> if ds = [] then None else Some (d, ds))
          else if cs = [] then None
          else Some (c, cs))"

lemma get_esc_shorter: "get_esc p = Some (c, p') \<Longrightarrow> length p' < length p"
  by (auto simp: get_esc_def split: list.splits if_splits)

text \<open>A range of a class: \<open>c\<close> or \<open>c-d\<close>.\<close>

definition get_range :: "string \<Rightarrow> (char \<times> char \<times> string) option" where
  "get_range p =
     (case get_esc p of
        None \<Rightarrow> None
      | Some (lo, p1) \<Rightarrow>
          (case p1 of
             c # p2 \<Rightarrow>
               if c = CHR ''-'' then (case get_esc p2 of None \<Rightarrow> None | Some (hi, p3) \<Rightarrow> Some (lo, hi, p3))
               else Some (lo, lo, p1)
           | [] \<Rightarrow> Some (lo, lo, p1)))"

lemma get_range_shorter: "get_range p = Some (lo, hi, p') \<Longrightarrow> length p' < length p"
  by (auto simp: get_range_def split: option.splits list.splits if_splits dest!: get_esc_shorter)

text \<open>
  The ranges of a class up to its closing bracket, which the first one cannot be: whether one
  of them has the character, and the rest of the pattern. \<open>None\<close> is a malformed class.
\<close>

function class_ranges :: "char \<Rightarrow> bool \<Rightarrow> string \<Rightarrow> (bool \<times> string) option" where
  "class_ranges r first p =
     (if \<not> first \<and> p \<noteq> [] \<and> hd p = CHR '']'' then Some (False, tl p)
      else
        (case get_range p of
           None \<Rightarrow> None
         | Some (lo, hi, p') \<Rightarrow>
             map_option (\<lambda>(m, q). (m \<or> (lo \<le> r \<and> r \<le> hi), q)) (class_ranges r False p')))"
  by pat_completeness auto
termination
  by (relation "measure (\<lambda>(r, first, p). length p)") (auto dest: get_range_shorter)

declare class_ranges.simps [simp del]

lemma class_ranges_shorter: "class_ranges r first p = Some (m, q) \<Longrightarrow> length q < length p"
proof (induction r first p arbitrary: m q rule: class_ranges.induct)
  case (1 r first p)
  show ?case
  proof (cases "\<not> first \<and> p \<noteq> [] \<and> hd p = CHR '']''")
    case True
    with 1(2) have "q = tl p" by (simp add: class_ranges.simps [of r False p])
    with True show ?thesis by (cases p) simp_all
  next
    case False
    with 1(2) obtain lo hi p' m' where rng: "get_range p = Some (lo, hi, p')"
      and rest: "class_ranges r False p' = Some (m', q)"
      by (auto simp: class_ranges.simps [of r first p] split: option.splits if_splits)
    have "length q < length p'" using 1(1) [OF False rng refl refl rest] .
    also have "... < length p" by (rule get_range_shorter [OF rng])
    finally show ?thesis .
  qed
qed

definition match_class :: "char \<Rightarrow> string \<Rightarrow> (bool \<times> string) option" where
  "match_class r p =
     (case p of
        c # p' \<Rightarrow>
          if c = CHR ''^'' then map_option (\<lambda>(m, q). (\<not> m, q)) (class_ranges r True p')
          else class_ranges r True p
      | [] \<Rightarrow> None)"

lemma match_class_shorter: "match_class r p = Some (m, q) \<Longrightarrow> length q < length p"
  by (auto simp: match_class_def split: list.splits if_splits dest!: class_ranges_shorter)

text \<open>
  Whether the pattern is well formed and matches the whole name: \<open>*\<close> stands for any characters
  but \<open>/\<close>, \<open>?\<close> for one of them, a class for one character, a backslash for the next character.
\<close>

function path_match :: "string \<Rightarrow> string \<Rightarrow> bool" where
  "path_match [] name = (name = [])"
| "path_match (c # ps) name =
     (if c = CHR ''*'' then
        path_match ps name \<or>
        (case name of [] \<Rightarrow> False | x # xs \<Rightarrow> x \<noteq> CHR ''/'' \<and> path_match (c # ps) xs)
      else
        (case name of
           [] \<Rightarrow> False
         | x # xs \<Rightarrow>
             if c = CHR ''?'' then x \<noteq> CHR ''/'' \<and> path_match ps xs
             else if c = CHR ''['' then
               (case match_class x ps of None \<Rightarrow> False | Some (m, qs) \<Rightarrow> m \<and> path_match qs xs)
             else if c = CHR 0x5C then
               (case ps of [] \<Rightarrow> False | d # qs \<Rightarrow> x = d \<and> path_match qs xs)
             else x = c \<and> path_match ps xs))"
  by pat_completeness auto
termination
  by (relation "measure (\<lambda>(p, name). length p + length name)") (auto dest: match_class_shorter)

text \<open>A pattern of plain characters with a final star is a prefix test.\<close>

definition plain :: "string \<Rightarrow> bool" where
  "plain p \<longleftrightarrow> list_all (\<lambda>c. c \<noteq> CHR ''*'' \<and> c \<noteq> CHR ''?'' \<and> c \<noteq> CHR ''['' \<and> c \<noteq> CHR 0x5C) p"

lemma match_star: "path_match ''*'' name \<longleftrightarrow> CHR ''/'' \<notin> set name"
  by (induction name) auto

lemma match_prefix:
  "plain p \<Longrightarrow> path_match (p @ ''*'') name \<longleftrightarrow> (\<exists>rest. name = p @ rest \<and> CHR ''/'' \<notin> set rest)"
proof (induction p arbitrary: name)
  case Nil
  then show ?case using match_star [of name] by (simp del: path_match.simps)
next
  case (Cons c p)
  then have c: "c \<noteq> CHR ''*''" "c \<noteq> CHR ''?''" "c \<noteq> CHR ''[''" "c \<noteq> CHR 0x5C" and p: "plain p"
    by (simp_all add: plain_def)
  show ?case
  proof (cases name)
    case Nil
    with c show ?thesis by simp
  next
    case (Cons x xs)
    have "path_match ((c # p) @ ''*'') name \<longleftrightarrow> x = c \<and> path_match (p @ ''*'') xs"
      using c by (simp add: Cons)
    with Cons.IH [OF p, of xs] Cons show ?thesis by auto
  qed
qed

section \<open>time.ParseDuration\<close>

text \<open>
  \<open>ParseDuration\<close> on the strings without sign, fraction and units below a second, which are all
  that the validation pattern of \<open>idleDuration\<close> admits: whole numbers, each with a unit, and at
  least one of them; or \<open>0\<close>. A value that does not fit an \<open>int64\<close> is an error.
\<close>

definition unit_of :: "string \<Rightarrow> duration option" where
  "unit_of u =
     (if u = ''h'' then Some (3600 * second) else if u = ''m'' then Some minute
      else if u = ''s'' then Some second else None)"

function duration_parts :: "string \<Rightarrow> duration option" where
  "duration_parts s =
     (if s = [] then Some 0
      else
        (let ds = takeWhile is_digit s; r = dropWhile is_digit s;
             u = takeWhile (\<lambda>c. \<not> is_digit c) r
         in if ds = [] then None
            else (case unit_of u of
                    None \<Rightarrow> None
                  | Some f \<Rightarrow>
                      map_option (\<lambda>d. int (digits_val ds) * f + d)
                        (duration_parts (dropWhile (\<lambda>c. \<not> is_digit c) r)))))"
  by pat_completeness auto
termination
proof (relation "measure length", goal_cases)
  case (2 s x xa xb xc)
  then have "length s = length x + length xa"
    by (metis length_append takeWhile_dropWhile_id)
  moreover have "length (dropWhile (\<lambda>c. \<not> is_digit c) xa) \<le> length xa" by (rule length_dropWhile_le)
  moreover have "0 < length x" using 2 by (simp del: length_dropWhile_le)
  ultimately show ?case unfolding in_measure by linarith
qed simp

declare duration_parts.simps [simp del]

definition parse_duration :: "string \<Rightarrow> duration option" where
  "parse_duration s =
     (if s = [] then None
      else if s = ''0'' then Some 0
      else (case duration_parts s of
              None \<Rightarrow> None
            | Some d \<Rightarrow> if 2 ^ 63 \<le> d then None else Some d))"

lemma takeWhile_digits:
  "list_all is_digit ds \<Longrightarrow> r = [] \<or> \<not> is_digit (hd r) \<Longrightarrow> takeWhile is_digit (ds @ r) = ds \<and> dropWhile is_digit (ds @ r) = r"
  by (induction ds) (cases r; simp)+

lemma duration_part:
  assumes "unit_of [u] = Some f" "\<not> is_digit u" "r = [] \<or> is_digit (hd r)"
  shows "duration_parts (show_nat n @ u # r) = map_option (\<lambda>d. int n * f + d) (duration_parts r)"
proof -
  have t: "takeWhile is_digit (show_nat n @ u # r) = show_nat n \<and> dropWhile is_digit (show_nat n @ u # r) = u # r"
    using assms(2) by (intro takeWhile_digits show_nat_digits) simp
  have u: "takeWhile (\<lambda>c. \<not> is_digit c) (u # r) = [u]" "dropWhile (\<lambda>c. \<not> is_digit c) (u # r) = r"
    using assms(2,3) by (cases r; simp)+
  have tk: "takeWhile is_digit (show_nat n @ u # r) = show_nat n" "dropWhile is_digit (show_nat n @ u # r) = u # r"
    using t by simp_all
  have ne: "show_nat n @ u # r \<noteq> []" by simp
  show ?thesis
    unfolding duration_parts.simps [of "show_nat n @ u # r"] Let_def tk u if_not_P [OF ne]
      if_not_P [OF show_nat_nonempty] assms(1) digits_val_show_nat by (simp only: option.case)
qed

lemma show_nat_head: "is_digit (hd (show_nat n))" "is_digit (hd (show_nat n @ r))"
proof -
  show "is_digit (hd (show_nat n))"
    using show_nat_digits [of n] show_nat_nonempty [of n] by (cases "show_nat n") auto
  then show "is_digit (hd (show_nat n @ r))" by simp
qed

lemma units: "unit_of ''h'' = Some (3600 * second)" "unit_of ''m'' = Some minute" "unit_of ''s'' = Some second"
  "\<not> is_digit (CHR ''h'')" "\<not> is_digit (CHR ''m'')" "\<not> is_digit (CHR ''s'')"
  by (simp_all add: unit_of_def is_digit_def)

lemma parse_duration_hms:
  assumes "(int h * 3600 + int m * 60 + int s) * second < 2 ^ 63"
  shows "parse_duration (show_nat h @ ''h'' @ show_nat m @ ''m'' @ show_nat s @ ''s'') =
    Some ((int h * 3600 + int m * 60 + int s) * second)"
proof -
  have "duration_parts (show_nat s @ [CHR ''s'']) = Some (int s * second)"
    using duration_part [OF units(3,6), of "[]"] by (simp add: duration_parts.simps [of "[]"])
  then have "duration_parts (show_nat m @ CHR ''m'' # show_nat s @ [CHR ''s'']) = Some (int m * minute + int s * second)"
    using duration_part [OF units(2,5), of "show_nat s @ [CHR ''s'']" m] by (simp add: show_nat_head)
  then have parts: "duration_parts (show_nat h @ CHR ''h'' # show_nat m @ CHR ''m'' # show_nat s @ [CHR ''s'']) =
      Some (int h * (3600 * second) + (int m * minute + int s * second))"
    using duration_part [OF units(1,4), of "show_nat m @ CHR ''m'' # show_nat s @ [CHR ''s'']" h]
    by (simp add: show_nat_head)
  have "show_nat h @ CHR ''h'' # show_nat m @ CHR ''m'' # show_nat s @ [CHR ''s''] \<noteq> ''0''"
    by (cases "show_nat h") auto
  then show ?thesis using assms parts by (simp add: parse_duration_def algebra_simps)
qed

section \<open>float64\<close>

text \<open>
  A finite \<open>float64\<close> is kept as a fraction of two integers, the second positive.
  \<open>float_round\<close> rounds a fraction of the normal range to the nearest \<open>float64\<close>, ties to even:
  53 significant bits. The numbers rounded here come from integers below \<open>2^63\<close> in at most one
  division and one product, and stay in that range.
\<close>

type_synonym fraction = "int \<times> int"

definition round_div :: "int \<Rightarrow> int \<Rightarrow> int" where
  "round_div n d =
     (let q = n div d; r = n mod d in
      if 2 * r < d then q else if d < 2 * r then q + 1 else if even q then q else q + 1)"

definition float_exp :: "int \<Rightarrow> int \<Rightarrow> int" where
  "float_exp n d =
     (let k = bitlen n - bitlen d
      in (if n * 2 ^ nat (- k) < d * 2 ^ nat k then k - 1 else k) - 52)"

definition float_round :: "fraction \<Rightarrow> fraction" where
  "float_round x =
     (case x of (n, d) \<Rightarrow>
        if n = 0 then (0, 1)
        else (let e = float_exp \<bar>n\<bar> d;
                  m = round_div (\<bar>n\<bar> * 2 ^ nat (- e)) (d * 2 ^ nat e)
              in (sgn n * m * 2 ^ nat e, 2 ^ nat (- e))))"

text \<open>\<open>float64(a) / float64(b) * 100\<close> for a positive \<open>b\<close>.\<close>

definition float_percent :: "int \<Rightarrow> int \<Rightarrow> fraction" where
  "float_percent a b =
     (let (an, ad) = float_round (a, 1);
          (bn, bd) = float_round (b, 1);
          (qn, qd) = float_round (an * bd, ad * bn)
      in float_round (qn * 100, qd))"

text \<open>The comparison of a \<open>float64\<close> with \<open>float64(t)\<close> for an \<open>int32\<close> \<open>t\<close>, which is exact.\<close>

definition float_less :: "fraction \<Rightarrow> int \<Rightarrow> bool" where
  "float_less x t = (case x of (n, d) \<Rightarrow> n < t * d)"

text \<open>\<open>int32(x)\<close>: cut towards zero; out of range the result is left to the implementation.\<close>

definition float_int32 :: "(fraction \<Rightarrow> int) \<Rightarrow> fraction \<Rightarrow> int" where
  "float_int32 fc x =
     (case x of (n, d) \<Rightarrow>
        let z = go_div n d in if - (2 ^ 31) \<le> z \<and> z < 2 ^ 31 then z else fc x)"

subsection \<open>Rounding error\<close>

definition frac_val :: "fraction \<Rightarrow> real" where
  "frac_val x = real_of_int (fst x) / real_of_int (snd x)"

lemma round_div_error:
  assumes "0 < d"
  shows "\<bar>real_of_int (round_div n d) - real_of_int n / real_of_int d\<bar> \<le> 1 / 2"
proof -
  define f where "f = real_of_int (n mod d) / real_of_int d"
  have d: "0 < real_of_int d" using assms by simp
  have n: "real_of_int n / real_of_int d = real_of_int (n div d) + f"
    using assms by (simp add: f_def field_simps flip: of_int_mult of_int_add)
  have "0 \<le> n mod d" "n mod d < d" using assms by simp_all
  then have r: "0 \<le> f" "f < 1" using d by (simp_all add: f_def)
  have half: "f < 1 / 2 \<longleftrightarrow> 2 * (n mod d) < d" "1 / 2 < f \<longleftrightarrow> d < 2 * (n mod d)"
    using d by (auto simp: f_def field_simps)
  show ?thesis
    using r unfolding n round_div_def Let_def half [symmetric] by (auto simp: abs_le_iff)
qed

lemma nat_powi: "real_of_int (2 ^ nat e) / real_of_int (2 ^ nat (- e)) = 2 powi e"
  by (auto simp: power_int_def field_simps)

lemma bitlen_real:
  assumes "0 < n"
  shows "2 powi (bitlen n - 1) \<le> real_of_int n" "real_of_int n < 2 powi bitlen n"
proof -
  have b: "0 < bitlen n" using bitlen_eq_zero_iff [of n] bitlen_nonneg [of n] assms by linarith
  have "2 ^ nat (bitlen n - 1) \<le> n" "n < 2 ^ nat (bitlen n)"
    using bitlen_bounds [OF assms] by simp_all
  then have "real_of_int (2 ^ nat (bitlen n - 1)) \<le> real_of_int n" "real_of_int n < real_of_int (2 ^ nat (bitlen n))"
    by (simp_all only: of_int_le_iff of_int_less_iff)
  then show "2 powi (bitlen n - 1) \<le> real_of_int n" "real_of_int n < 2 powi bitlen n"
    using b by (simp_all add: power_int_def)
qed

text \<open>The exponent leaves 53 bits before the point.\<close>

lemma float_exp_bounds:
  assumes "0 < n" "0 < d"
  shows "2 powi (float_exp n d + 52) \<le> real_of_int n / real_of_int d \<and>
    real_of_int n / real_of_int d < 2 powi (float_exp n d + 53)"
proof -
  define k where "k = bitlen n - bitlen d"
  have d0: "0 < real_of_int d" using assms by simp
  have cmp: "n * 2 ^ nat (- k) < d * 2 ^ nat k \<longleftrightarrow> real_of_int n / real_of_int d < 2 powi k"
  proof -
    have "n * 2 ^ nat (- k) < d * 2 ^ nat k \<longleftrightarrow>
        real_of_int (n * 2 ^ nat (- k)) < real_of_int (d * 2 ^ nat k)" by (simp only: of_int_less_iff)
    also have "... \<longleftrightarrow> real_of_int n / real_of_int d < real_of_int (2 ^ nat k) / real_of_int (2 ^ nat (- k))"
      using d0 by (simp add: field_simps)
    finally show ?thesis unfolding nat_powi .
  qed
  have lo: "2 powi (k - 1) < real_of_int n / real_of_int d"
  proof -
    have "2 powi (k - 1) * real_of_int d < 2 powi (k - 1) * 2 powi bitlen d"
      using bitlen_real(2) [OF assms(2)] by simp
    also have "... = 2 powi (bitlen n - 1)" by (simp add: k_def power_int_add [symmetric])
    also have "... \<le> real_of_int n" by (rule bitlen_real(1) [OF assms(1)])
    finally show ?thesis using d0 by (simp add: field_simps)
  qed
  have hi: "real_of_int n / real_of_int d < 2 powi (k + 1)"
  proof -
    have "real_of_int n < 2 powi bitlen n" by (rule bitlen_real(2) [OF assms(1)])
    also have "... = 2 powi (k + 1) * 2 powi (bitlen d - 1)" by (simp add: k_def power_int_add [symmetric])
    also have "... \<le> 2 powi (k + 1) * real_of_int d" using bitlen_real(1) [OF assms(2)] by simp
    finally show ?thesis using d0 by (simp add: field_simps)
  qed
  show ?thesis using lo hi cmp by (auto simp: float_exp_def Let_def k_def [symmetric] algebra_simps)
qed

lemma float_round_error:
  assumes "0 < n" "0 < d"
  shows "0 < snd (float_round (n, d))"
    "\<bar>frac_val (float_round (n, d)) - frac_val (n, d)\<bar> \<le> frac_val (n, d) / 2 ^ 53"
proof -
  define e where "e = float_exp n d"
  define m where "m = round_div (n * 2 ^ nat (- e)) (d * 2 ^ nat e)"
  define x where "x = real_of_int n / real_of_int d"
  have fr: "float_round (n, d) = (m * 2 ^ nat e, 2 ^ nat (- e))"
    using assms by (simp add: float_round_def e_def m_def Let_def)
  then show "0 < snd (float_round (n, d))" by simp
  have p: "(0 :: real) < 2 powi e" by simp
  have "real_of_int (n * 2 ^ nat (- e)) / real_of_int (d * 2 ^ nat e) =
      x / (real_of_int (2 ^ nat e) / real_of_int (2 ^ nat (- e)))"
    using assms by (simp add: x_def field_simps)
  then have sc: "real_of_int (n * 2 ^ nat (- e)) / real_of_int (d * 2 ^ nat e) = x / 2 powi e"
    by (simp only: nat_powi)
  have "\<bar>real_of_int m - x / 2 powi e\<bar> \<le> 1 / 2"
    using round_div_error [of "d * 2 ^ nat e" "n * 2 ^ nat (- e)"] assms unfolding sc m_def by simp
  then have "\<bar>real_of_int m - x / 2 powi e\<bar> * 2 powi e \<le> 1 / 2 * 2 powi e"
    using p by (intro mult_right_mono) simp_all
  moreover have "\<bar>real_of_int m - x / 2 powi e\<bar> * 2 powi e = \<bar>real_of_int m * 2 powi e - x\<bar>"
  proof -
    have "(real_of_int m - x / 2 powi e) * 2 powi e = real_of_int m * 2 powi e - x"
      by (simp add: left_diff_distrib)
    then show ?thesis using p by (metis abs_mult abs_of_pos)
  qed
  moreover have "1 / 2 * 2 powi e \<le> x / 2 ^ 53"
  proof -
    have "2 powi (e + 52) \<le> x" using float_exp_bounds [OF assms] by (simp add: x_def e_def)
    then show ?thesis by (simp add: power_int_add)
  qed
  moreover have "frac_val (float_round (n, d)) = real_of_int m * 2 powi e"
    unfolding fr frac_val_def nat_powi [symmetric] by simp
  moreover have "frac_val (n, d) = x" by (simp add: frac_val_def x_def)
  ultimately show "\<bar>frac_val (float_round (n, d)) - frac_val (n, d)\<bar> \<le> frac_val (n, d) / 2 ^ 53"
    by (simp only:)
qed

lemma float_round_pos:
  assumes "0 < n" "0 < d"
  shows "0 < frac_val (float_round (n, d))"
proof -
  have "0 < frac_val (n, d)" using assms by (simp add: frac_val_def)
  then have "frac_val (n, d) / 2 ^ 53 < frac_val (n, d)" by simp
  with float_round_error(2) [OF assms] show ?thesis by linarith
qed

lemma frac_val_pos: "0 < snd x \<Longrightarrow> 0 < frac_val x \<Longrightarrow> 0 < fst x"
  by (simp add: frac_val_def zero_less_divide_iff)

lemma powi_less: "(2 :: real) powi i < 2 powi j \<Longrightarrow> i < j"
  using power_int_increasing [of j i "2 :: real"] by (meson not_less one_le_numeral)

text \<open>Integers of up to 53 bits are exact.\<close>

lemma float_round_int:
  assumes "0 < a" "a < 2 ^ 53"
  shows "frac_val (float_round (a, 1)) = real_of_int a"
proof -
  define e where "e = float_exp a 1"
  have "2 powi (e + 52) \<le> real_of_int a" using float_exp_bounds [of a 1] assms by (simp add: e_def)
  also have "real_of_int a < 2 powi 53" using assms(2) by (simp add: power_int_def)
  finally have "e + 52 < 53" by (rule powi_less)
  then have e: "nat e = 0" by simp
  have "float_round (a, 1) = (a * 2 ^ nat (- e), 2 ^ nat (- e))"
    using assms by (simp add: float_round_def e_def [symmetric] e round_div_def)
  then show ?thesis by (simp add: frac_val_def)
qed

text \<open>The result depends on the value of the fraction only.\<close>

lemma round_div_cong:
  assumes "0 < d" "0 < d'" "real_of_int n / real_of_int d = real_of_int n' / real_of_int d'"
  shows "round_div n d = round_div n' d'"
proof -
  have *: "round_div n d =
      (let x = real_of_int n / real_of_int d; q = \<lfloor>x\<rfloor>; f = x - real_of_int q in
       if f < 1 / 2 then q else if 1 / 2 < f then q + 1 else if even q then q else q + 1)"
    if "0 < d" for n d :: int
  proof -
    have "real_of_int n = real_of_int (n div d) * real_of_int d + real_of_int (n mod d)"
      by (simp flip: of_int_mult of_int_add)
    then have f: "real_of_int n / real_of_int d - real_of_int (n div d) = real_of_int (n mod d) / real_of_int d"
      using that by (simp add: field_simps)
    have half: "2 * (n mod d) < d \<longleftrightarrow> real_of_int (n mod d) / real_of_int d < 1 / 2"
      "d < 2 * (n mod d) \<longleftrightarrow> 1 / 2 < real_of_int (n mod d) / real_of_int d"
      using that by (auto simp: field_simps)
    show ?thesis unfolding round_div_def Let_def floor_divide_of_int_eq f half ..
  qed
  show ?thesis unfolding * [OF assms(1)] * [OF assms(2)] assms(3) ..
qed

lemma float_round_cong:
  assumes pos: "0 < n" "0 < d" "0 < n'" "0 < d'" and eq: "frac_val (n, d) = frac_val (n', d')"
  shows "float_round (n, d) = float_round (n', d')"
proof -
  have x: "real_of_int n / real_of_int d = real_of_int n' / real_of_int d'"
    using eq by (simp add: frac_val_def)
  have "2 powi (float_exp n d + 52) < (2 :: real) powi (float_exp n' d' + 53)"
    "2 powi (float_exp n' d' + 52) < (2 :: real) powi (float_exp n d + 53)"
    using float_exp_bounds [OF pos(1,2)] float_exp_bounds [OF pos(3,4)] x by linarith+
  from this [THEN powi_less] have e: "float_exp n d = float_exp n' d'" by simp
  have "round_div (n * a) (d * b) = round_div (n' * a) (d' * b)" if "0 < b" for a b
    using pos that x by (intro round_div_cong) (simp_all add: field_simps)
  then show ?thesis using pos by (simp add: float_round_def e)
qed

subsection \<open>Percentages against a threshold\<close>

lemma float_percent_zero: "0 < b \<Longrightarrow> float_percent 0 b = (0, 1)"
  by (simp add: float_percent_def float_round_def split: prod.splits)

text \<open>The quotient is rounded from the exact one, and the product from the rounded quotient.\<close>

lemma float_percent_quotient:
  assumes "0 < a" "a < 2 ^ 53" "0 < b" "b < 2 ^ 53"
  shows "\<exists>n d. 0 < n \<and> 0 < d \<and> float_round (a, b) = (n, d) \<and> float_percent a b = float_round (n * 100, d)"
proof -
  obtain an ad where x: "float_round (a, 1) = (an, ad)" by fastforce
  obtain bn bd where y: "float_round (b, 1) = (bn, bd)" by fastforce
  have pos: "0 < ad" "0 < bd" "0 < an" "0 < bn"
    using float_round_error(1) [of a 1] float_round_error(1) [of b 1] float_round_pos [of a 1]
      float_round_pos [of b 1] frac_val_pos [of "(an, ad)"] frac_val_pos [of "(bn, bd)"] assms x y by simp_all
  have "frac_val (an, ad) = real_of_int a" "frac_val (bn, bd) = real_of_int b"
    using float_round_int [of a] float_round_int [of b] assms x y by simp_all
  then have "real_of_int an = real_of_int a * real_of_int ad" "real_of_int bn = real_of_int b * real_of_int bd"
    using pos by (simp_all add: frac_val_def field_simps)
  then have "frac_val (an * bd, ad * bn) = frac_val (a, b)"
    using pos assms by (simp add: frac_val_def field_simps)
  then have q: "float_round (an * bd, ad * bn) = float_round (a, b)"
    using pos assms by (intro float_round_cong) simp_all
  obtain n d where r: "float_round (a, b) = (n, d)" by fastforce
  have "0 < d" "0 < n"
    using float_round_error(1) [OF assms(1,3)] float_round_pos [OF assms(1,3)] frac_val_pos [of "(n, d)"] r
    by simp_all
  then show ?thesis using x y q r by (simp add: float_percent_def)
qed

lemma float_percent_error:
  assumes "0 < a" "a < 2 ^ 53" "0 < b" "b < 2 ^ 53"
  defines "x \<equiv> 100 * real_of_int a / real_of_int b"
  shows "0 < snd (float_percent a b)"
    "x * (1 - 1 / 2 ^ 52) \<le> frac_val (float_percent a b)"
    "frac_val (float_percent a b) \<le> x * (1 + 1 / 2 ^ 51)"
proof -
  obtain n d where pos: "0 < n" "0 < d" and q: "float_round (a, b) = (n, d)"
    and p: "float_percent a b = float_round (n * 100, d)"
    using float_percent_quotient [OF assms(1-4)] by blast
  have x0: "0 < x" using assms by (simp add: x_def)
  have n100: "0 < n * 100" using pos by simp
  show "0 < snd (float_percent a b)" unfolding p by (rule float_round_error(1) [OF n100 pos(2)])
  define y where "y = frac_val (n * 100, d)"
  have "frac_val (n, d) * 100 = y" "frac_val (a, b) * 100 = x" by (simp_all add: y_def x_def frac_val_def)
  then have y: "\<bar>y - x\<bar> \<le> x / 2 ^ 53"
    using float_round_error(2) [OF assms(1,3)] unfolding q abs_le_iff by simp
  have z: "\<bar>frac_val (float_percent a b) - y\<bar> \<le> y / 2 ^ 53"
    unfolding p y_def by (rule float_round_error(2) [OF n100 pos(2)])
  show "x * (1 - 1 / 2 ^ 52) \<le> frac_val (float_percent a b)"
    "frac_val (float_percent a b) \<le> x * (1 + 1 / 2 ^ 51)"
    using x0 y z unfolding abs_le_iff by (simp_all add: algebra_simps)
qed

lemma float_percent_exact_cong:
  assumes "0 < a" "a < 2 ^ 53" "0 < b" "b < 2 ^ 53" "100 * a = t * b" "0 < t" "t \<le> 100"
  shows "float_percent a b = float_percent t 100"
proof -
  have "real_of_int (100 * a) = real_of_int (t * b)" by (simp only: assms(5))
  then have "frac_val (a, b) = frac_val (t, 100)" using assms by (simp add: frac_val_def field_simps)
  then have "float_round (a, b) = float_round (t, 100)" using assms by (intro float_round_cong) simp_all
  then show ?thesis
    using float_percent_quotient [OF assms(1-4)] float_percent_quotient [of t 100] assms(6,7) by force
qed

lemma float_less_val: "0 < snd x \<Longrightarrow> float_less x t \<longleftrightarrow> frac_val x < real_of_int t"
proof -
  assume d: "0 < snd x"
  have "fst x < t * snd x \<longleftrightarrow> real_of_int (fst x) < real_of_int (t * snd x)" by (simp only: of_int_less_iff)
  also have "... \<longleftrightarrow> frac_val x < real_of_int t" using d by (simp add: frac_val_def field_simps)
  finally show ?thesis by (simp add: float_less_def case_prod_beta)
qed

text \<open>A number below \<open>2^53\<close>, with its exponent given.\<close>

lemma float_round_at:
  assumes "0 < n" "0 < d" "d * 2 ^ 52 \<le> n * 2 ^ k" "n * 2 ^ k < d * 2 ^ 53"
  shows "float_round (n, d) = (round_div (n * 2 ^ k) d, 2 ^ k)"
proof -
  have d: "0 < real_of_int d" using assms by simp
  have "real_of_int (d * 2 ^ 52) \<le> real_of_int (n * 2 ^ k)" "real_of_int (n * 2 ^ k) < real_of_int (d * 2 ^ 53)"
    using assms(3,4) by (simp_all only: of_int_le_iff of_int_less_iff)
  then have "2 ^ 52 / 2 ^ k \<le> real_of_int n / real_of_int d" "real_of_int n / real_of_int d < 2 ^ 53 / 2 ^ k"
    using d by (simp_all add: field_simps)
  moreover have "2 powi (52 - int k) = (2 ^ 52 / 2 ^ k :: real)" "2 powi (53 - int k) = (2 ^ 53 / 2 ^ k :: real)"
    by (simp_all add: power_int_diff)
  ultimately have "2 powi (52 - int k) \<le> real_of_int n / real_of_int d"
    "real_of_int n / real_of_int d < 2 powi (53 - int k)" by simp_all
  then have "2 powi (52 - int k) < (2 :: real) powi (float_exp n d + 53)"
    "2 powi (float_exp n d + 52) < (2 :: real) powi (53 - int k)"
    using float_exp_bounds [OF assms(1,2)] by linarith+
  from this [THEN powi_less] have "float_exp n d = - int k" by simp
  then show ?thesis using assms(1) by (simp add: float_round_def)
qed

definition percent_check :: "nat \<Rightarrow> nat \<Rightarrow> int \<Rightarrow> bool" where
  "percent_check k j t \<longleftrightarrow>
     (let m = round_div (t * 2 ^ k) 100 in
      100 * 2 ^ 52 \<le> t * 2 ^ k \<and> t * 2 ^ k < 100 * 2 ^ 53 \<and> 0 < m \<and>
      2 ^ k * 2 ^ 52 \<le> m * 100 * 2 ^ j \<and> m * 100 * 2 ^ j < 2 ^ k * 2 ^ 53 \<and>
      (round_div (m * 100 * 2 ^ j) (2 ^ k) < t * 2 ^ j \<longleftrightarrow> t = 29 \<or> t = 57 \<or> t = 58))"

lemma percent_checkD:
  assumes "percent_check k j t" "0 < t" "t \<le> 100"
  shows "float_less (float_percent t 100) t \<longleftrightarrow> t = 29 \<or> t = 57 \<or> t = 58"
proof -
  define m where "m = round_div (t * 2 ^ k) 100"
  note c = assms(1) [unfolded percent_check_def Let_def, folded m_def]
  obtain n d where q: "float_round (t, 100) = (n, d)" "float_percent t 100 = float_round (n * 100, d)"
    using float_percent_quotient [of t 100] assms(2,3) by auto
  have "float_round (t, 100) = (m, 2 ^ k)"
    unfolding m_def using assms(2) c by (intro float_round_at) simp_all
  then have "float_percent t 100 = float_round (m * 100, 2 ^ k)" using q by simp
  also have "... = (round_div (m * 100 * 2 ^ j) (2 ^ k), 2 ^ j)"
    using c by (intro float_round_at) simp_all
  finally show ?thesis using c by (simp add: float_less_def)
qed

lemma percent_checks:
  "percent_check 59 52 1" "list_all (percent_check 58 51) [2..3]" "list_all (percent_check 57 50) [4..6]"
  "percent_check 56 50 7" "list_all (percent_check 56 49) [8..12]" "list_all (percent_check 55 49) [13..15]"
  "list_all (percent_check 55 48) [16..24]" "list_all (percent_check 54 48) [25..31]"
  "list_all (percent_check 54 47) [32..49]" "list_all (percent_check 53 47) [50..63]"
  "list_all (percent_check 53 46) [64..99]" "percent_check 52 46 100"
  by (simp_all add: percent_check_def round_div_def)

lemma float_percent_table:
  assumes "0 < t" "t \<le> 100"
  shows "float_less (float_percent t 100) t \<longleftrightarrow> t = 29 \<or> t = 57 \<or> t = 58"
proof -
  have "t = 1 \<or> t \<in> {2..3} \<or> t \<in> {4..6} \<or> t = 7 \<or> t \<in> {8..12} \<or> t \<in> {13..15} \<or> t \<in> {16..24} \<or>
      t \<in> {25..31} \<or> t \<in> {32..49} \<or> t \<in> {50..63} \<or> t \<in> {64..99} \<or> t = 100"
    unfolding atLeastAtMost_iff using assms by arith
  then obtain k j where "percent_check k j t"
    using percent_checks unfolding list_all_iff set_upto by blast
  then show ?thesis using assms by (rule percent_checkD)
qed

lemma float_percent_less:
  assumes a: "0 \<le> a" "a < 2 ^ 53" and b: "0 < b" "b < 2 ^ 44" and t: "0 \<le> t" "t \<le> 100"
  shows "float_less (float_percent a b) t \<longleftrightarrow> 100 * a < t * b \<or> 100 * a = t * b \<and> (t = 29 \<or> t = 57 \<or> t = 58)"
proof (cases "a = 0")
  case True
  then show ?thesis using b t by (auto simp: float_percent_zero float_less_def zero_less_mult_iff)
next
  case False
  with a have a0: "0 < a" by simp
  have b53: "b < 2 ^ 53" using b(2) by simp
  note err = float_percent_error [OF a0 a(2) b(1) b53]
  define x where "x = 100 * real_of_int a / real_of_int b"
  have b0: "0 < real_of_int b" using b by simp
  have tb: "real_of_int t * real_of_int b < 100 * 2 ^ 44"
  proof -
    have "t * b \<le> 100 * b" using t b by (intro mult_right_mono) simp_all
    also have "... < 100 * 2 ^ 44" using b by simp
    finally have "real_of_int (t * b) < real_of_int (100 * 2 ^ 44)" by (simp only: of_int_less_iff)
    then show ?thesis by simp
  qed
  have xb: "x * real_of_int b = real_of_int (100 * a)" using b0 by (simp add: x_def)
  consider (less) "100 * a + 1 \<le> t * b" | (greater) "t * b + 1 \<le> 100 * a" | (equal) "100 * a = t * b" by linarith
  then show ?thesis
  proof cases
    case less
    then have "real_of_int (100 * a + 1) \<le> real_of_int (t * b)" by (simp only: of_int_le_iff)
    then have "x * real_of_int b + 1 \<le> real_of_int t * real_of_int b" unfolding xb by simp
    with tb have "x * real_of_int b + x * real_of_int b / 2 ^ 51 < real_of_int t * real_of_int b" by simp
    then have "x * (1 + 1 / 2 ^ 51) * real_of_int b < real_of_int t * real_of_int b"
      by (simp add: algebra_simps)
    then have "x * (1 + 1 / 2 ^ 51) < real_of_int t" using b0 by (simp only: mult_less_cancel_right_pos)
    then have "float_less (float_percent a b) t"
      using err(1,3) unfolding x_def by (subst float_less_val) linarith+
    with less show ?thesis by simp
  next
    case greater
    then have "real_of_int (t * b + 1) \<le> real_of_int (100 * a)" by (simp only: of_int_le_iff)
    then have "real_of_int t * real_of_int b + 1 \<le> x * real_of_int b" unfolding xb by simp
    with tb have "real_of_int t * real_of_int b \<le> x * real_of_int b - x * real_of_int b / 2 ^ 52" by simp
    then have "real_of_int t * real_of_int b \<le> x * (1 - 1 / 2 ^ 52) * real_of_int b"
      by (simp add: algebra_simps)
    then have "real_of_int t \<le> x * (1 - 1 / 2 ^ 52)" using b0 by (simp only: mult_le_cancel_right_pos)
    then have "\<not> float_less (float_percent a b) t"
      using err(1,2) unfolding x_def by (subst float_less_val) linarith+
    with greater show ?thesis by simp
  next
    case equal
    then have "0 < t * b" using a0 by simp
    then have t0: "0 < t" using b by (simp add: zero_less_mult_iff)
    show ?thesis
      unfolding float_percent_exact_cong [OF a0 a(2) b(1) b53 equal t0 t(2)] float_percent_table [OF t0 t(2)]
      using equal by simp
  qed
qed

end
