(* ===== verification/Go_Flags.thy ===== *)
theory Go_Flags
  imports Go_Text
begin

text \<open>
  What the start of the program uses of Go's libraries: \<open>time.ParseDuration\<close> on every input,
  \<open>strconv.ParseBool\<close>, and the loop of package \<open>flag\<close> over the command line. The result of a
  parse that stops the program is kept as such: \<open>FlagHelp\<close> exits with status 0, \<open>FlagError\<close> with 2.
\<close>

section \<open>time.ParseDuration\<close>

text \<open>
  \<open>leadingInt\<close> and \<open>leadingFraction\<close>: a number that does not fit is an error before the
  point, and cut after it. The scale of a fraction is a power of ten of at most 19 digits, which a
  \<open>float64\<close> holds exactly.
\<close>

fun leading_int :: "int \<Rightarrow> string \<Rightarrow> (int \<times> string) option" where
  "leading_int x [] = Some (x, [])"
| "leading_int x (c # cs) =
     (if \<not> is_digit c then Some (x, c # cs)
      else if 2 ^ 63 div 10 < x then None
      else (let y = x * 10 + int (digit_val c) in if 2 ^ 63 < y then None else leading_int y cs))"

fun leading_fraction :: "bool \<Rightarrow> int \<Rightarrow> int \<Rightarrow> string \<Rightarrow> int \<times> int \<times> string" where
  "leading_fraction overflow x scale [] = (x, scale, [])"
| "leading_fraction overflow x scale (c # cs) =
     (if \<not> is_digit c then (x, scale, c # cs)
      else if overflow \<or> (2 ^ 63 - 1) div 10 < x then leading_fraction True x scale cs
      else (let y = x * 10 + int (digit_val c)
            in if 2 ^ 63 < y then leading_fraction True x scale cs
               else leading_fraction False y (scale * 10) cs))"

definition unit_map :: "string \<Rightarrow> int option" where
  "unit_map = map_of
     [(''ns'', 1), (''us'', 1000), ([CHR 0xC2, CHR 0xB5, CHR ''s''], 1000),
      ([CHR 0xCE, CHR 0xBC, CHR ''s''], 1000), (''ms'', 1000000), (''s'', second),
      (''m'', minute), (''h'', 60 * minute)]"

text \<open>\<open>uint64(float64(f) * (float64(unit) / scale))\<close>.\<close>

definition fraction_nanos :: "int \<Rightarrow> int \<Rightarrow> int \<Rightarrow> int" where
  "fraction_nanos f unit scale =
     (let (qn, qd) = float_round (unit, scale);
          (fn, fd) = float_round (f, 1);
          (pn, pd) = float_round (fn * qn, fd * qd)
      in pn div pd)"

text \<open>One number with its unit: its nanoseconds and the rest of the text.\<close>

definition duration_step :: "string \<Rightarrow> (int \<times> string) option" where
  "duration_step s =
     (if hd s \<noteq> CHR ''.'' \<and> \<not> is_digit (hd s) then None
      else (case leading_int 0 s of
              None \<Rightarrow> None
            | Some (v, s1) \<Rightarrow>
                (let pre = length s1 \<noteq> length s;
                     point = s1 \<noteq> [] \<and> hd s1 = CHR ''.'';
                     (f, scale, s2) = (if point then leading_fraction False 0 1 (tl s1) else (0, 1, s1));
                     post = point \<and> length s2 \<noteq> length (tl s1);
                     u = takeWhile (\<lambda>c. c \<noteq> CHR ''.'' \<and> \<not> is_digit c) s2;
                     s3 = dropWhile (\<lambda>c. c \<noteq> CHR ''.'' \<and> \<not> is_digit c) s2
                 in if \<not> pre \<and> \<not> post then None
                    else if u = [] then None
                    else (case unit_map u of
                            None \<Rightarrow> None
                          | Some unit \<Rightarrow>
                              (if 2 ^ 63 div unit < v then None
                               else (let v2 = v * unit + (if 0 < f then fraction_nanos f unit scale else 0)
                                     in if 0 < f \<and> 2 ^ 63 < v2 then None else Some (v2, s3)))))))"

lemma leading_int_rest: "leading_int x s = Some (v, r) \<Longrightarrow> length r \<le> length s"
  by (induction x s rule: leading_int.induct) (fastforce simp: Let_def split: if_splits)+

lemma leading_fraction_rest: "leading_fraction ov x sc s = (f, scale, r) \<Longrightarrow> length r \<le> length s"
  by (induction ov x sc s rule: leading_fraction.induct) (fastforce simp: Let_def split: if_splits)+

lemma duration_step_shorter:
  assumes "duration_step s = Some (v, r)"
  shows "length r < length s"
proof -
  define end_of_unit where "end_of_unit = (\<lambda>c. c \<noteq> CHR ''.'' \<and> \<not> is_digit c)"
  obtain w s1 f scale s2 where s1: "leading_int 0 s = Some (w, s1)"
    and s2: "s2 = s1 \<or> leading_fraction False 0 1 (tl s1) = (f, scale, s2)"
    and u: "takeWhile end_of_unit s2 \<noteq> []" and r: "r = dropWhile end_of_unit s2"
    using assms unfolding duration_step_def end_of_unit_def
    by (auto simp: Let_def split: if_splits option.splits prod.splits)
  have "length s2 \<le> length s"
    using leading_int_rest [OF s1] s2 leading_fraction_rest [of False 0 1 "tl s1" f scale s2] by auto
  moreover have "length r < length s2"
    using u unfolding r by (cases s2) (auto split: if_splits intro: le_less_trans [OF length_dropWhile_le])
  ultimately show ?thesis by simp
qed

text \<open>The sum is kept in a \<open>uint64\<close>, and is an error beyond \<open>2^63\<close>.\<close>

function duration_sum :: "int \<Rightarrow> string \<Rightarrow> int option" where
  "duration_sum d s =
     (if s = [] then Some d
      else (case duration_step s of
              None \<Rightarrow> None
            | Some (v, r) \<Rightarrow>
                (let d2 = (d + v) mod 2 ^ 64 in if 2 ^ 63 < d2 then None else duration_sum d2 r)))"
  by pat_completeness auto
termination
  by (relation "measure (\<lambda>(d, s). length s)") (auto simp: duration_step_shorter)

declare duration_sum.simps [simp del]

definition go_parse_duration :: "string \<Rightarrow> duration option" where
  "go_parse_duration s =
     (let signed = s \<noteq> [] \<and> hd s \<in> {CHR ''-'', CHR ''+''};
          neg = signed \<and> hd s = CHR ''-'';
          r = (if signed then tl s else s)
      in if r = ''0'' then Some 0
         else if r = [] then None
         else (case duration_sum 0 r of
                 None \<Rightarrow> None
               | Some d \<Rightarrow> if neg then Some (- d) else if 2 ^ 63 - 1 < d then None else Some d))"

text \<open>A duration written in nanoseconds is read back.\<close>

definition show_nanos :: "duration \<Rightarrow> string" where
  "show_nanos d = show_int d @ ''ns''"

subsection \<open>Reading what was printed\<close>

lemma foldl_digits_ge: "0 \<le> x \<Longrightarrow> x \<le> foldl (\<lambda>a c. a * 10 + int (digit_val c)) x ds"
proof (induction ds arbitrary: x)
  case (Cons c cs)
  then have "x * 10 + int (digit_val c) \<le> foldl (\<lambda>a c. a * 10 + int (digit_val c)) (x * 10 + int (digit_val c)) cs"
    by simp
  with Cons.prems show ?case by simp
qed simp

lemma foldl_digits_val: "foldl (\<lambda>a c. a * 10 + int (digit_val c)) (int n) ds = int (foldl (\<lambda>a c. 10 * a + digit_val c) n ds)"
proof (induction ds arbitrary: n)
  case (Cons c cs)
  have "int n * 10 + int (digit_val c) = int (10 * n + digit_val c)" by simp
  then show ?case by (simp only: foldl_Cons Cons.IH)
qed simp

lemma leading_int_digits:
  assumes "list_all is_digit ds" "r = [] \<or> \<not> is_digit (hd r)" "0 \<le> x"
    and "foldl (\<lambda>a c. a * 10 + int (digit_val c)) x ds \<le> 2 ^ 63"
  shows "leading_int x (ds @ r) = Some (foldl (\<lambda>a c. a * 10 + int (digit_val c)) x ds, r)"
  using assms
proof (induction ds arbitrary: x)
  case Nil
  then show ?case by (cases r) simp_all
next
  case (Cons c cs)
  have "x * 10 + int (digit_val c) \<le> 2 ^ 63"
    using Cons.prems foldl_digits_ge [of "x * 10 + int (digit_val c)" cs] by simp
  then have "x \<le> 2 ^ 63 div 10" "\<not> 2 ^ 63 < x * 10 + int (digit_val c)" by linarith+
  moreover have "leading_int (x * 10 + int (digit_val c)) (cs @ r) =
      Some (foldl (\<lambda>a c. a * 10 + int (digit_val c)) (x * 10 + int (digit_val c)) cs, r)"
    using Cons.prems by (intro Cons.IH) simp_all
  ultimately show ?case using Cons.prems by (simp add: Let_def)
qed

lemma leading_int_val:
  assumes "list_all is_digit ds" "r = [] \<or> \<not> is_digit (hd r)" "int (digits_val ds) \<le> 2 ^ 63"
  shows "leading_int 0 (ds @ r) = Some (int (digits_val ds), r)"
  using leading_int_digits [OF assms(1,2), of 0] foldl_digits_val [of 0 ds] assms(3)
  by (simp add: digits_val_def)

text \<open>A whole number with a unit.\<close>

lemma duration_step_whole:
  assumes ds: "list_all is_digit ds" "ds \<noteq> []"
    and u: "unit_map u = Some unit" "0 < unit" "list_all (\<lambda>c. c \<noteq> CHR ''.'' \<and> \<not> is_digit c) u" "u \<noteq> []"
    and r: "r = [] \<or> is_digit (hd r)"
    and fits: "int (digits_val ds) * unit \<le> 2 ^ 63"
  shows "duration_step (ds @ u @ r) = Some (int (digits_val ds) * unit, r)"
proof -
  have hd: "is_digit (hd ds)" "\<not> is_digit (hd u)" "hd u \<noteq> CHR ''.''"
    using ds u(3,4) by (cases ds; cases u; simp)+
  have tk: "takeWhile (\<lambda>c. c \<noteq> CHR ''.'' \<and> \<not> is_digit c) (u @ r) = u"
      "dropWhile (\<lambda>c. c \<noteq> CHR ''.'' \<and> \<not> is_digit c) (u @ r) = r"
  proof -
    have "takeWhile (\<lambda>c. c \<noteq> CHR ''.'' \<and> \<not> is_digit c) r = []" "dropWhile (\<lambda>c. c \<noteq> CHR ''.'' \<and> \<not> is_digit c) r = r"
      using r by (cases r; simp)+
    then show "takeWhile (\<lambda>c. c \<noteq> CHR ''.'' \<and> \<not> is_digit c) (u @ r) = u"
        "dropWhile (\<lambda>c. c \<noteq> CHR ''.'' \<and> \<not> is_digit c) (u @ r) = r"
      using u(3) by (simp_all add: list_all_iff)
  qed
  have "int (digits_val ds) \<le> int (digits_val ds) * unit" using u(2) by (simp add: mult_le_cancel_left1)
  then have v: "leading_int 0 (ds @ u @ r) = Some (int (digits_val ds), u @ r)"
    using fits u(4) hd by (intro leading_int_val [OF ds(1)]) simp_all
  have "int (digits_val ds) = int (digits_val ds) * unit div unit" using u(2) by simp
  also have "\<dots> \<le> 2 ^ 63 div unit" using fits u(2) by (rule zdiv_mono1)
  finally have "\<not> 2 ^ 63 div unit < int (digits_val ds)" by simp
  moreover have "hd (ds @ u @ r) = hd ds" "u @ r \<noteq> []" "hd (u @ r) = hd u" "length (u @ r) \<noteq> length (ds @ u @ r)"
    using ds(2) u(4) by simp_all
  ultimately show ?thesis
    unfolding duration_step_def v option.case prod.case Let_def
    using ds(2) u(1,4) hd by (simp only: tk if_False if_True simp_thms option.case prod.case less_irrefl add_0_right)
qed

lemma nanos_read_back:
  assumes "- (2 ^ 63) \<le> d" "d < 2 ^ 63"
  shows "go_parse_duration (show_nanos d) = Some d"
proof -
  have sum: "duration_sum 0 (show_nat n @ ''ns'') = Some (int n)" if "int n \<le> 2 ^ 63" for n
  proof -
    have "duration_step (show_nat n @ ''ns'' @ []) = Some (int (digits_val (show_nat n)) * 1, [])"
      by (rule duration_step_whole)
        (use that in \<open>simp_all add: unit_map_def show_nat_digits is_digit_def digits_val_show_nat\<close>)
    then show ?thesis
      using that by (simp add: digits_val_show_nat duration_sum.simps [of 0] duration_sum.simps [of _ "[]"] Let_def)
  qed
  show ?thesis
  proof (cases "d < 0")
    case True
    then show ?thesis
      using sum [of "nat (- d)"] assms by (simp add: go_parse_duration_def show_nanos_def show_int_def)
  next
    case False
    have "hd (show_nat (nat d) @ ''ns'') \<notin> {CHR ''-'', CHR ''+''}"
      using show_nat_head(2) [of "nat d" "''ns''"] by (auto simp: is_digit_def)
    moreover have "show_nat (nat d) @ ''ns'' \<noteq> ''0''" by (cases "show_nat (nat d)") auto
    ultimately show ?thesis
      using False sum [of "nat d"] assms by (simp add: go_parse_duration_def show_nanos_def show_int_def)
  qed
qed

text \<open>On the durations that the idle detector admits, the general parser agrees with the restricted one.\<close>

lemma unit_of_map:
  assumes "unit_of u = Some f"
  shows "unit_map u = Some f" "0 < f" "list_all (\<lambda>c. c \<noteq> CHR ''.'' \<and> \<not> is_digit c) u" "u \<noteq> []"
  using assms by (auto simp: unit_of_def unit_map_def is_digit_def split: if_splits)

lemma duration_parts_nonneg: "duration_parts s = Some d \<Longrightarrow> 0 \<le> d"
proof (induction s arbitrary: d rule: duration_parts.induct)
  case (1 s)
  show ?case
  proof (cases "s = []")
    case True
    then show ?thesis using "1.prems" by (simp add: duration_parts.simps)
  next
    case False
    let ?r = "dropWhile is_digit s"
    obtain f d' where f: "takeWhile is_digit s \<noteq> []" "unit_of (takeWhile (\<lambda>c. \<not> is_digit c) ?r) = Some f"
        "duration_parts (dropWhile (\<lambda>c. \<not> is_digit c) ?r) = Some d'"
        "d = int (digits_val (takeWhile is_digit s)) * f + d'"
      using "1.prems" False unfolding duration_parts.simps [of s]
      by (auto simp: Let_def split: if_splits option.splits)
    then have "0 \<le> d'" using False by (intro "1.IH" [OF _ refl refl refl]) simp_all
    then show ?thesis using f(4) unit_of_map(2) [OF f(2)] by simp
  qed
qed

lemma parts_sum:
  assumes "duration_parts s = Some d" "0 \<le> e" "e + d \<le> 2 ^ 63"
  shows "duration_sum e s = Some (e + d)"
  using assms
proof (induction s arbitrary: d e rule: duration_parts.induct)
  case (1 s)
  show ?case
  proof (cases "s = []")
    case True
    then show ?thesis using "1.prems"(1) by (simp add: duration_parts.simps duration_sum.simps)
  next
    case False
    define ds r where "ds = takeWhile is_digit s" and "r = dropWhile is_digit s"
    define u r' where "u = takeWhile (\<lambda>c. \<not> is_digit c) r" and "r' = dropWhile (\<lambda>c. \<not> is_digit c) r"
    obtain f d' where f: "ds \<noteq> []" "unit_of u = Some f" "duration_parts r' = Some d'" "d = int (digits_val ds) * f + d'"
      using "1.prems"(1) False unfolding duration_parts.simps [of s] ds_def r_def u_def r'_def
      by (auto simp: Let_def split: if_splits option.splits)
    have d': "0 \<le> d'" by (rule duration_parts_nonneg [OF f(3)])
    have v: "0 \<le> int (digits_val ds) * f" using unit_of_map(2) [OF f(2)] by simp
    have s: "s = ds @ u @ r'" by (simp add: ds_def r_def u_def r'_def)
    have "duration_step (ds @ u @ r') = Some (int (digits_val ds) * f, r')"
    proof (rule duration_step_whole [OF _ f(1) unit_of_map [OF f(2)]])
      show "list_all is_digit ds" by (auto simp: ds_def list_all_iff dest: set_takeWhileD)
      show "r' = [] \<or> is_digit (hd r')" using hd_dropWhile [of "\<lambda>c. \<not> is_digit c" r] by (auto simp: r'_def)
      show "int (digits_val ds) * f \<le> 2 ^ 63" using "1.prems"(2,3) f(4) d' by simp
    qed
    then have "duration_step s = Some (int (digits_val ds) * f, r')" by (simp add: s)
    moreover have "(e + int (digits_val ds) * f) mod 2 ^ 64 = e + int (digits_val ds) * f"
      using "1.prems"(2,3) f(4) d' v by (intro mod_pos_pos_trivial) simp_all
    moreover have "\<not> 2 ^ 63 < e + int (digits_val ds) * f" using "1.prems"(3) f(4) d' by simp
    moreover have "duration_sum (e + int (digits_val ds) * f) r' = Some (e + int (digits_val ds) * f + d')"
      using "1.prems"(2,3) f d' v False unfolding ds_def r_def u_def r'_def
      by (intro "1.IH" [OF _ refl refl refl]) simp_all
    ultimately show ?thesis using False f(4) by (subst duration_sum.simps) (simp add: Let_def)
  qed
qed

lemma admitted_durations_agree:
  assumes "parse_duration s = Some d"
  shows "go_parse_duration s = Some d"
proof (cases "s = ''0''")
  case True
  then show ?thesis using assms by (simp add: parse_duration_def go_parse_duration_def)
next
  case False
  then have p: "s \<noteq> []" "duration_parts s = Some d" "d < 2 ^ 63"
    using assms by (auto simp: parse_duration_def split: if_splits option.splits)
  have "takeWhile is_digit s \<noteq> []"
    using p(1,2) unfolding duration_parts.simps [of s] by (auto simp: Let_def)
  then have "is_digit (hd s)" by (cases s) (auto split: if_splits)
  then have "hd s \<notin> {CHR ''-'', CHR ''+''}" by (auto simp: is_digit_def)
  moreover have "duration_sum 0 s = Some d" using parts_sum [OF p(2), of 0] p(3) by simp
  ultimately show ?thesis using False p by (auto simp: go_parse_duration_def Let_def)
qed

section \<open>strconv.ParseBool\<close>

definition parse_bool :: "string \<Rightarrow> bool option" where
  "parse_bool s =
     (if s \<in> {''1'', ''t'', ''T'', ''true'', ''TRUE'', ''True''} then Some True
      else if s \<in> {''0'', ''f'', ''F'', ''false'', ''FALSE'', ''False''} then Some False
      else None)"

definition show_bool :: "bool \<Rightarrow> string" where
  "show_bool b = (if b then ''true'' else ''false'')"

lemma parse_show_bool [simp]: "parse_bool (show_bool b) = Some b"
  by (simp add: parse_bool_def show_bool_def)

section \<open>Package flag\<close>

record 's flag =
  fg_bool :: bool
  fg_set :: "string \<Rightarrow> 's \<Rightarrow> 's option"

text \<open>What \<open>parseOne\<close> makes of one argument: the name starts after one or two hyphens.\<close>

datatype flag_arg = NoFlag | Terminator | BadSyntax | NamedFlag string "string option"

definition flag_arg_of :: "string \<Rightarrow> flag_arg" where
  "flag_arg_of s =
     (if length s < 2 \<or> hd s \<noteq> CHR ''-'' then NoFlag
      else if s = ''--'' then Terminator
      else (let name = (if s ! 1 = CHR ''-'' then drop 2 s else drop 1 s)
            in if name = [] \<or> hd name \<in> {CHR ''-'', CHR ''=''} then BadSyntax
               else (let r = dropWhile (\<lambda>c. c \<noteq> CHR ''='') name
                     in NamedFlag (takeWhile (\<lambda>c. c \<noteq> CHR ''='') name) (if r = [] then None else Some (tl r)))))"

datatype 's parsed = Parsed 's "string list" | FlagHelp | FlagError

text \<open>\<open>Parse\<close>: flags are set until the first argument that is none; the rest stays.\<close>

fun parse_flags :: "(string \<Rightarrow> 's flag option) \<Rightarrow> string list \<Rightarrow> 's \<Rightarrow> 's parsed" where
  "parse_flags formal [] st = Parsed st []"
| "parse_flags formal (s # args) st =
     (case flag_arg_of s of
        NoFlag \<Rightarrow> Parsed st (s # args)
      | Terminator \<Rightarrow> Parsed st args
      | BadSyntax \<Rightarrow> FlagError
      | NamedFlag name val \<Rightarrow>
          (case formal name of
             None \<Rightarrow> if name \<in> {''help'', ''h''} then FlagHelp else FlagError
           | Some fl \<Rightarrow>
               (if fg_bool fl then
                  (case fg_set fl (case val of None \<Rightarrow> ''true'' | Some v \<Rightarrow> v) st of
                     None \<Rightarrow> FlagError
                   | Some st' \<Rightarrow> parse_flags formal args st')
                else (case val of
                        Some v \<Rightarrow>
                          (case fg_set fl v st of None \<Rightarrow> FlagError | Some st' \<Rightarrow> parse_flags formal args st')
                      | None \<Rightarrow>
                          (case args of
                             [] \<Rightarrow> FlagError
                           | v # args' \<Rightarrow>
                               (case fg_set fl v st of
                                  None \<Rightarrow> FlagError
                                | Some st' \<Rightarrow> parse_flags formal args' st'))))))"

end
