(* ===== verification/Auto_Schedule.thy ===== *)
theory Auto_Schedule
  imports Kube_Client
begin

text \<open>
  The auto-schedule controller (\<open>autoschedulepolicy_controller.go\<close>): from a policy it creates
  one sleep schedule per matching namespace, keeps it equal to the profile the namespace asks
  for, and removes the ones no longer wanted. Parameters are the client,
  \<open>LabelSelectorAsSelector\<close> and the clock. An error wrapped with \<open>fmt.Errorf\<close> is the error it
  wraps; the added text is left out.
\<close>

section \<open>Types\<close>

record auto_profile =
  ap_selector :: workload_selector
  ap_schedules :: "sleep_window list"
  ap_suspend :: bool

record auto_spec =
  aus_suspend :: bool
  aus_selector :: "label_selector option"
  aus_profile_label :: string
  aus_profiles :: "(string \<times> auto_profile) list"
  aus_generated_name :: string
  aus_interval :: "duration option"

record namespace_conflict =
  nc_namespace :: string
  nc_reason :: string
  nc_with :: "string list"
  nc_message :: string

record missing_profile =
  mp_namespace :: string
  mp_profile :: string

record auto_status =
  aust_generation :: int
  aust_matched :: int
  aust_generated :: int
  aust_conflicts :: "namespace_conflict list"
  aust_missing :: "missing_profile list"
  aust_conditions :: "condition list"

record auto_policy =
  au_name :: string
  au_generation :: int
  au_deleting :: bool
  au_finalizer :: bool
  au_spec :: auto_spec
  au_status :: auto_status

record kube_namespace =
  kn_name :: string
  kn_labels :: smap

definition managed_by_label :: string where
  "managed_by_label = ''slumlord.io/managed-by-policy''"

definition resolved_profile_label :: "auto_policy \<Rightarrow> string" where
  "resolved_profile_label p =
     (if aus_profile_label (au_spec p) \<noteq> [] then aus_profile_label (au_spec p)
      else ''slumlord.io/sleep-profile'')"

definition resolved_generated_name :: "auto_policy \<Rightarrow> string" where
  "resolved_generated_name p =
     (if aus_generated_name (au_spec p) \<noteq> [] then aus_generated_name (au_spec p) else ''auto-sleep'')"

text \<open>
  The client. \<open>ak_list_managed\<close> lists the schedules of all namespaces whose managed-by label
  has the given value.
\<close>

record 'w auto_kube =
  ak_get_policy :: "string \<Rightarrow> 'w \<Rightarrow> kerr + auto_policy"
  ak_update_policy :: "auto_policy \<Rightarrow> 'w \<Rightarrow> (kerr + auto_policy) \<times> 'w"
  ak_update_status :: "auto_policy \<Rightarrow> 'w \<Rightarrow> kerr option \<times> 'w"
  ak_namespaces :: "'w \<Rightarrow> kerr + kube_namespace list"
  ak_policies :: "'w \<Rightarrow> kerr + auto_policy list"
  ak_get_schedule :: "string \<Rightarrow> string \<Rightarrow> 'w \<Rightarrow> kerr + sleep_schedule"
  ak_create_schedule :: "sleep_schedule \<Rightarrow> 'w \<Rightarrow> kerr option \<times> 'w"
  ak_update_schedule :: "sleep_schedule \<Rightarrow> 'w \<Rightarrow> kerr option \<times> 'w"
  ak_delete_schedule :: "sleep_schedule \<Rightarrow> 'w \<Rightarrow> kerr option \<times> 'w"
  ak_list_managed :: "string \<Rightarrow> 'w \<Rightarrow> kerr + sleep_schedule list"

section \<open>Comparing schedules\<close>

text \<open>The loops of \<open>stringSliceEqual\<close> and \<open>intSliceEqual\<close>.\<close>

definition slice_equal :: "'a list \<Rightarrow> 'a list \<Rightarrow> bool" where
  "slice_equal a b = (if length a \<noteq> length b then False else list_all (\<lambda>(x, y). x = y) (zip a b))"

definition workload_selector_equal :: "workload_selector \<Rightarrow> workload_selector \<Rightarrow> bool" where
  "workload_selector_equal a b =
     (if \<not> slice_equal (wsel_types a) (wsel_types b) then False
      else if \<not> slice_equal (wsel_names a) (wsel_names b) then False
      else if length (wsel_labels a) \<noteq> length (wsel_labels b) then False
      else gmatches (wsel_labels a) (wsel_labels b))"

definition sleep_window_equal :: "sleep_window \<Rightarrow> sleep_window \<Rightarrow> bool" where
  "sleep_window_equal a b =
     (if sw_start a \<noteq> sw_start b \<or> sw_end a \<noteq> sw_end b \<or> sw_timezone a \<noteq> sw_timezone b then False
      else slice_equal (sw_days a) (sw_days b))"

definition sleep_spec_equal :: "sleep_spec \<Rightarrow> sleep_spec \<Rightarrow> bool" where
  "sleep_spec_equal a b =
     (if ss_suspend a \<noteq> ss_suspend b then False
      else if \<not> workload_selector_equal (ss_selector a) (ss_selector b) then False
      else if length (ss_schedules a) \<noteq> length (ss_schedules b) then False
      else list_all (\<lambda>(x, y). sleep_window_equal x y) (zip (ss_schedules a) (ss_schedules b)))"

definition build_sleep_schedule_spec :: "auto_profile \<Rightarrow> sleep_spec" where
  "build_sleep_schedule_spec pr =
     \<lparr>ss_suspend = ap_suspend pr, ss_selector = ap_selector pr, ss_schedule = None,
      ss_schedules = ap_schedules pr, ss_interval = None\<rparr>"

section \<open>Which namespaces\<close>

definition namespace_matches_policy :: "selector_of \<Rightarrow> auto_policy \<Rightarrow> kube_namespace \<Rightarrow> bool option" where
  "namespace_matches_policy as_sel p ns =
     (let sel = (case aus_selector (au_spec p) of
                   Some s \<Rightarrow> s
                 | None \<Rightarrow> LabelSelector [] [(resolved_profile_label p, ''Exists'', [])])
      in case as_sel sel of None \<Rightarrow> None | Some matches \<Rightarrow> Some (matches (kn_labels ns)))"

definition other_policies :: "string \<Rightarrow> auto_policy list \<Rightarrow> auto_policy list" where
  "other_policies self ps = filter (\<lambda>p. au_name p \<noteq> self \<and> \<not> au_deleting p) ps"

definition overlapping_policies :: "selector_of \<Rightarrow> auto_policy list \<Rightarrow> kube_namespace \<Rightarrow> string list" where
  "overlapping_policies as_sel others ns =
     sort (map au_name (filter (\<lambda>p. namespace_matches_policy as_sel p ns = Some True) others))"

text \<open>The loop that collects the matching namespaces, or the first error.\<close>

fun matched_namespaces ::
  "selector_of \<Rightarrow> auto_policy \<Rightarrow> kube_namespace list \<Rightarrow> kube_namespace list option" where
  "matched_namespaces as_sel p [] = Some []"
| "matched_namespaces as_sel p (ns # nss) =
     (case namespace_matches_policy as_sel p ns of
        None \<Rightarrow> None
      | Some ok \<Rightarrow>
          map_option (\<lambda>rest. if ok then ns # rest else rest) (matched_namespaces as_sel p nss))"

section \<open>One namespace\<close>

record 'w auto_st =
  at_world :: 'w
  at_conflicts :: "namespace_conflict list"
  at_missing :: "missing_profile list"
  at_generated :: int
  at_desired :: "string list"

definition new_schedule :: "auto_policy \<Rightarrow> string \<Rightarrow> auto_profile \<Rightarrow> sleep_schedule" where
  "new_schedule p ns pr =
     \<lparr>sch_name = resolved_generated_name p, sch_namespace = ns, sch_labels = [(managed_by_label, au_name p)],
      sch_generation = 0, sch_spec = build_sleep_schedule_spec pr,
      sch_status = \<lparr>sst_sleeping = False, sst_days_display = [], sst_managed = [],
                    sst_last_transition = None, sst_conditions = []\<rparr>\<rparr>"

definition add_conflict :: "string \<Rightarrow> string \<Rightarrow> string list \<Rightarrow> string \<Rightarrow> 'w auto_st \<Rightarrow> 'w auto_st" where
  "add_conflict ns reason others message st =
     st\<lparr>at_conflicts := at_conflicts st @
       [\<lparr>nc_namespace = ns, nc_reason = reason, nc_with = others, nc_message = message\<rparr>]\<rparr>"

definition generated_in :: "string \<Rightarrow> 'w auto_st \<Rightarrow> 'w auto_st" where
  "generated_in ns st =
     st\<lparr>at_desired := ns # at_desired st, at_generated := s32 (at_generated st + 1)\<rparr>"

text \<open>The schedule of one namespace: created, rejected as a manual one, updated or left alone.\<close>

definition sync_schedule ::
  "(string \<Rightarrow> string) \<Rightarrow> 'w auto_kube \<Rightarrow> auto_policy \<Rightarrow> auto_profile \<Rightarrow> string \<Rightarrow> 'w auto_st \<Rightarrow>
   kerr option \<times> 'w auto_st" where
  "sync_schedule quote c p pr ns st =
     (case ak_get_schedule c ns (resolved_generated_name p) (at_world st) of
        Inl e \<Rightarrow>
          if is_not_found e then
            (case ak_create_schedule c (new_schedule p ns pr) (at_world st) of
               (Some e', w) \<Rightarrow> (Some e', st\<lparr>at_world := w\<rparr>)
             | (None, w) \<Rightarrow> (None, generated_in ns (st\<lparr>at_world := w\<rparr>)))
          else (Some e, st)
      | Inr existing \<Rightarrow>
          if gget (sch_labels existing) managed_by_label \<noteq> au_name p then
            (None, add_conflict ns ''ManualScheduleExists'' []
               (''a manually-managed SleepSchedule named '' @ quote (resolved_generated_name p) @ '' already exists'') st)
          else
            (let desired = build_sleep_schedule_spec pr in
             if \<not> sleep_spec_equal (sch_spec existing) desired then
               (case ak_update_schedule c (existing\<lparr>sch_spec := desired\<rparr>) (at_world st) of
                  (Some e', w) \<Rightarrow> (Some e', st\<lparr>at_world := w\<rparr>)
                | (None, w) \<Rightarrow> (None, generated_in ns (st\<lparr>at_world := w\<rparr>)))
             else (None, generated_in ns st)))"

definition auto_namespace ::
  "(string \<Rightarrow> string) \<Rightarrow> selector_of \<Rightarrow> 'w auto_kube \<Rightarrow> auto_policy \<Rightarrow> auto_policy list \<Rightarrow> kube_namespace \<Rightarrow>
   'w auto_st \<Rightarrow> kerr option \<times> 'w auto_st" where
  "auto_namespace quote as_sel c p others ns st =
     (let profile = gget (kn_labels ns) (resolved_profile_label p);
          overlap = overlapping_policies as_sel others ns
      in if overlap \<noteq> [] then
           (None, add_conflict (kn_name ns) ''PolicyOverlap'' overlap
              ''another SlumlordAutoSchedulePolicy also matches this namespace'' st)
         else
           (case map_of (aus_profiles (au_spec p)) profile of
              None \<Rightarrow>
                (None, st\<lparr>at_missing := at_missing st @ [\<lparr>mp_namespace = kn_name ns, mp_profile = profile\<rparr>]\<rparr>)
            | Some pr \<Rightarrow> sync_schedule quote c p pr (kn_name ns) st))"

section \<open>Deleting schedules\<close>

text \<open>The loop of both deletions; a schedule that is gone is no error.\<close>

definition delete_one :: "'w auto_kube \<Rightarrow> sleep_schedule \<Rightarrow> 'w \<Rightarrow> kerr option \<times> 'w" where
  "delete_one c s w =
     (case ak_delete_schedule c s w of
        (Some e, w') \<Rightarrow> (if is_not_found e then None else Some e, w')
      | (None, w') \<Rightarrow> (None, w'))"

definition delete_orphaned_schedules ::
  "'w auto_kube \<Rightarrow> auto_policy \<Rightarrow> string list \<Rightarrow> 'w \<Rightarrow> kerr option \<times> 'w" where
  "delete_orphaned_schedules c p keep w =
     (case ak_list_managed c (au_name p) w of
        Inl e \<Rightarrow> (Some e, w)
      | Inr owned \<Rightarrow>
          run_steps (map (delete_one c)
            (filter (\<lambda>s. \<not> (sch_namespace s \<in> set keep \<and> sch_name s = resolved_generated_name p)) owned)) w)"

definition delete_all_managed_schedules :: "'w auto_kube \<Rightarrow> auto_policy \<Rightarrow> 'w \<Rightarrow> kerr option \<times> 'w" where
  "delete_all_managed_schedules c p w =
     (case ak_list_managed c (au_name p) w of
        Inl e \<Rightarrow> (Some e, w)
      | Inr owned \<Rightarrow> run_steps (map (delete_one c) owned) w)"

section \<open>Reconcile\<close>

text \<open>
  \<open>updateStatus\<close>. The two lists have one entry per namespace at most, so that sorting them by
  namespace determines the order.
\<close>

definition auto_status_of ::
  "instant \<Rightarrow> auto_policy \<Rightarrow> int \<Rightarrow> int \<Rightarrow> namespace_conflict list \<Rightarrow> missing_profile list \<Rightarrow> auto_status" where
  "auto_status_of now p matched generated conflicts missing =
     (let partial = (conflicts \<noteq> [] \<or> missing \<noteq> []) in
      \<lparr>aust_generation = au_generation p, aust_matched = matched, aust_generated = generated,
       aust_conflicts = sort_key nc_namespace conflicts, aust_missing = sort_key mp_namespace missing,
       aust_conditions =
         [\<lparr>cd_type = ''Ready'', cd_status = (if partial then ''False'' else ''True''),
           cd_generation = au_generation p, cd_transition = Some now,
           cd_reason = (if partial then ''PartialReconcile'' else ''Reconciled''),
           cd_message = show_int matched @ '' namespace(s) matched, '' @ show_int generated @
             '' schedule(s) generated''\<rparr>]\<rparr>)"

definition auto_requeue :: "duration \<Rightarrow> auto_policy \<Rightarrow> duration" where
  "auto_requeue dflt p =
     (case aus_interval (au_spec p) of
        Some d \<Rightarrow> d
      | None \<Rightarrow> if 0 < dflt then dflt else 5 * minute)"

text \<open>The part of \<open>Reconcile\<close> after the lists have been read.\<close>

definition auto_apply ::
  "(string \<Rightarrow> string) \<Rightarrow> selector_of \<Rightarrow> duration \<Rightarrow> 'w auto_kube \<Rightarrow> instant \<Rightarrow> auto_policy \<Rightarrow>
   auto_policy list \<Rightarrow> kube_namespace list \<Rightarrow> 'w \<Rightarrow> result \<times> 'w" where
  "auto_apply quote as_sel dflt c now p others matched w =
     (case run_steps (map (auto_namespace quote as_sel c p others) matched)
             \<lparr>at_world = w, at_conflicts = [], at_missing = [], at_generated = 0, at_desired = []\<rparr> of
        (Some e, st) \<Rightarrow> (Done 0 (Some e), at_world st)
      | (None, st) \<Rightarrow>
          (case delete_orphaned_schedules c p (at_desired st) (at_world st) of
             (Some e, w1) \<Rightarrow> (Done 0 (Some e), w1)
           | (None, w1) \<Rightarrow>
               (case ak_update_status c
                       (p\<lparr>au_status := auto_status_of now p (s32 (int (length matched))) (at_generated st)
                                       (at_conflicts st) (at_missing st)\<rparr>) w1 of
                  (err, w2) \<Rightarrow> (Done (auto_requeue dflt p) err, w2))))"

definition auto_active ::
  "(string \<Rightarrow> string) \<Rightarrow> selector_of \<Rightarrow> duration \<Rightarrow> 'w auto_kube \<Rightarrow> instant \<Rightarrow> auto_policy \<Rightarrow> 'w \<Rightarrow> result \<times> 'w" where
  "auto_active quote as_sel dflt c now p w =
     (if aus_suspend (au_spec p) then (Done (auto_requeue dflt p) None, w)
      else
        (case ak_namespaces c w of
           Inl e \<Rightarrow> (Done 0 (Some e), w)
         | Inr nss \<Rightarrow>
             (case ak_policies c w of
                Inl e \<Rightarrow> (Done 0 (Some e), w)
              | Inr ps \<Rightarrow>
                  (case matched_namespaces as_sel p nss of
                     None \<Rightarrow> (Done 0 (Some (ErrOther ''invalid namespaceSelector'')), w)
                   | Some matched \<Rightarrow>
                       auto_apply quote as_sel dflt c now p (other_policies (au_name p) ps) matched w))))"

definition auto_reconcile ::
  "(string \<Rightarrow> string) \<Rightarrow> selector_of \<Rightarrow> duration \<Rightarrow> 'w auto_kube \<Rightarrow> instant \<Rightarrow> string \<Rightarrow> 'w \<Rightarrow> result \<times> 'w" where
  "auto_reconcile quote as_sel dflt c now name w =
     (case ak_get_policy c name w of
        Inl e \<Rightarrow> (Done 0 (ignore_not_found e), w)
      | Inr p \<Rightarrow>
          if au_deleting p then
            (if au_finalizer p then
               (case delete_all_managed_schedules c p w of
                  (Some e, w1) \<Rightarrow> (Done 0 (Some e), w1)
                | (None, w1) \<Rightarrow>
                    (case ak_update_policy c (p\<lparr>au_finalizer := False\<rparr>) w1 of
                       (Inl e, w2) \<Rightarrow> (Done 0 (Some e), w2)
                     | (Inr r, w2) \<Rightarrow> (Done 0 None, w2)))
             else (Done 0 None, w))
          else
            (case (if au_finalizer p then (Inr p, w) else ak_update_policy c (p\<lparr>au_finalizer := True\<rparr>) w) of
               (Inl e, w1) \<Rightarrow> (Done 0 (Some e), w1)
             | (Inr p1, w1) \<Rightarrow> auto_active quote as_sel dflt c now p1 w1))"

section \<open>Watches\<close>

text \<open>The mapping functions: the policies to reconcile after an event. A list error gives none.\<close>

definition namespace_to_policy :: "selector_of \<Rightarrow> kerr + auto_policy list \<Rightarrow> kube_namespace \<Rightarrow> string list" where
  "namespace_to_policy as_sel listed ns =
     (case listed of
        Inl e \<Rightarrow> []
      | Inr ps \<Rightarrow> map au_name (filter (\<lambda>p. namespace_matches_policy as_sel p ns = Some True) ps))"

definition peer_policy_to_policy :: "kerr + auto_policy list \<Rightarrow> string \<Rightarrow> string list" where
  "peer_policy_to_policy listed name =
     (case listed of Inl e \<Rightarrow> [] | Inr ps \<Rightarrow> map au_name (filter (\<lambda>p. au_name p \<noteq> name) ps))"

definition sleep_schedule_to_policy :: "smap \<Rightarrow> string list" where
  "sleep_schedule_to_policy labels =
     (let name = gget labels managed_by_label in if name = [] then [] else [name])"

section \<open>The schedules on the server\<close>

type_synonym schedule_key = "string \<times> string"
type_synonym schedules = "schedule_key \<Rightarrow> (smap \<times> sleep_spec) option"

definition schedule_key :: "sleep_schedule \<Rightarrow> schedule_key" where
  "schedule_key s = (sch_namespace s, sch_name s)"

definition is_managed :: "string \<Rightarrow> (smap \<times> sleep_spec) option \<Rightarrow> bool" where
  "is_managed name v = (case v of None \<Rightarrow> False | Some (ls, sp) \<Rightarrow> gget ls managed_by_label = name)"

text \<open>
  What the API server promises of schedules, of which \<open>view\<close> gives labels and spec: reads see
  the stored object, a call that succeeds changes its object and no other, \<open>NotFound\<close> means
  there is none, listing by label finds all, and other writes leave the schedules alone.
\<close>

locale schedule_api =
  fixes c :: "'w auto_kube" and view :: "'w \<Rightarrow> schedules"
  assumes get: "ak_get_schedule c ns n w = Inr s \<Longrightarrow>
      schedule_key s = (ns, n) \<and> view w (ns, n) = Some (sch_labels s, sch_spec s)"
    and get_none: "ak_get_schedule c ns n w = Inl ErrNotFound \<Longrightarrow> view w (ns, n) = None"
    and create: "ak_create_schedule c s w = (None, w') \<Longrightarrow>
      view w' = (view w)(schedule_key s \<mapsto> (sch_labels s, sch_spec s))"
    and update: "ak_update_schedule c s w = (None, w') \<Longrightarrow>
      view w' = (view w)(schedule_key s \<mapsto> (sch_labels s, sch_spec s))"
    and delete: "ak_delete_schedule c s w = (e, w') \<Longrightarrow> e = None \<or> e = Some ErrNotFound \<Longrightarrow>
      view w' = (view w)(schedule_key s := None)"
    and list: "ak_list_managed c name w = Inr owned \<Longrightarrow>
      (k \<in> schedule_key ` set owned) = is_managed name (view w k)"
    and update_policy: "ak_update_policy c p w = (r, w') \<Longrightarrow> view w' = view w"
    and update_status: "ak_update_status c p w = (e, w') \<Longrightarrow> view w' = view w"

section \<open>What a reconcile leaves on the server\<close>

text \<open>The schedule of a namespace after a profile has been applied to it.\<close>

definition synced :: "auto_policy \<Rightarrow> auto_profile \<Rightarrow> (smap \<times> sleep_spec) option \<Rightarrow> (smap \<times> sleep_spec) option" where
  "synced p pr v =
     (let desired = build_sleep_schedule_spec pr in
      case v of
        None \<Rightarrow> Some ([(managed_by_label, au_name p)], desired)
      | Some (ls, sp) \<Rightarrow>
          if gget ls managed_by_label = au_name p
          then Some (ls, if sleep_spec_equal sp desired then sp else desired) else v)"

text \<open>The profile a namespace gets: it matches, no other policy does, and the profile exists.\<close>

definition wanted ::
  "selector_of \<Rightarrow> auto_policy \<Rightarrow> auto_policy list \<Rightarrow> kube_namespace list \<Rightarrow> string \<Rightarrow> auto_profile option" where
  "wanted as_sel p others matched n =
     (case find (\<lambda>ns. kn_name ns = n) matched of
        None \<Rightarrow> None
      | Some ns \<Rightarrow>
          if overlapping_policies as_sel others ns \<noteq> [] then None
          else map_of (aus_profiles (au_spec p)) (gget (kn_labels ns) (resolved_profile_label p)))"

definition target_schedules :: "auto_policy \<Rightarrow> (string \<Rightarrow> auto_profile option) \<Rightarrow> schedules \<Rightarrow> schedules" where
  "target_schedules p want v = (\<lambda>(n, g).
     if g = resolved_generated_name p \<and> want n \<noteq> None then synced p (the (want n)) (v (n, g))
     else if is_managed (au_name p) (v (n, g)) then None
     else v (n, g))"

definition synced_view :: "auto_policy \<Rightarrow> (string \<Rightarrow> auto_profile option) \<Rightarrow> schedules \<Rightarrow> schedules" where
  "synced_view p want v = (\<lambda>(n, g).
     if g = resolved_generated_name p \<and> want n \<noteq> None then synced p (the (want n)) (v (n, g)) else v (n, g))"

text \<open>Both at one key, by the profile the namespace gets.\<close>

lemma synced_view_at:
  "synced_view p want v (n, g) =
     (if g = resolved_generated_name p then (case want n of None \<Rightarrow> v (n, g) | Some pr \<Rightarrow> synced p pr (v (n, g)))
      else v (n, g))"
  by (simp add: synced_view_def split: option.split)

lemma target_schedules_at:
  "target_schedules p want v (n, g) =
     (if g = resolved_generated_name p \<and> want n \<noteq> None then synced p (the (want n)) (v (n, g))
      else if is_managed (au_name p) (v (n, g)) then None else v (n, g))"
  by (simp add: target_schedules_def)

lemma schedules_eqI: "(\<And>n g. v (n, g) = v' (n, g)) \<Longrightarrow> v = (v' :: schedules)"
  by (rule ext) (metis surj_pair)

lemma wanted_Cons:
  "wanted as_sel p others (ns # nss) n =
     (if kn_name ns = n then wanted as_sel p others [ns] n else wanted as_sel p others nss n)"
  by (simp add: wanted_def)

lemma wanted_notin:
  assumes "n \<notin> kn_name ` set nss"
  shows "wanted as_sel p others nss n = None"
proof -
  have "find (\<lambda>ns. kn_name ns = n) nss = None" using assms by (auto simp: find_None_iff)
  then show ?thesis by (simp add: wanted_def)
qed

context schedule_api
begin

lemma sync_schedule_view:
  assumes "sync_schedule quote c p pr ns st = (None, st')"
  shows "view (at_world st') = (view (at_world st))
      ((ns, resolved_generated_name p) := synced p pr (view (at_world st) (ns, resolved_generated_name p))) \<and>
    set (at_desired st') = set (at_desired st) \<union>
      (if is_managed (au_name p) (synced p pr (view (at_world st) (ns, resolved_generated_name p))) then {ns} else {})"
proof (cases "ak_get_schedule c ns (resolved_generated_name p) (at_world st)")
  case (Inl e)
  let ?k = "(ns, resolved_generated_name p)"
  from Inl assms have e: "e = ErrNotFound" by (auto simp: sync_schedule_def is_not_found_def split: if_splits)
  obtain w where cr: "ak_create_schedule c (new_schedule p ns pr) (at_world st) = (None, w)"
    and st': "st' = generated_in ns (st\<lparr>at_world := w\<rparr>)"
    using assms Inl e by (auto simp: sync_schedule_def is_not_found_def split: prod.splits option.splits)
  have k: "schedule_key (new_schedule p ns pr) = ?k" by (simp add: schedule_key_def new_schedule_def)
  have "view (at_world st) ?k = None" using get_none Inl e by simp
  with create [OF cr] k st' show ?thesis
    by (simp add: generated_in_def synced_def new_schedule_def is_managed_def gget_def)
next
  case (Inr s)
  let ?k = "(ns, resolved_generated_name p)"
  note g = get [OF Inr]
  show ?thesis
  proof (cases "gget (sch_labels s) managed_by_label = au_name p")
    case False
    with assms Inr have "at_world st' = at_world st" "at_desired st' = at_desired st"
      by (auto simp: sync_schedule_def add_conflict_def)
    with g False show ?thesis by (simp add: synced_def is_managed_def fun_upd_idem)
  next
    case managed: True
    show ?thesis
    proof (cases "sleep_spec_equal (sch_spec s) (build_sleep_schedule_spec pr)")
      case True
      with assms Inr managed have "st' = generated_in ns st" by (simp add: sync_schedule_def Let_def)
      with g managed True show ?thesis by (simp add: synced_def is_managed_def generated_in_def fun_upd_idem)
    next
      case False
      with assms Inr managed obtain w where
        up: "ak_update_schedule c (s\<lparr>sch_spec := build_sleep_schedule_spec pr\<rparr>) (at_world st) = (None, w)"
        and st': "st' = generated_in ns (st\<lparr>at_world := w\<rparr>)"
        by (auto simp: sync_schedule_def Let_def split: prod.splits option.splits)
      have "schedule_key (s\<lparr>sch_spec := build_sleep_schedule_spec pr\<rparr>) = ?k"
        using g by (simp add: schedule_key_def)
      with update [OF up] st' g managed False show ?thesis
        by (simp add: generated_in_def synced_def is_managed_def)
    qed
  qed
qed

lemma auto_namespace_view:
  assumes "auto_namespace quote as_sel c p others ns st = (None, st')"
  shows "view (at_world st') = synced_view p (wanted as_sel p others [ns]) (view (at_world st)) \<and>
    set (at_desired st') = set (at_desired st) \<union>
      {n. wanted as_sel p others [ns] n \<noteq> None \<and> is_managed (au_name p) (view (at_world st') (n, resolved_generated_name p))}"
proof (cases "wanted as_sel p others [ns] (kn_name ns)")
  case None
  with assms have "at_world st' = at_world st" "at_desired st' = at_desired st"
    by (auto simp: wanted_def auto_namespace_def Let_def add_conflict_def split: if_splits option.splits)
  moreover have "wanted as_sel p others [ns] = (\<lambda>_. None)" using None by (auto simp: wanted_def fun_eq_iff)
  ultimately show ?thesis by (simp add: synced_view_def)
next
  case (Some pr)
  with assms have s: "sync_schedule quote c p pr (kn_name ns) st = (None, st')"
    by (auto simp: wanted_def auto_namespace_def Let_def split: if_splits option.splits)
  have w: "wanted as_sel p others [ns] = (\<lambda>n. if n = kn_name ns then Some pr else None)"
    using Some by (auto simp: wanted_def fun_eq_iff)
  note sv = sync_schedule_view [OF s]
  have "view (at_world st') = synced_view p (wanted as_sel p others [ns]) (view (at_world st))"
    using sv unfolding w synced_view_def by (simp add: fun_eq_iff)
  moreover have "{n. wanted as_sel p others [ns] n \<noteq> None \<and>
      is_managed (au_name p) (view (at_world st') (n, resolved_generated_name p))} =
      (if is_managed (au_name p) (view (at_world st') (kn_name ns, resolved_generated_name p)) then {kn_name ns} else {})"
    unfolding w by auto
  moreover have "view (at_world st') (kn_name ns, resolved_generated_name p) =
      synced p pr (view (at_world st) (kn_name ns, resolved_generated_name p))"
    using sv by simp
  ultimately show ?thesis using conjunct2 [OF sv] by simp
qed

text \<open>All namespaces: each schedule is synced once, and the desired ones are those managed after.\<close>

lemma auto_namespaces_view:
  assumes "distinct (map kn_name nss)"
    and "run_steps (map (auto_namespace quote as_sel c p others) nss) st = (None, st')"
  shows "view (at_world st') = synced_view p (wanted as_sel p others nss) (view (at_world st)) \<and>
    set (at_desired st') = set (at_desired st) \<union>
      {n. wanted as_sel p others nss n \<noteq> None \<and> is_managed (au_name p) (view (at_world st') (n, resolved_generated_name p))}"
  using assms
proof (induction nss arbitrary: st)
  case Nil
  then show ?case by (simp add: wanted_def synced_view_def)
next
  case (Cons ns nss)
  let ?one = "wanted as_sel p others [ns]" and ?rest = "wanted as_sel p others nss"
    and ?gen = "resolved_generated_name p"
  obtain st1 where step: "auto_namespace quote as_sel c p others ns st = (None, st1)"
    and rest: "run_steps (map (auto_namespace quote as_sel c p others) nss) st1 = (None, st')"
    using Cons.prems(2) by (auto split: prod.splits option.splits)
  note one = auto_namespace_view [OF step]
  have "distinct (map kn_name nss)" using Cons.prems(1) by simp
  note more = Cons.IH [OF this rest]
  have off: "?rest (kn_name ns) = None" using Cons.prems(1) by (intro wanted_notin) simp
  have none: "?one n = None" if "n \<noteq> kn_name ns" for n using that by (simp add: wanted_def)
  have w: "wanted as_sel p others (ns # nss) n = (if kn_name ns = n then ?one n else ?rest n)" for n
    by (rule wanted_Cons)
  have v: "view (at_world st') (n, g) = synced_view p (wanted as_sel p others (ns # nss)) (view (at_world st)) (n, g)" for n g
    using conjunct1 [OF one] conjunct1 [OF more] off none [of n]
    by (cases "n = kn_name ns") (auto simp: synced_view_at w split: option.split)
  have same: "view (at_world st') (kn_name ns, g) = view (at_world st1) (kn_name ns, g)" for g
    using conjunct1 [OF more] off by (simp add: synced_view_at)
  have d: "n \<in> set (at_desired st') \<longleftrightarrow> n \<in> set (at_desired st) \<or>
      (wanted as_sel p others (ns # nss) n \<noteq> None \<and> is_managed (au_name p) (view (at_world st') (n, ?gen)))" for n
  proof (cases "n = kn_name ns")
    case True
    then show ?thesis using conjunct2 [OF one] conjunct2 [OF more] off same by (auto simp: w)
  next
    case False
    then show ?thesis using conjunct2 [OF one] conjunct2 [OF more] none [OF False] by (auto simp: w)
  qed
  show ?case
    using d by (intro conjI schedules_eqI v) blast
qed

lemma delete_one_view:
  "delete_one c s w = (None, w') \<Longrightarrow> view w' = (view w)(schedule_key s := None)"
  using delete by (auto simp: delete_one_def is_not_found_def split: prod.splits option.splits if_splits)

lemma delete_steps_view:
  "run_steps (map (delete_one c) xs) w = (None, w') \<Longrightarrow>
     view w' = (\<lambda>k. if k \<in> schedule_key ` set xs then None else view w k)"
proof (induction xs arbitrary: w)
  case (Cons s xs)
  from Cons.prems obtain w1 where s: "delete_one c s w = (None, w1)"
    and rest: "run_steps (map (delete_one c) xs) w1 = (None, w')"
    by (auto split: prod.splits option.splits)
  show ?case
    using Cons.IH [OF rest] delete_one_view [OF s] by (intro ext) simp
qed simp

lemma delete_orphaned_view:
  assumes "delete_orphaned_schedules c p keep w = (None, w')"
  shows "view w' (n, g) =
    (if is_managed (au_name p) (view w (n, g)) \<and> \<not> (n \<in> set keep \<and> g = resolved_generated_name p)
     then None else view w (n, g))"
proof -
  let ?out = "\<lambda>s. \<not> (sch_namespace s \<in> set keep \<and> sch_name s = resolved_generated_name p)"
  from assms obtain owned where l: "ak_list_managed c (au_name p) w = Inr owned"
    and d: "run_steps (map (delete_one c) (filter ?out owned)) w = (None, w')"
    by (auto simp: delete_orphaned_schedules_def split: sum.splits)
  have "(n, g) \<in> schedule_key ` set (filter ?out owned) \<longleftrightarrow>
      (n, g) \<in> schedule_key ` set owned \<and> \<not> (n \<in> set keep \<and> g = resolved_generated_name p)"
    by (auto simp: schedule_key_def)
  also have "... \<longleftrightarrow> is_managed (au_name p) (view w (n, g)) \<and> \<not> (n \<in> set keep \<and> g = resolved_generated_name p)"
    using list [OF l] by simp
  finally show ?thesis using delete_steps_view [OF d] by simp
qed

lemma delete_all_view:
  assumes "delete_all_managed_schedules c p w = (None, w')"
  shows "view w' k = (if is_managed (au_name p) (view w k) then None else view w k)"
proof -
  from assms obtain owned where l: "ak_list_managed c (au_name p) w = Inr owned"
    and d: "run_steps (map (delete_one c) owned) w = (None, w')"
    by (auto simp: delete_all_managed_schedules_def split: sum.splits)
  show ?thesis using delete_steps_view [OF d] list [OF l] by simp
qed

lemma auto_apply_view:
  assumes "distinct (map kn_name matched)"
    and "auto_apply quote as_sel dflt c now p others matched w = (Done d None, w')"
  shows "view w' = target_schedules p (wanted as_sel p others matched) (view w)"
proof -
  let ?st = "\<lparr>at_world = w, at_conflicts = [], at_missing = [], at_generated = 0, at_desired = []\<rparr>"
    and ?gen = "resolved_generated_name p" and ?want = "wanted as_sel p others matched"
  from assms(2) obtain st w1 where
    run: "run_steps (map (auto_namespace quote as_sel c p others) matched) ?st = (None, st)"
    and del: "delete_orphaned_schedules c p (at_desired st) (at_world st) = (None, w1)"
    and up: "view w' = view w1"
    by (auto simp: auto_apply_def dest: update_status split: prod.splits option.splits)
  from auto_namespaces_view [OF assms(1) run]
  have v: "view (at_world st) = synced_view p ?want (view w)"
    and d: "set (at_desired st) = {n. ?want n \<noteq> None \<and> is_managed (au_name p) (view (at_world st) (n, ?gen))}" by auto
  have "view w' (n, g) = target_schedules p ?want (view w) (n, g)" for n g
  proof -
    have at: "view (at_world st) (n, g) = synced_view p ?want (view w) (n, g)" by (simp add: v)
    have keep: "n \<in> set (at_desired st) \<longleftrightarrow> ?want n \<noteq> None \<and> is_managed (au_name p) (view (at_world st) (n, ?gen))"
      by (simp add: d)
    show ?thesis
    proof (cases "g = ?gen \<and> ?want n \<noteq> None")
      case True
      then obtain pr where "?want n = Some pr" by blast
      with True at keep show ?thesis
        unfolding up delete_orphaned_view [OF del] target_schedules_at by (simp add: synced_view_at)
    next
      case False
      with at have "view (at_world st) (n, g) = view w (n, g)" by (auto simp: synced_view_at split: option.split)
      with False keep show ?thesis
        unfolding up delete_orphaned_view [OF del] target_schedules_at by auto
    qed
  qed
  then show ?thesis by (rule schedules_eqI)
qed

end

section \<open>An API server in memory\<close>

text \<open>
  The contract has a model: a server that keeps lists. A listing gives every object that its
  key finds, so that the contract holds in every state.
\<close>

record mem_auto =
  ma_policies :: "auto_policy list"
  ma_namespaces :: "kube_namespace list"
  ma_schedules :: "sleep_schedule list"

definition mem_find :: "schedule_key \<Rightarrow> mem_auto \<Rightarrow> sleep_schedule option" where
  "mem_find k w = find (\<lambda>s. schedule_key s = k) (ma_schedules w)"

definition mem_view :: "mem_auto \<Rightarrow> schedules" where
  "mem_view w k = map_option (\<lambda>s. (sch_labels s, sch_spec s)) (mem_find k w)"

definition mem_put :: "sleep_schedule \<Rightarrow> mem_auto \<Rightarrow> mem_auto" where
  "mem_put s w = w\<lparr>ma_schedules := s # filter (\<lambda>t. schedule_key t \<noteq> schedule_key s) (ma_schedules w)\<rparr>"

definition mem_remove :: "schedule_key \<Rightarrow> mem_auto \<Rightarrow> mem_auto" where
  "mem_remove k w = w\<lparr>ma_schedules := filter (\<lambda>t. schedule_key t \<noteq> k) (ma_schedules w)\<rparr>"

definition mem_put_policy :: "auto_policy \<Rightarrow> mem_auto \<Rightarrow> mem_auto" where
  "mem_put_policy p w = w\<lparr>ma_policies := map (\<lambda>q. if au_name q = au_name p then p else q) (ma_policies w)\<rparr>"

definition mem_auto_kube :: "mem_auto auto_kube" where
  "mem_auto_kube =
     \<lparr>ak_get_policy = (\<lambda>n w. case find (\<lambda>p. au_name p = n) (ma_policies w) of None \<Rightarrow> Inl ErrNotFound | Some p \<Rightarrow> Inr p),
      ak_update_policy = (\<lambda>p w. (Inr p, mem_put_policy p w)),
      ak_update_status = (\<lambda>p w. (None, mem_put_policy p w)),
      ak_namespaces = (\<lambda>w. Inr (ma_namespaces w)),
      ak_policies = (\<lambda>w. Inr (ma_policies w)),
      ak_get_schedule = (\<lambda>ns n w. case mem_find (ns, n) w of None \<Rightarrow> Inl ErrNotFound | Some s \<Rightarrow> Inr s),
      ak_create_schedule = (\<lambda>s w. if mem_find (schedule_key s) w = None then (None, mem_put s w)
                                  else (Some (ErrOther ''already exists''), w)),
      ak_update_schedule = (\<lambda>s w. if mem_find (schedule_key s) w = None then (Some ErrNotFound, w)
                                  else (None, mem_put s w)),
      ak_delete_schedule = (\<lambda>s w. if mem_find (schedule_key s) w = None then (Some ErrNotFound, w)
                                  else (None, mem_remove (schedule_key s) w)),
      ak_list_managed = (\<lambda>name w. Inr (filter (\<lambda>s. is_managed name (mem_view w (schedule_key s))) (ma_schedules w)))\<rparr>"

lemma mem_find_key: "mem_find k w = Some s \<Longrightarrow> schedule_key s = k \<and> s \<in> set (ma_schedules w)"
  by (auto simp: mem_find_def find_Some_iff)

lemma mem_find_filter:
  "find (\<lambda>s. schedule_key s = k) (filter (\<lambda>t. schedule_key t \<noteq> k') ss) =
     (if k = k' then None else find (\<lambda>s. schedule_key s = k) ss)"
  by (induction ss) auto

lemma mem_view_put: "mem_view (mem_put s w) = (mem_view w)(schedule_key s \<mapsto> (sch_labels s, sch_spec s))"
  by (rule ext) (simp add: mem_view_def mem_find_def mem_put_def mem_find_filter)

lemma mem_view_remove: "mem_view (mem_remove k w) = (mem_view w)(k := None)"
  by (rule ext) (simp add: mem_view_def mem_find_def mem_remove_def mem_find_filter)

lemma mem_view_policy: "mem_view (mem_put_policy p w) = mem_view w"
  by (rule ext) (simp add: mem_view_def mem_find_def mem_put_policy_def)

lemma mem_list:
  "(k \<in> schedule_key ` set (filter (\<lambda>s. is_managed name (mem_view w (schedule_key s))) (ma_schedules w))) =
     is_managed name (mem_view w k)"
proof
  assume m: "is_managed name (mem_view w k)"
  then obtain s where "mem_find k w = Some s" by (auto simp: mem_view_def is_managed_def split: option.splits)
  from mem_find_key [OF this] m
  show "k \<in> schedule_key ` set (filter (\<lambda>s. is_managed name (mem_view w (schedule_key s))) (ma_schedules w))"
    by (intro image_eqI [of _ _ s]) auto
qed auto

interpretation mem: schedule_api mem_auto_kube mem_view
proof unfold_locales
  fix w ns n s
  assume "ak_get_schedule mem_auto_kube ns n w = Inr s"
  then have "mem_find (ns, n) w = Some s" by (auto simp: mem_auto_kube_def split: option.splits)
  then show "schedule_key s = (ns, n) \<and> mem_view w (ns, n) = Some (sch_labels s, sch_spec s)"
    using mem_find_key by (simp add: mem_view_def)
next
  fix w ns n
  assume "ak_get_schedule mem_auto_kube ns n w = Inl ErrNotFound"
  then show "mem_view w (ns, n) = None" by (auto simp: mem_auto_kube_def mem_view_def split: option.splits)
next
  fix s w e w'
  assume "ak_delete_schedule mem_auto_kube s w = (e, w')"
  then show "mem_view w' = (mem_view w)(schedule_key s := None)"
    by (cases "mem_find (schedule_key s) w")
      (auto simp: mem_auto_kube_def mem_view_remove mem_view_def [of _ "schedule_key s"] intro!: fun_upd_idem [symmetric])
next
  fix name w owned k
  assume "ak_list_managed mem_auto_kube name w = Inr owned"
  then have "owned = filter (\<lambda>s. is_managed name (mem_view w (schedule_key s))) (ma_schedules w)"
    by (simp add: mem_auto_kube_def)
  then show "(k \<in> schedule_key ` set owned) = is_managed name (mem_view w k)" using mem_list by simp
qed (auto simp: mem_auto_kube_def mem_view_put mem_view_policy split: if_splits)

section \<open>What a reconcile achieves\<close>

lemma matched_namespaces_eq:
  "matched_namespaces as_sel p nss = Some matched \<Longrightarrow>
     matched = filter (\<lambda>ns. namespace_matches_policy as_sel p ns = Some True) nss"
  by (induction nss arbitrary: matched) (auto split: option.splits if_splits)

lemma wanted_matched:
  assumes "matched = filter (\<lambda>ns. namespace_matches_policy as_sel p ns = Some True) nss" "distinct (map kn_name nss)"
    and "ns \<in> set nss" "namespace_matches_policy as_sel p ns = Some True" "overlapping_policies as_sel others ns = []"
    and "map_of (aus_profiles (au_spec p)) (gget (kn_labels ns) (resolved_profile_label p)) = Some pr"
  shows "wanted as_sel p others matched (kn_name ns) = Some pr"
proof -
  have "ns \<in> set matched" "distinct (map kn_name matched)" using assms(1-4) by (simp_all add: distinct_map_filter)
  then have "find (\<lambda>x. kn_name x = kn_name ns) matched = Some ns"
    by (induction matched) auto
  then show ?thesis using assms(5,6) by (simp add: wanted_def)
qed

lemma slice_equal_eq: "slice_equal a b \<Longrightarrow> a = b"
proof -
  have "length a = length b \<Longrightarrow> list_all (\<lambda>(x, y). x = y) (zip a b) \<Longrightarrow> a = b"
    by (induction a b rule: list_induct2) simp_all
  then show "slice_equal a b \<Longrightarrow> a = b" by (simp add: slice_equal_def split: if_splits)
qed

lemma sleep_spec_equalD:
  assumes "sleep_spec_equal a b"
  shows "ss_suspend a = ss_suspend b" "ss_schedules a = ss_schedules b"
proof -
  show "ss_suspend a = ss_suspend b" using assms by (auto simp: sleep_spec_equal_def split: if_splits)
  have eq: "sleep_window_equal x y \<Longrightarrow> x = y" for x y
    by (cases x; cases y) (auto simp: sleep_window_equal_def split: if_splits dest: slice_equal_eq)
  have "length (ss_schedules a) = length (ss_schedules b)"
    "\<forall>i < length (ss_schedules b). sleep_window_equal (ss_schedules a ! i) (ss_schedules b ! i)"
    using assms by (auto simp: sleep_spec_equal_def list_all_iff in_set_zip split: if_splits)
  then show "ss_schedules a = ss_schedules b" by (intro nth_equalityI) (auto dest: eq)
qed

text \<open>A synced schedule without a single window has the windows of its profile.\<close>

lemma synced_windows:
  assumes "v = None \<or> (\<exists>ls sp. v = Some (ls, sp) \<and> gget ls managed_by_label = au_name p \<and> ss_schedule sp = None)"
  shows "\<exists>ls sp. synced p pr v = Some (ls, sp) \<and> ss_suspend sp = ap_suspend pr \<and> get_windows sp = ap_schedules pr"
proof -
  have "ss_suspend (build_sleep_schedule_spec pr) = ap_suspend pr"
    "get_windows (build_sleep_schedule_spec pr) = ap_schedules pr"
    by (simp_all add: build_sleep_schedule_spec_def get_windows_def)
  moreover have "ss_suspend sp = ap_suspend pr \<and> get_windows sp = ap_schedules pr"
    if "sleep_spec_equal sp (build_sleep_schedule_spec pr)" "ss_schedule sp = None" for sp
    using sleep_spec_equalD [OF that(1)] that(2) by (simp add: build_sleep_schedule_spec_def get_windows_def)
  ultimately show ?thesis using assms by (auto simp: synced_def Let_def)
qed

lemma auto_active_view:
  assumes "schedule_api c view" "\<not> aus_suspend (au_spec p)"
    and "ak_namespaces c w = Inr nss" "distinct (map kn_name nss)" "ak_policies c w = Inr ps"
    and "auto_active quote as_sel dflt c now p w = (Done d None, w')"
  shows "\<exists>matched. matched_namespaces as_sel p nss = Some matched \<and>
    view w' = target_schedules p (wanted as_sel p (other_policies (au_name p) ps) matched) (view w)"
proof (cases "matched_namespaces as_sel p nss")
  case None
  with assms show ?thesis by (simp add: auto_active_def)
next
  case (Some matched)
  have "distinct (map kn_name matched)"
    unfolding matched_namespaces_eq [OF Some] using assms(4) by (rule distinct_map_filter)
  moreover have "auto_apply quote as_sel dflt c now p (other_policies (au_name p) ps) matched w = (Done d None, w')"
    using assms(2,3,5,6) Some by (simp add: auto_active_def)
  ultimately show ?thesis using schedule_api.auto_apply_view [OF assms(1)] Some by blast
qed


lemma overlap_nonempty:
  "q \<in> set others \<Longrightarrow> namespace_matches_policy as_sel q ns = Some True \<Longrightarrow> overlapping_policies as_sel others ns \<noteq> []"
proof -
  assume "q \<in> set others" "namespace_matches_policy as_sel q ns = Some True"
  then have "au_name q \<in> set (overlapping_policies as_sel others ns)"
    by (auto simp: overlapping_policies_def)
  then show ?thesis by auto
qed

text \<open>
  C16: Overlap fails closed. Where another live policy matches a namespace too, a successful
  reconcile leaves no schedule of the policy in it, and removes the one it had.
\<close>

theorem overlap_fails_closed:
  assumes api: "schedule_api c view"
    and policy: "ak_get_policy c name w = Inr p" "\<not> au_deleting p" "au_finalizer p" "\<not> aus_suspend (au_spec p)"
    and lists: "ak_namespaces c w = Inr nss" "distinct (map kn_name nss)" "ak_policies c w = Inr ps"
    and other: "q \<in> set ps" "au_name q \<noteq> au_name p" "\<not> au_deleting q"
    and overlap: "ns \<in> set nss" "namespace_matches_policy as_sel q ns = Some True"
    and run: "auto_reconcile quote as_sel dflt c now name w = (Done d None, w')"
  shows "\<not> is_managed (au_name p) (view w' (kn_name ns, g))"
proof -
  have "auto_active quote as_sel dflt c now p w = (Done d None, w')"
    using policy run by (simp add: auto_reconcile_def)
  with auto_active_view [OF api policy(4) lists] obtain matched where
    m: "matched_namespaces as_sel p nss = Some matched"
    and v: "view w' = target_schedules p (wanted as_sel p (other_policies (au_name p) ps) matched) (view w)" by blast
  have "q \<in> set (other_policies (au_name p) ps)" using other by (simp add: other_policies_def)
  from overlap_nonempty [OF this overlap(2)]
  have ne: "overlapping_policies as_sel (other_policies (au_name p) ps) ns \<noteq> []" .
  have "wanted as_sel p (other_policies (au_name p) ps) matched (kn_name ns) = None"
  proof (cases "find (\<lambda>x. kn_name x = kn_name ns) matched")
    case (Some x)
    then have x: "x \<in> set matched" "kn_name x = kn_name ns" by (auto simp: find_Some_iff)
    then have "x \<in> set nss" using matched_namespaces_eq [OF m] by simp
    then have "x = ns" using x(2) overlap(1) lists(2) by (auto simp: distinct_map inj_on_def)
    with ne Some show ?thesis by (simp add: wanted_def)
  qed (simp add: wanted_def)
  then show ?thesis unfolding v by (simp add: target_schedules_at is_managed_def)
qed

lemma policy_deletion_view:
  assumes "schedule_api c view" "ak_get_policy c name w = Inr p" "au_deleting p" "au_finalizer p"
    and "auto_reconcile quote as_sel dflt c now name w = (Done d None, w')"
  shows "view w' k = (if is_managed (au_name p) (view w k) then None else view w k)"
proof -
  from assms(2-5) obtain w1 where del: "delete_all_managed_schedules c p w = (None, w1)"
    and up: "snd (ak_update_policy c (p\<lparr>au_finalizer := False\<rparr>) w1) = w'"
    by (auto simp: auto_reconcile_def split: prod.splits option.splits sum.splits)
  have "view w' = view w1"
    using schedule_api.update_policy [OF assms(1)] up by (metis prod.collapse)
  with schedule_api.delete_all_view [OF assms(1) del] show ?thesis by simp
qed

text \<open>
  C20: Deleting a policy removes every schedule it manages, in all namespaces, and no other one,
  before its finalizer goes.
\<close>

theorem policy_deletion_cleans_up:
  assumes "schedule_api c view" "ak_get_policy c name w = Inr p" "au_deleting p" "au_finalizer p"
    and "auto_reconcile quote as_sel dflt c now name w = (Done d None, w')"
  shows "view w' k = (if is_managed (au_name p) (view w k) then None else view w k)"
  using assms by (rule policy_deletion_view)

text \<open>
  Drift that is not repaired: adding a single \<open>schedule\<close> window or an interval to a generated
  schedule leaves it equal to its template, and so do two label selectors that require
  different keys with empty values.
\<close>

theorem drift_not_detected:
  "sleep_spec_equal (s\<lparr>ss_schedule := x, ss_interval := y\<rparr>) t = sleep_spec_equal s t \<and>
   workload_selector_equal
     (sel\<lparr>wsel_labels := [(''app'', [])]\<rparr>) (sel\<lparr>wsel_labels := [(''tier'', [])]\<rparr>)"
proof
  show "sleep_spec_equal (s\<lparr>ss_schedule := x, ss_interval := y\<rparr>) t = sleep_spec_equal s t"
    by (simp add: sleep_spec_equal_def)
  have "slice_equal l l" for l :: "string list" by (auto simp: slice_equal_def list_all_iff in_set_zip)
  then show "workload_selector_equal (sel\<lparr>wsel_labels := [(''app'', [])]\<rparr>) (sel\<lparr>wsel_labels := [(''tier'', [])]\<rparr>)"
    by (simp add: workload_selector_equal_def gmatches_def gget_def)
qed

section \<open>A small cluster\<close>

definition exists_sel :: selector_of where
  "exists_sel sel = (case sel of LabelSelector ls es \<Rightarrow>
     Some (\<lambda>labels. gmatches ls labels \<and> list_all (\<lambda>(k, op, vs). map_of labels k \<noteq> None) es))"

definition office_profile :: auto_profile where
  "office_profile =
     \<lparr>ap_selector = \<lparr>wsel_labels = [], wsel_names = [], wsel_types = []\<rparr>,
      ap_schedules = [\<lparr>sw_start = ''20:00'', sw_end = ''07:00'', sw_timezone = [], sw_days = []\<rparr>],
      ap_suspend = False\<rparr>"

definition auto_policy_of :: "string \<Rightarrow> string \<Rightarrow> bool \<Rightarrow> auto_policy" where
  "auto_policy_of name label deleting =
     \<lparr>au_name = name, au_generation = 1, au_deleting = deleting, au_finalizer = True,
      au_spec = \<lparr>aus_suspend = False, aus_selector = None, aus_profile_label = label,
                 aus_profiles = [(''office'', office_profile)], aus_generated_name = [], aus_interval = None\<rparr>,
      au_status = \<lparr>aust_generation = 0, aust_matched = 0, aust_generated = 0, aust_conflicts = [],
                   aust_missing = [], aust_conditions = []\<rparr>\<rparr>"

text \<open>Namespace \<open>dev\<close> is matched by one policy, \<open>shared\<close> by two.\<close>

definition office_cluster :: "bool \<Rightarrow> mem_auto" where
  "office_cluster deleting =
     \<lparr>ma_policies = [auto_policy_of ''p'' [] deleting, auto_policy_of ''q'' ''other'' False],
      ma_namespaces = [\<lparr>kn_name = ''dev'', kn_labels = [(''slumlord.io/sleep-profile'', ''office'')]\<rparr>,
                       \<lparr>kn_name = ''shared'', kn_labels = [(''slumlord.io/sleep-profile'', ''office''), (''other'', ''office'')]\<rparr>],
      ma_schedules = [new_schedule (auto_policy_of ''p'' [] deleting) ''shared'' office_profile]\<rparr>"

definition office_run :: "bool \<Rightarrow> result \<times> mem_auto" where
  "office_run deleting = auto_reconcile (\<lambda>s. s) exists_sel 0 mem_auto_kube 0 ''p'' (office_cluster deleting)"

lemma office_runs:
  "fst (office_run False) = Done (5 * minute) None" "fst (office_run True) = Done 0 None"
  by code_simp+

lemma office_facts:
  "ak_get_policy mem_auto_kube ''p'' (office_cluster b) = Inr (auto_policy_of ''p'' [] b)"
  "ak_namespaces mem_auto_kube (office_cluster b) = Inr (ma_namespaces (office_cluster b))"
  "distinct (map kn_name (ma_namespaces (office_cluster b)))"
  "ak_policies mem_auto_kube (office_cluster b) = Inr (ma_policies (office_cluster b))"
  by (simp_all add: mem_auto_kube_def office_cluster_def auto_policy_of_def)


theorem overlap_fails_closed_witness:
  "mem_view (office_cluster False) (''shared'', ''auto-sleep'') \<noteq> None \<and>
   \<not> is_managed ''p'' (mem_view (snd (office_run False)) (''shared'', ''auto-sleep''))"
proof -
  have run: "auto_reconcile (\<lambda>s. s) exists_sel 0 mem_auto_kube 0 ''p'' (office_cluster False) =
      (Done (5 * minute) None, snd (office_run False))"
    using office_runs(1) unfolding office_run_def by (metis prod.collapse)
  let ?ns = "\<lparr>kn_name = ''shared'', kn_labels = [(''slumlord.io/sleep-profile'', ''office''), (''other'', ''office'')]\<rparr>"
  have "\<not> is_managed (au_name (auto_policy_of ''p'' [] False)) (mem_view (snd (office_run False)) (kn_name ?ns, ''auto-sleep''))"
  proof (rule overlap_fails_closed [OF mem.schedule_api_axioms office_facts(1) _ _ _ office_facts(2,3,4) _ _ _ _ _ run])
    show "auto_policy_of ''q'' ''other'' False \<in> set (ma_policies (office_cluster False))" "?ns \<in> set (ma_namespaces (office_cluster False))"
      by (simp_all add: office_cluster_def)
    show "namespace_matches_policy exists_sel (auto_policy_of ''q'' ''other'' False) ?ns = Some True"
      by code_simp
  qed (simp_all add: auto_policy_of_def)
  moreover have "mem_view (office_cluster False) (''shared'', ''auto-sleep'') \<noteq> None"
    by (simp add: mem_view_def mem_find_def office_cluster_def new_schedule_def schedule_key_def resolved_generated_name_def
        auto_policy_of_def)
  ultimately show ?thesis by (simp add: auto_policy_of_def)
qed

theorem policy_deletion_cleans_up_witness:
  "mem_view (snd (office_run True)) (''shared'', ''auto-sleep'') = None"
proof -
  have "auto_reconcile (\<lambda>s. s) exists_sel 0 mem_auto_kube 0 ''p'' (office_cluster True) =
      (Done 0 None, snd (office_run True))"
    using office_runs(2) unfolding office_run_def by (metis prod.collapse)
  from policy_deletion_cleans_up [OF mem.schedule_api_axioms office_facts(1) _ _ this, of "(''shared'', ''auto-sleep'')"]
  show ?thesis
    by (simp add: auto_policy_of_def mem_view_def mem_find_def office_cluster_def new_schedule_def schedule_key_def
        resolved_generated_name_def is_managed_def gget_def)
qed

end
