(* ===== verification/Watches.thy ===== *)
theory Watches
  imports Auto_Schedule
begin

text \<open>
  The \<open>SetupWithManager\<close> functions: which events lead to which reconciles. A controller is what
  its builder was told; how the library turns that into requests is a parameter, \<open>enq\<close>, with the
  documented behaviour of \<open>For\<close>, \<open>Watches\<close> and \<open>EnqueueRequestsFromMapFunc\<close> as the locale
  \<open>event_source\<close>. The lemmas show that the watches of the policy controller miss nothing that
  changes what a policy stands for, except one case.
\<close>

section \<open>Controllers\<close>

datatype event_map = Namespace_To_Policy | Sleep_Schedule_To_Policy | Peer_Policy_To_Policy

datatype event_filter = AllEvents | LabelChanged

record watch =
  wt_kind :: string
  wt_map :: event_map
  wt_filter :: event_filter

record controller_conf =
  cc_for :: string
  cc_watches :: "watch list"
  cc_concurrent :: "nat option"

definition sleep_setup :: controller_conf where
  "sleep_setup = \<lparr>cc_for = ''SlumlordSleepSchedule'', cc_watches = [], cc_concurrent = Some 5\<rparr>"

definition idle_setup :: controller_conf where
  "idle_setup = \<lparr>cc_for = ''SlumlordIdleDetector'', cc_watches = [], cc_concurrent = None\<rparr>"

definition pack_setup :: controller_conf where
  "pack_setup = \<lparr>cc_for = ''SlumlordBinPacker'', cc_watches = [], cc_concurrent = None\<rparr>"

definition drain_setup :: controller_conf where
  "drain_setup = \<lparr>cc_for = ''SlumlordNodeDrainPolicy'', cc_watches = [], cc_concurrent = None\<rparr>"

definition auto_setup :: controller_conf where
  "auto_setup =
     \<lparr>cc_for = ''SlumlordAutoSchedulePolicy'',
      cc_watches =
        [\<lparr>wt_kind = ''Namespace'', wt_map = Namespace_To_Policy, wt_filter = LabelChanged\<rparr>,
         \<lparr>wt_kind = ''SlumlordSleepSchedule'', wt_map = Sleep_Schedule_To_Policy, wt_filter = AllEvents\<rparr>,
         \<lparr>wt_kind = ''SlumlordAutoSchedulePolicy'', wt_map = Peer_Policy_To_Policy, wt_filter = AllEvents\<rparr>],
      cc_concurrent = None\<rparr>"

section \<open>Events\<close>

datatype watched = WNamespace kube_namespace | WSchedule sleep_schedule | WPolicy auto_policy

datatype event = Created watched | Updated watched watched | Deleted watched

fun watched_kind :: "watched \<Rightarrow> string" where
  "watched_kind (WNamespace ns) = ''Namespace''"
| "watched_kind (WSchedule s) = ''SlumlordSleepSchedule''"
| "watched_kind (WPolicy p) = ''SlumlordAutoSchedulePolicy''"

fun watched_name :: "watched \<Rightarrow> string" where
  "watched_name (WNamespace ns) = kn_name ns"
| "watched_name (WSchedule s) = sch_name s"
| "watched_name (WPolicy p) = au_name p"

fun subjects :: "event \<Rightarrow> watched list" where
  "subjects (Created x) = [x]"
| "subjects (Updated x y) = [x, y]"
| "subjects (Deleted x) = [x]"

text \<open>\<open>LabelChangedPredicate\<close> stops an update that leaves the labels alone.\<close>

fun labels_changed :: "event \<Rightarrow> bool" where
  "labels_changed (Updated (WNamespace a) (WNamespace b)) = (kn_labels a \<noteq> kn_labels b)"
| "labels_changed (Updated x y) = False"
| "labels_changed e = True"

text \<open>
  The mapping functions, with the policies they list; a mapping function is given the objects of
  its own watch only.
\<close>

definition requests_of :: "selector_of \<Rightarrow> kerr + auto_policy list \<Rightarrow> event_map \<Rightarrow> watched \<Rightarrow> string list" where
  "requests_of as_sel listed m x =
     (case m of
        Namespace_To_Policy \<Rightarrow> (case x of WNamespace ns \<Rightarrow> namespace_to_policy as_sel listed ns | _ \<Rightarrow> [])
      | Sleep_Schedule_To_Policy \<Rightarrow> (case x of WSchedule s \<Rightarrow> sleep_schedule_to_policy (sch_labels s) | _ \<Rightarrow> [])
      | Peer_Policy_To_Policy \<Rightarrow> (case x of WPolicy p \<Rightarrow> peer_policy_to_policy listed (au_name p) | _ \<Rightarrow> []))"

text \<open>
  What the library documents: an event on an object of the controller's own kind asks for that
  object; an event on a watched kind that passes the filter asks for what the mapping function
  gives, for an update with the old object and with the new one.
\<close>

locale event_source =
  fixes enq :: "(event_map \<Rightarrow> watched \<Rightarrow> string list) \<Rightarrow> controller_conf \<Rightarrow> event \<Rightarrow> string set"
  assumes own: "x \<in> set (subjects e) \<Longrightarrow> watched_kind x = cc_for conf \<Longrightarrow> watched_name x \<in> enq f conf e"
    and mapped: "wt \<in> set (cc_watches conf) \<Longrightarrow> x \<in> set (subjects e) \<Longrightarrow> watched_kind x = wt_kind wt \<Longrightarrow>
      (wt_filter wt = LabelChanged \<longrightarrow> labels_changed e) \<Longrightarrow> set (f (wt_map wt) x) \<subseteq> enq f conf e"
begin

lemma namespace_event:
  assumes "WNamespace ns \<in> set (subjects e)" "labels_changed e"
  shows "set (f Namespace_To_Policy (WNamespace ns)) \<subseteq> enq f auto_setup e"
  using assms by (intro mapped [of "\<lparr>wt_kind = ''Namespace'', wt_map = Namespace_To_Policy, wt_filter = LabelChanged\<rparr>",
      simplified]) (simp_all add: auto_setup_def)

lemma schedule_event:
  assumes "WSchedule s \<in> set (subjects e)"
  shows "set (f Sleep_Schedule_To_Policy (WSchedule s)) \<subseteq> enq f auto_setup e"
  using assms by (intro mapped [of "\<lparr>wt_kind = ''SlumlordSleepSchedule'', wt_map = Sleep_Schedule_To_Policy,
      wt_filter = AllEvents\<rparr>", simplified]) (simp_all add: auto_setup_def)

lemma policy_event:
  assumes "WPolicy p \<in> set (subjects e)"
  shows "insert (au_name p) (set (f Peer_Policy_To_Policy (WPolicy p))) \<subseteq> enq f auto_setup e"
proof -
  have "set (f Peer_Policy_To_Policy (WPolicy p)) \<subseteq> enq f auto_setup e"
    using assms by (intro mapped [of "\<lparr>wt_kind = ''SlumlordAutoSchedulePolicy'', wt_map = Peer_Policy_To_Policy,
        wt_filter = AllEvents\<rparr>", simplified]) (simp_all add: auto_setup_def)
  moreover have "au_name p \<in> enq f auto_setup e"
    using own [OF assms, of auto_setup f] by (simp add: auto_setup_def)
  ultimately show ?thesis by simp
qed

text \<open>Every policy is asked for when any policy changes, and so are those that match a relabelled namespace.\<close>

lemma policy_events_reach_all:
  assumes "WPolicy q \<in> set (subjects e)" "p \<in> set ps"
  shows "au_name p \<in> enq (requests_of as_sel (Inr ps)) auto_setup e"
proof (cases "au_name p = au_name q")
  case True
  then show ?thesis using policy_event [OF assms(1)] by simp
next
  case False
  then have "au_name p \<in> set (requests_of as_sel (Inr ps) Peer_Policy_To_Policy (WPolicy q))"
    using assms(2) by (auto simp: requests_of_def peer_policy_to_policy_def)
  then show ?thesis using policy_event [OF assms(1)] by blast
qed

lemma namespace_events_reach_matching:
  assumes "WNamespace ns \<in> set (subjects e)" "labels_changed e" "p \<in> set ps"
    and "namespace_matches_policy as_sel p ns = Some True"
  shows "au_name p \<in> enq (requests_of as_sel (Inr ps)) auto_setup e"
proof -
  have "au_name p \<in> set (requests_of as_sel (Inr ps) Namespace_To_Policy (WNamespace ns))"
    using assms(3,4) by (auto simp: requests_of_def namespace_to_policy_def)
  then show ?thesis using namespace_event [OF assms(1,2)] by blast
qed

lemma schedule_events_reach_manager:
  assumes "WSchedule s \<in> set (subjects e)" "is_managed n (Some (sch_labels s, sp))" "n \<noteq> []"
  shows "n \<in> enq (requests_of as_sel listed) auto_setup e"
proof -
  have "n \<in> set (requests_of as_sel listed Sleep_Schedule_To_Policy (WSchedule s))"
    using assms(2,3) by (simp add: requests_of_def sleep_schedule_to_policy_def is_managed_def)
  then show ?thesis using schedule_event [OF assms(1)] by blast
qed

end

text \<open>A library that asks for exactly these.\<close>

definition plain_queue :: "(event_map \<Rightarrow> watched \<Rightarrow> string list) \<Rightarrow> controller_conf \<Rightarrow> event \<Rightarrow> string set" where
  "plain_queue f conf e =
     set (map watched_name (filter (\<lambda>x. watched_kind x = cc_for conf) (subjects e)) @
       concat (map (\<lambda>wt. if wt_filter wt = AllEvents \<or> labels_changed e
         then concat (map (f (wt_map wt)) (filter (\<lambda>x. watched_kind x = wt_kind wt) (subjects e))) else [])
         (cc_watches conf)))"

interpretation plain_events: event_source plain_queue
proof
  show "watched_name x \<in> plain_queue f conf e"
    if "x \<in> set (subjects e)" "watched_kind x = cc_for conf" for x e conf f
    using that by (auto simp: plain_queue_def)
  show "set (f (wt_map wt) x) \<subseteq> plain_queue f conf e"
    if "wt \<in> set (cc_watches conf)" "x \<in> set (subjects e)" "watched_kind x = wt_kind wt"
      "wt_filter wt = LabelChanged \<longrightarrow> labels_changed e" for wt conf x e f
    using that by (cases "wt_filter wt") (auto simp: plain_queue_def)
qed

section \<open>What a policy stands for\<close>

record fleet =
  ft_policies :: "auto_policy list"
  ft_namespaces :: "kube_namespace list"
  ft_view :: schedules

definition wants :: "selector_of \<Rightarrow> fleet \<Rightarrow> auto_policy \<Rightarrow> string \<Rightarrow> auto_profile option" where
  "wants as_sel fl p =
     wanted as_sel p (other_policies (au_name p) (ft_policies fl))
       (filter (\<lambda>ns. namespace_matches_policy as_sel p ns = Some True) (ft_namespaces fl))"

text \<open>The schedules are what a reconcile of the policy would make them.\<close>

definition up_to_date :: "selector_of \<Rightarrow> fleet \<Rightarrow> auto_policy \<Rightarrow> bool" where
  "up_to_date as_sel fl p \<longleftrightarrow> target_schedules p (wants as_sel fl p) (ft_view fl) = ft_view fl"

inductive fleet_step :: "fleet \<Rightarrow> event \<Rightarrow> fleet \<Rightarrow> bool" where
  ns_created: "fleet_step fl (Created (WNamespace ns)) (fl\<lparr>ft_namespaces := xs @ ns # ys\<rparr>)"
    if "ft_namespaces fl = xs @ ys"
| ns_updated: "fleet_step fl (Updated (WNamespace ns) (WNamespace ns')) (fl\<lparr>ft_namespaces := xs @ ns' # ys\<rparr>)"
    if "ft_namespaces fl = xs @ ns # ys" "kn_name ns' = kn_name ns"
| ns_deleted: "fleet_step fl (Deleted (WNamespace ns)) (fl\<lparr>ft_namespaces := xs @ ys\<rparr>)"
    if "ft_namespaces fl = xs @ ns # ys"
| policy_created: "fleet_step fl (Created (WPolicy p)) (fl\<lparr>ft_policies := xs @ p # ys\<rparr>)"
    if "ft_policies fl = xs @ ys"
| policy_updated: "fleet_step fl (Updated (WPolicy p) (WPolicy p')) (fl\<lparr>ft_policies := xs @ p' # ys\<rparr>)"
    if "ft_policies fl = xs @ p # ys" "au_name p' = au_name p"
| policy_deleted: "fleet_step fl (Deleted (WPolicy p)) (fl\<lparr>ft_policies := xs @ ys\<rparr>)"
    if "ft_policies fl = xs @ p # ys"
| schedule_created: "fleet_step fl (Created (WSchedule s))
      (fl\<lparr>ft_view := (ft_view fl)(schedule_key s \<mapsto> (sch_labels s, sch_spec s))\<rparr>)"
    if "ft_view fl (schedule_key s) = None"
| schedule_updated: "fleet_step fl (Updated (WSchedule s) (WSchedule s'))
      (fl\<lparr>ft_view := (ft_view fl)(schedule_key s \<mapsto> (sch_labels s', sch_spec s'))\<rparr>)"
    if "ft_view fl (schedule_key s) = Some (sch_labels s, sch_spec s)" "schedule_key s' = schedule_key s"
| schedule_deleted: "fleet_step fl (Deleted (WSchedule s)) (fl\<lparr>ft_view := (ft_view fl)(schedule_key s := None)\<rparr>)"
    if "ft_view fl (schedule_key s) = Some (sch_labels s, sch_spec s)"

section \<open>Missed events\<close>

lemma up_to_dateI:
  assumes "up_to_date as_sel fl p" "ft_view fl' = ft_view fl" "wants as_sel fl' p = wants as_sel fl p"
  shows "up_to_date as_sel fl' p"
  using assms by (simp add: up_to_date_def)

lemma target_local: "v k = v' k \<Longrightarrow> target_schedules p want v k = target_schedules p want v' k"
  by (cases k) (simp only: target_schedules_at)

text \<open>A change at one key of the view.\<close>

lemma up_to_date_put:
  assumes "up_to_date as_sel fl p" "ft_view fl' = (ft_view fl)(k := v)" "wants as_sel fl' p = wants as_sel fl p"
    and "target_schedules p (wants as_sel fl p) ((ft_view fl)(k := v)) k = v"
  shows "up_to_date as_sel fl' p"
  unfolding up_to_date_def assms(2,3)
proof (rule ext)
  fix j
  show "target_schedules p (wants as_sel fl p) ((ft_view fl)(k := v)) j = ((ft_view fl)(k := v)) j"
  proof (cases "j = k")
    case True
    then show ?thesis using assms(4) by simp
  next
    case False
    then have "target_schedules p (wants as_sel fl p) ((ft_view fl)(k := v)) j =
        target_schedules p (wants as_sel fl p) (ft_view fl) j"
      by (intro target_local) simp
    then show ?thesis using assms(1) False by (simp add: up_to_date_def)
  qed
qed

text \<open>An unmanaged schedule changes nothing, wherever it is put; removing one may.\<close>

lemma up_to_date_unmanaged:
  assumes before: "up_to_date as_sel fl p" and fl': "fl' = fl\<lparr>ft_view := (ft_view fl)(k := v)\<rparr>"
    and v: "\<not> is_managed (au_name p) v"
      "v \<noteq> None \<or> wants as_sel fl p (fst k) = None \<or> snd k \<noteq> resolved_generated_name p"
  shows "up_to_date as_sel fl' p"
proof (rule up_to_date_put [OF before])
  show "ft_view fl' = (ft_view fl)(k := v)" by (simp add: fl')
  show "wants as_sel fl' p = wants as_sel fl p" by (simp add: fl' wants_def)
  show "target_schedules p (wants as_sel fl p) ((ft_view fl)(k := v)) k = v"
    using v by (cases k) (auto simp: target_schedules_at synced_def is_managed_def)
qed

text \<open>
  C25: The watches of the policy controller miss nothing. An event that does not ask for a policy
  leaves its schedules what a reconcile of it would make them, if they were so before: a namespace is
  created, relabelled or deleted, any policy is created, changed or deleted, a schedule is
  created, edited or deleted. The one exception is the deletion of a manual schedule that
  stood in the place of a generated one, which is noticed only at the next interval.
\<close>

theorem unqueued_policy_up_to_date:
  assumes events: "event_source enq" and step: "fleet_step fl e fl'"
    and before: "up_to_date as_sel fl p" and p: "p \<in> set (ft_policies fl')" "au_name p \<noteq> []"
    and unqueued: "au_name p \<notin> enq (requests_of as_sel (Inr (ft_policies fl'))) auto_setup e"
  shows "up_to_date as_sel fl' p \<or>
    (\<exists>s. e = Deleted (WSchedule s) \<and> \<not> is_managed (au_name p) (Some (sch_labels s, sch_spec s)) \<and>
      wants as_sel fl p (sch_namespace s) \<noteq> None \<and> sch_name s = resolved_generated_name p)"
proof -
  have no_policy: "WPolicy q \<notin> set (subjects e)" for q
    using event_source.policy_events_reach_all [OF events _ p(1)] unqueued by blast
  have no_match: "namespace_matches_policy as_sel p ns \<noteq> Some True"
    if "WNamespace ns \<in> set (subjects e)" "labels_changed e" for ns
    using event_source.namespace_events_reach_matching [OF events that p(1)] unqueued by blast
  have not_mine: "\<not> is_managed (au_name p) (Some (sch_labels s, sp))" if "WSchedule s \<in> set (subjects e)" for s sp
    using event_source.schedule_events_reach_manager [OF events that _ p(2)] unqueued by blast
  show ?thesis
    using step
  proof cases
    case (ns_updated xs ns ys ns')
    have "wants as_sel fl' p = wants as_sel fl p"
    proof (cases "kn_labels ns = kn_labels ns'")
      case True
      with ns_updated(4) have "ns' = ns" by (cases ns; cases ns') simp
      then show ?thesis using ns_updated(2,3) by (simp add: wants_def)
    next
      case False
      then show ?thesis using ns_updated(1-3) no_match by (simp add: wants_def)
    qed
    then show ?thesis using up_to_dateI [OF before] ns_updated by simp
  next
    case (schedule_created s)
    then show ?thesis using up_to_date_unmanaged [OF before schedule_created(2)] not_mine [of s] by simp
  next
    case (schedule_updated s s')
    then show ?thesis using up_to_date_unmanaged [OF before schedule_updated(2)] not_mine [of s'] by simp
  next
    case (schedule_deleted s)
    have "up_to_date as_sel fl' p"
      if "wants as_sel fl p (sch_namespace s) = None \<or> sch_name s \<noteq> resolved_generated_name p"
      using up_to_date_unmanaged [OF before schedule_deleted(2)] that by (simp add: schedule_key_def is_managed_def)
    moreover have "\<not> is_managed (au_name p) (Some (sch_labels s, sch_spec s))"
      using not_mine [of s "sch_spec s"] schedule_deleted(1) by simp
    ultimately show ?thesis using schedule_deleted(1) by blast
  next
    case (ns_created xs ys ns)
    then show ?thesis using up_to_dateI [OF before, of fl'] no_match [of ns] by (simp add: wants_def)
  next
    case (ns_deleted xs ns ys)
    then show ?thesis using up_to_dateI [OF before, of fl'] no_match [of ns] by (simp add: wants_def)
  qed (use no_policy in force)+
qed

section \<open>An example\<close>

text \<open>Policy \<open>p\<close>, the namespace it matches, and in it its schedule or a manual one of that name.\<close>

definition office_fleet :: "string \<Rightarrow> fleet" where
  "office_fleet manager =
     \<lparr>ft_policies = [auto_policy_of ''p'' [] False],
      ft_namespaces = [\<lparr>kn_name = ''dev'', kn_labels = [(''slumlord.io/sleep-profile'', ''office'')]\<rparr>],
      ft_view = [(''dev'', ''auto-sleep'') \<mapsto> ([(managed_by_label, manager)], build_sleep_schedule_spec office_profile)]\<rparr>"

definition other_namespace :: kube_namespace where
  "other_namespace = \<lparr>kn_name = ''misc'', kn_labels = []\<rparr>"

definition manual_schedule :: sleep_schedule where
  "manual_schedule = (new_schedule (auto_policy_of ''p'' [] False) ''dev'' office_profile)
     \<lparr>sch_labels := [(managed_by_label, [])]\<rparr>"

lemma office_wants:
  "wants exists_sel (office_fleet m) (auto_policy_of ''p'' [] False) n = (if n = ''dev'' then Some office_profile else None)"
  by (simp add: wants_def office_fleet_def wanted_def namespace_matches_policy_def exists_sel_def auto_policy_of_def
      overlapping_policies_def other_policies_def resolved_profile_label_def gget_def)

lemma wants_view [simp]: "wants as_sel (fl\<lparr>ft_view := v\<rparr>) p = wants as_sel fl p"
  by (simp add: wants_def)

lemma office_facts_fleet:
  "ft_policies (office_fleet m) = [auto_policy_of ''p'' [] False]" "au_name (auto_policy_of n l b) = n"
  "resolved_generated_name (auto_policy_of n l b) = ''auto-sleep''"
  "ft_view (office_fleet m) = [(''dev'', ''auto-sleep'') \<mapsto> ([(managed_by_label, m)], build_sleep_schedule_spec office_profile)]"
  by (simp_all add: office_fleet_def auto_policy_of_def resolved_generated_name_def)

lemma office_up_to_date: "up_to_date exists_sel (office_fleet m) (auto_policy_of ''p'' [] False)"
  unfolding up_to_date_def
proof (rule schedules_eqI)
  have "sleep_spec_equal (build_sleep_schedule_spec office_profile) (build_sleep_schedule_spec office_profile)"
    by code_simp
  then show "target_schedules (auto_policy_of ''p'' [] False) (wants exists_sel (office_fleet m) (auto_policy_of ''p'' [] False))
      (ft_view (office_fleet m)) (n, g) = ft_view (office_fleet m) (n, g)" for n g
    by (auto simp: target_schedules_at office_wants synced_def office_facts_fleet is_managed_def gget_def Let_def)
qed

theorem unqueued_policy_up_to_date_witness:
  "up_to_date exists_sel (office_fleet ''p'') (auto_policy_of ''p'' [] False) \<and>
   up_to_date exists_sel ((office_fleet ''p'')\<lparr>ft_namespaces := [] @ other_namespace # ft_namespaces (office_fleet ''p'')\<rparr>)
     (auto_policy_of ''p'' [] False)"
proof -
  let ?fl = "(office_fleet ''p'')\<lparr>ft_namespaces := [] @ other_namespace # ft_namespaces (office_fleet ''p'')\<rparr>"
  have "fleet_step (office_fleet ''p'') (Created (WNamespace other_namespace)) ?fl"
    by (rule ns_created) simp
  moreover have "au_name (auto_policy_of ''p'' [] False) \<notin> plain_queue (requests_of exists_sel (Inr (ft_policies ?fl))) auto_setup
      (Created (WNamespace other_namespace))"
    by (simp add: plain_queue_def auto_setup_def requests_of_def namespace_to_policy_def office_fleet_def
        namespace_matches_policy_def exists_sel_def auto_policy_of_def other_namespace_def resolved_profile_label_def)
  ultimately show ?thesis
    using unqueued_policy_up_to_date [OF plain_events.event_source_axioms _ office_up_to_date, of "''p''" "Created (WNamespace other_namespace)" ?fl]
      office_up_to_date by (simp add: office_facts_fleet)
qed

text \<open>
  The exception is real: once the manual schedule is gone the policy would put its own in its place,
  but nothing asks for it.
\<close>

lemma manual_schedule_removed:
  "case (office_fleet [])\<lparr>ft_view := (ft_view (office_fleet []))(schedule_key manual_schedule := None)\<rparr> of fl \<Rightarrow>
     fleet_step (office_fleet []) (Deleted (WSchedule manual_schedule)) fl \<and>
     plain_queue (requests_of exists_sel (Inr (ft_policies fl))) auto_setup (Deleted (WSchedule manual_schedule)) = {} \<and>
     \<not> up_to_date exists_sel fl (auto_policy_of ''p'' [] False)"
proof -
  let ?fl = "(office_fleet [])\<lparr>ft_view := (ft_view (office_fleet []))(schedule_key manual_schedule := None)\<rparr>"
  have "fleet_step (office_fleet []) (Deleted (WSchedule manual_schedule)) ?fl"
    by (rule schedule_deleted)
      (simp add: office_fleet_def manual_schedule_def new_schedule_def schedule_key_def auto_policy_of_def
        resolved_generated_name_def)
  moreover have "plain_queue (requests_of exists_sel (Inr (ft_policies ?fl))) auto_setup (Deleted (WSchedule manual_schedule)) = {}"
    by (simp add: plain_queue_def auto_setup_def requests_of_def sleep_schedule_to_policy_def manual_schedule_def gget_def)
  moreover have "target_schedules (auto_policy_of ''p'' [] False) (wants exists_sel ?fl (auto_policy_of ''p'' [] False))
      (ft_view ?fl) (''dev'', ''auto-sleep'') \<noteq> ft_view ?fl (''dev'', ''auto-sleep'')"
    unfolding wants_view
    by (simp add: target_schedules_at office_wants synced_def office_facts_fleet manual_schedule_def
        new_schedule_def schedule_key_def)
  then have "\<not> up_to_date exists_sel ?fl (auto_policy_of ''p'' [] False)"
    unfolding up_to_date_def by metis
  ultimately show ?thesis by simp
qed

end
