(* ===== verification/Idle_Detect.thy ===== *)
theory Idle_Detect
  imports Kube_Nodes Workloads Go_Text
begin

text \<open>
  The idle detector, first part (\<open>idledetector_controller.go\<close>, \<open>idledetector_types.go\<close>): the
  types of the resource, the client, and the detection of idle workloads from the metrics of
  their pods. Parameters are the client with its clock, \<open>LabelSelectorAsSelector\<close> and the
  conversion of an out-of-range \<open>float64\<close>. Resource requests and usages are not negative.
\<close>

section \<open>Types\<close>

record idle_thresholds =
  ith_cpu :: "int option"
  ith_mem :: "int option"

record min_requests =
  mr_cpu :: "quantity option"
  mr_mem :: "quantity option"

record resize_config =
  rz_buffer :: "int option"
  rz_min :: "min_requests option"

record idle_spec =
  ids_selector :: workload_selector
  ids_thresholds :: idle_thresholds
  ids_duration :: string
  ids_action :: string
  ids_resize :: "resize_config option"
  ids_interval :: "duration option"

record idle_workload =
  iw_kind :: string
  iw_name :: string
  iw_since :: instant
  iw_cpu :: "int option"
  iw_mem :: "int option"

record scaled_workload =
  sc_kind :: string
  sc_name :: string
  sc_replicas :: "int option"
  sc_suspend :: "bool option"
  sc_at :: instant

text \<open>A \<open>ResourceList\<close> with the two resources that are used.\<close>

record requests =
  rq_cpu :: "quantity option"
  rq_mem :: "quantity option"

record resized_workload =
  rw_kind :: string
  rw_name :: string
  rw_original :: requests
  rw_current :: requests
  rw_at :: instant
  rw_pods :: int

record idle_status =
  ist_idle :: "idle_workload list"
  ist_scaled :: "scaled_workload list"
  ist_resized :: "resized_workload list"
  ist_last_check :: "instant option"

record idle_detector =
  id_name :: string
  id_namespace :: string
  id_deleting :: bool
  id_finalizer :: bool
  id_spec :: idle_spec
  id_status :: idle_status

text \<open>A job: owners, \<open>status.active\<close>, pod selector. The usage of a pod, container by container.\<close>

record job =
  jb_owners :: "owner_ref list"
  jb_active :: int
  jb_selector :: "label_selector option"

record pod_metrics =
  pm_name :: string
  pm_containers :: "container list"

text \<open>
  The client. \<open>ik_objects\<close> is its part for workloads, \<open>ik_pods\<close> lists pods with a selector,
  \<open>ik_metrics\<close> is the metrics client, which may be missing, and \<open>ik_patch_pod\<close> sends the
  difference between two states of a pod. Writing a detector or its status overwrites the
  caller's copy with the answer. \<open>ik_now\<close> reads the clock.
\<close>

record 'w idle_kube =
  ik_objects :: "'w kube"
  ik_get :: "string \<Rightarrow> string \<Rightarrow> 'w \<Rightarrow> kerr + idle_detector"
  ik_update :: "idle_detector \<Rightarrow> 'w \<Rightarrow> (kerr + idle_detector) \<times> 'w"
  ik_update_status :: "idle_detector \<Rightarrow> 'w \<Rightarrow> (kerr + idle_detector) \<times> 'w"
  ik_pods :: "string \<Rightarrow> (smap \<Rightarrow> bool) \<Rightarrow> 'w \<Rightarrow> kerr + pod list"
  ik_jobs :: "string \<Rightarrow> 'w \<Rightarrow> kerr + job list"
  ik_metrics :: "(string \<Rightarrow> 'w \<Rightarrow> kerr + pod_metrics list) option"
  ik_patch_pod :: "pod \<Rightarrow> pod \<Rightarrow> 'w \<Rightarrow> kerr option \<times> 'w"
  ik_now :: "'w \<Rightarrow> instant \<times> 'w"

record idle_env =
  ie_selector :: selector_of
  ie_default :: duration
  ie_float :: "fraction \<Rightarrow> int"

definition idle_interval :: "idle_env \<Rightarrow> idle_detector \<Rightarrow> duration" where
  "idle_interval env d =
     (case ids_interval (id_spec d) of
        Some i \<Rightarrow> i
      | None \<Rightarrow> if 0 < ie_default env then ie_default env else 5 * minute + 30 * second)"

section \<open>Selecting workloads\<close>

definition matches_selector :: "string \<Rightarrow> workload_selector \<Rightarrow> bool" where
  "matches_selector name sel \<longleftrightarrow>
     (if wsel_names sel = [] then True else list_ex (\<lambda>p. path_match p name) (wsel_names sel))"

definition idle_manages_type :: "idle_detector \<Rightarrow> string \<Rightarrow> bool" where
  "idle_manages_type d kind \<longleftrightarrow>
     (let types = wsel_types (ids_selector (id_spec d))
      in if types = [] then True else list_ex (\<lambda>t. t = kind) types)"

text \<open>The list call with \<open>listOptions\<close>: no labels select everything.\<close>

definition list_workloads :: "'w idle_kube \<Rightarrow> idle_detector \<Rightarrow> gvk \<Rightarrow> 'w \<Rightarrow> kerr + kobj list" where
  "list_workloads c d g w =
     k_list (ik_objects c) g (id_namespace d) (wsel_labels (ids_selector (id_spec d))) w"

section \<open>Pods of a workload\<close>

text \<open>\<open>LabelSelectorAsSelector\<close> of a pointer: a nil selector matches nothing.\<close>

definition pod_selector :: "idle_env \<Rightarrow> label_selector option \<Rightarrow> (smap \<Rightarrow> bool) option" where
  "pod_selector env sel = (case sel of None \<Rightarrow> Some (\<lambda>_. False) | Some s \<Rightarrow> ie_selector env s)"

definition running :: "pod list \<Rightarrow> pod list" where
  "running ps = filter (\<lambda>p. p_phase p = ''Running'') ps"

text \<open>The branch of one kind; an object of another Go type is not decoded.\<close>

definition pods_of_object ::
  "idle_env \<Rightarrow> 'w idle_kube \<Rightarrow> gvk \<Rightarrow> string \<Rightarrow> string \<Rightarrow> 'w \<Rightarrow> kerr + pod list" where
  "pods_of_object env c g name ns w =
     (case k_get (ik_objects c) g ns name w of
        Inl e \<Rightarrow> Inl e
      | Inr x \<Rightarrow>
          (case ko_body x of
             Scalable _ sel \<Rightarrow>
               (case pod_selector env sel of
                  None \<Rightarrow> Inl (ErrOther ''invalid selector'')
                | Some m \<Rightarrow>
                    (case ik_pods c ns m w of
                       Inl e \<Rightarrow> Inl e
                     | Inr ps \<Rightarrow> Inr (running ps)))
           | _ \<Rightarrow> Inl (ErrOther ''wrong type'')))"

definition get_pods_for_workload ::
  "idle_env \<Rightarrow> 'w idle_kube \<Rightarrow> string \<Rightarrow> string \<Rightarrow> string \<Rightarrow> 'w \<Rightarrow> kerr + pod list" where
  "get_pods_for_workload env c kind name ns w =
     (if kind = ''Deployment'' then pods_of_object env c deployment_gvk name ns w
      else if kind = ''StatefulSet'' then pods_of_object env c stateful_set_gvk name ns w
      else Inl (ErrOther ''unsupported workload kind''))"

definition is_owned_by_cron_job :: "job \<Rightarrow> string \<Rightarrow> bool" where
  "is_owned_by_cron_job j name = list_ex (\<lambda>r. fst r = ''CronJob'' \<and> snd r = name) (jb_owners j)"

text \<open>The loop over the jobs: the running pods of the active ones; errors skip a job.\<close>

fun active_pods :: "idle_env \<Rightarrow> 'w idle_kube \<Rightarrow> string \<Rightarrow> string \<Rightarrow> job list \<Rightarrow> 'w \<Rightarrow> pod list" where
  "active_pods env c name ns [] w = []"
| "active_pods env c name ns (j # js) w =
     (if \<not> is_owned_by_cron_job j name then []
      else if jb_active j = 0 then []
      else (case pod_selector env (jb_selector j) of
              None \<Rightarrow> []
            | Some m \<Rightarrow> (case ik_pods c ns m w of Inl e \<Rightarrow> [] | Inr ps \<Rightarrow> running ps)))
     @ active_pods env c name ns js w"

section \<open>Usage against requests\<close>

text \<open>The metrics of the given pods, and the sum of their usage.\<close>

definition metrics_of :: "pod list \<Rightarrow> pod_metrics list \<Rightarrow> pod_metrics list" where
  "metrics_of pods ms = filter (\<lambda>m. list_ex (\<lambda>p. p_name p = pm_name m) pods) ms"

fun total_usage :: "pod_metrics list \<Rightarrow> quantity \<times> quantity \<Rightarrow> quantity \<times> quantity" where
  "total_usage [] acc = acc"
| "total_usage (m # ms) acc = total_usage ms (sum_requests (pm_containers m) acc)"

definition compute_usage_percent :: "pod list \<Rightarrow> pod_metrics list \<Rightarrow> (fraction \<times> fraction) option" where
  "compute_usage_percent pods ms =
     (let (cpu_req, mem_req) = total_requests pods (0, 0);
          matched = metrics_of pods ms;
          (cpu_use, mem_use) = total_usage matched (0, 0)
      in if cpu_req = 0 \<and> mem_req = 0 then None
         else if matched = [] then None
         else Some (if cpu_req \<noteq> 0 then float_percent (milli_value cpu_use) (milli_value cpu_req) else (0, 1),
                    if mem_req \<noteq> 0 then float_percent (whole_value mem_use) (whole_value mem_req) else (0, 1)))"

definition is_idle_by_thresholds :: "fraction \<Rightarrow> fraction \<Rightarrow> idle_thresholds \<Rightarrow> bool" where
  "is_idle_by_thresholds cpu mem th =
     (case (ith_cpu th, ith_mem th) of
        (None, None) \<Rightarrow> False
      | (Some c, Some m) \<Rightarrow> float_less cpu c \<and> float_less mem m
      | (Some c, None) \<Rightarrow> float_less cpu c
      | (None, Some m) \<Rightarrow> float_less mem m)"

text \<open>What both checks do with the pods: idle or not, and the percentages as \<open>int32\<close>.\<close>

type_synonym verdict = "bool \<times> int option \<times> int option"

definition usage_verdict ::
  "idle_env \<Rightarrow> (string \<Rightarrow> 'w \<Rightarrow> kerr + pod_metrics list) \<Rightarrow> string \<Rightarrow> idle_thresholds \<Rightarrow> pod list \<Rightarrow> 'w \<Rightarrow>
   verdict" where
  "usage_verdict env metrics ns th pods w =
     (if pods = [] then (False, None, None)
      else (case metrics ns w of
              Inl e \<Rightarrow> (False, None, None)
            | Inr ms \<Rightarrow>
                (case compute_usage_percent pods ms of
                   None \<Rightarrow> (False, None, None)
                 | Some (cpu, mem) \<Rightarrow>
                     (is_idle_by_thresholds cpu mem th,
                      Some (float_int32 (ie_float env) cpu), Some (float_int32 (ie_float env) mem)))))"

definition check_workload_metrics ::
  "idle_env \<Rightarrow> 'w idle_kube \<Rightarrow> string \<Rightarrow> string \<Rightarrow> string \<Rightarrow> idle_thresholds \<Rightarrow> 'w \<Rightarrow> verdict" where
  "check_workload_metrics env c kind name ns th w =
     (case ik_metrics c of
        None \<Rightarrow> (False, None, None)
      | Some metrics \<Rightarrow>
          if ith_cpu th = None \<and> ith_mem th = None then (False, None, None)
          else (case get_pods_for_workload env c kind name ns w of
                  Inl e \<Rightarrow> (False, None, None)
                | Inr pods \<Rightarrow> usage_verdict env metrics ns th pods w))"

definition check_cron_job_metrics ::
  "idle_env \<Rightarrow> 'w idle_kube \<Rightarrow> string \<Rightarrow> string \<Rightarrow> idle_thresholds \<Rightarrow> 'w \<Rightarrow> verdict" where
  "check_cron_job_metrics env c name ns th w =
     (case ik_metrics c of
        None \<Rightarrow> (False, None, None)
      | Some metrics \<Rightarrow>
          if ith_cpu th = None \<and> ith_mem th = None then (False, None, None)
          else (case ik_jobs c ns w of
                  Inl e \<Rightarrow> (False, None, None)
                | Inr js \<Rightarrow> usage_verdict env metrics ns th (active_pods env c name ns js w) w))"

section \<open>Detection\<close>

text \<open>The time since a workload is idle: the one already in the status, or now.\<close>

definition idle_since :: "idle_detector \<Rightarrow> string \<Rightarrow> string \<Rightarrow> instant \<Rightarrow> instant" where
  "idle_since d kind name now =
     (case find (\<lambda>i. iw_kind i = kind \<and> iw_name i = name) (ist_idle (id_status d)) of
        None \<Rightarrow> now
      | Some i \<Rightarrow> iw_since i)"

text \<open>Workloads that are down already: no replicas, or suspended.\<close>

definition is_down :: "kobj \<Rightarrow> bool" where
  "is_down x =
     (case ko_body x of
        Scalable n sel \<Rightarrow> n = Some 0
      | Cron s \<Rightarrow> s = Some True
      | Custom j \<Rightarrow> False)"

definition detect_item ::
  "idle_detector \<Rightarrow> string \<Rightarrow> (kobj \<Rightarrow> verdict) \<Rightarrow> instant \<Rightarrow> kobj \<Rightarrow> idle_workload list" where
  "detect_item d kind check now x =
     (if \<not> matches_selector (ko_name x) (ids_selector (id_spec d)) then []
      else if is_down x then []
      else (case check x of
              (idle, cpu, mem) \<Rightarrow>
                if idle then [\<lparr>iw_kind = kind, iw_name = ko_name x,
                               iw_since = idle_since d kind (ko_name x) now, iw_cpu = cpu, iw_mem = mem\<rparr>]
                else []))"

definition detect_kind ::
  "'w idle_kube \<Rightarrow> idle_detector \<Rightarrow> string \<Rightarrow> gvk \<Rightarrow> (kobj \<Rightarrow> verdict) \<Rightarrow> instant \<Rightarrow> 'w \<Rightarrow>
   kerr + idle_workload list" where
  "detect_kind c d kind g check now w =
     (if \<not> idle_manages_type d kind then Inr []
      else (case list_workloads c d g w of
              Inl e \<Rightarrow> Inl e
            | Inr xs \<Rightarrow> Inr (concat (map (detect_item d kind check now) xs))))"

definition detect_idle_workloads ::
  "idle_env \<Rightarrow> 'w idle_kube \<Rightarrow> idle_detector \<Rightarrow> 'w \<Rightarrow> (kerr + idle_workload list) \<times> 'w" where
  "detect_idle_workloads env c d w0 =
     (let (now, w) = ik_now c w0;
          th = ids_thresholds (id_spec d);
          workload = (\<lambda>kind x. check_workload_metrics env c kind (ko_name x) (om_namespace (ko_meta x)) th w);
          cron = (\<lambda>x. check_cron_job_metrics env c (ko_name x) (om_namespace (ko_meta x)) th w)
      in (case detect_kind c d ''Deployment'' deployment_gvk (workload ''Deployment'') now w of
            Inl e \<Rightarrow> Inl e
          | Inr ds \<Rightarrow>
              (case detect_kind c d ''StatefulSet'' stateful_set_gvk (workload ''StatefulSet'') now w of
                 Inl e \<Rightarrow> Inl e
               | Inr ss \<Rightarrow>
                   (case detect_kind c d ''CronJob'' cron_job_gvk cron now w of
                      Inl e \<Rightarrow> Inl e
                    | Inr cs \<Rightarrow> Inr (ds @ ss @ cs))), w))"

section \<open>What is detected\<close>

definition kind_gvk :: "string \<Rightarrow> gvk option" where
  "kind_gvk kind =
     (if kind = ''Deployment'' then Some deployment_gvk
      else if kind = ''StatefulSet'' then Some stateful_set_gvk
      else if kind = ''CronJob'' then Some cron_job_gvk
      else None)"

lemma kind_gvk_inj: "kind_gvk a = Some g \<Longrightarrow> kind_gvk b = Some g \<Longrightarrow> a = b"
  by (auto simp: kind_gvk_def gvk_defs split: if_splits)

text \<open>The check of a workload of any of the three kinds.\<close>

definition verdict_of :: "idle_env \<Rightarrow> 'w idle_kube \<Rightarrow> idle_detector \<Rightarrow> string \<Rightarrow> kobj \<Rightarrow> 'w \<Rightarrow> verdict" where
  "verdict_of env c d kind x w =
     (let th = ids_thresholds (id_spec d); ns = om_namespace (ko_meta x) in
      if kind = ''CronJob'' then check_cron_job_metrics env c (ko_name x) ns th w
      else check_workload_metrics env c kind (ko_name x) ns th w)"

text \<open>The entry \<open>i\<close> stands for the workload \<open>x\<close>.\<close>

definition detected :: "idle_env \<Rightarrow> 'w idle_kube \<Rightarrow> idle_detector \<Rightarrow> instant \<Rightarrow> 'w \<Rightarrow> idle_workload \<Rightarrow> kobj \<Rightarrow> bool" where
  "detected env c d now w i x \<longleftrightarrow>
     idle_manages_type d (iw_kind i) \<and> iw_name i = ko_name x \<and>
     matches_selector (iw_name i) (ids_selector (id_spec d)) \<and> \<not> is_down x \<and>
     verdict_of env c d (iw_kind i) x w = (True, iw_cpu i, iw_mem i) \<and>
     iw_since i = idle_since d (iw_kind i) (iw_name i) now"

lemma detect_kind_sound:
  assumes "detect_kind c d kind g check now w = Inr l" "i \<in> set l"
    and "\<And>x. check x = verdict_of env c d kind x w"
  shows "iw_kind i = kind \<and> (\<exists>xs x. list_workloads c d g w = Inr xs \<and> x \<in> set xs \<and> detected env c d now w i x)"
  using assms
  by (fastforce simp: detect_kind_def detect_item_def detected_def split: if_splits sum.splits prod.splits)

lemma detect_sound:
  assumes run: "detect_idle_workloads env c d w = (Inr l, w')" and i: "i \<in> set l"
  shows "\<exists>g xs x. kind_gvk (iw_kind i) = Some g \<and> list_workloads c d g w' = Inr xs \<and> x \<in> set xs \<and>
    detected env c d (fst (ik_now c w)) w' i x"
proof -
  obtain now w1 where now: "ik_now c w = (now, w1)" by fastforce
  define th where "th = ids_thresholds (id_spec d)"
  define wl where "wl = (\<lambda>kind x. check_workload_metrics env c kind (ko_name x) (om_namespace (ko_meta x)) th w1)"
  define cr where "cr = (\<lambda>x. check_cron_job_metrics env c (ko_name x) (om_namespace (ko_meta x)) th w1)"
  from run obtain ds ss cs where w1: "w' = w1" and l: "l = ds @ ss @ cs"
    and ds: "detect_kind c d ''Deployment'' deployment_gvk (wl ''Deployment'') now w1 = Inr ds"
    and ss: "detect_kind c d ''StatefulSet'' stateful_set_gvk (wl ''StatefulSet'') now w1 = Inr ss"
    and cs: "detect_kind c d ''CronJob'' cron_job_gvk cr now w1 = Inr cs"
    by (auto simp: detect_idle_workloads_def now Let_def th_def [symmetric] wl_def cr_def split: sum.splits)
  have wl: "wl kind x = verdict_of env c d kind x w1" if "kind \<noteq> ''CronJob''" for kind x
    using that by (simp add: wl_def verdict_of_def th_def Let_def)
  have cr: "cr x = verdict_of env c d ''CronJob'' x w1" for x
    by (simp add: cr_def verdict_of_def th_def Let_def)
  consider "i \<in> set ds" | "i \<in> set ss" | "i \<in> set cs" using i l by auto
  then show ?thesis
  proof cases
    case 1
    from detect_kind_sound [OF ds 1 wl] show ?thesis unfolding w1 now fst_conv by (auto simp: kind_gvk_def)
  next
    case 2
    from detect_kind_sound [OF ss 2 wl] show ?thesis unfolding w1 now fst_conv by (auto simp: kind_gvk_def)
  next
    case 3
    from detect_kind_sound [OF cs 3 cr] show ?thesis unfolding w1 now fst_conv by (auto simp: kind_gvk_def)
  qed
qed

lemma no_metrics_none:
  assumes "detect_idle_workloads env c d w = (Inr l, w')" "ik_metrics c = None"
  shows "l = []"
proof (rule ccontr)
  assume "l \<noteq> []"
  then obtain i where "i \<in> set l" by (cases l) auto
  from detect_sound [OF assms(1) this] obtain x where "detected env c d (fst (ik_now c w)) w' i x" by blast
  then show False
    using assms(2)
    by (auto simp: detected_def verdict_of_def check_workload_metrics_def check_cron_job_metrics_def Let_def split: if_splits)
qed

section \<open>The verdict in exact arithmetic\<close>

text \<open>
  Usage is below the threshold of \<open>t\<close> percent. \<open>float64\<close> rounding shows in one place only: a
  usage of exactly 29, 57 or 58 percent counts as below. A request of 0 counts as no usage.
\<close>

definition usage_below :: "int \<Rightarrow> int \<Rightarrow> int \<Rightarrow> bool" where
  "usage_below use req t \<longleftrightarrow>
     (if req = 0 then 0 < t
      else 100 * use < t * req \<or> 100 * use = t * req \<and> (t = 29 \<or> t = 57 \<or> t = 58))"

definition percent_in_range :: "int option \<Rightarrow> bool" where
  "percent_in_range t \<longleftrightarrow> (\<forall>p. t = Some p \<longrightarrow> 0 \<le> p \<and> p \<le> 100)"

lemma milli_value_pos: "0 < q \<Longrightarrow> 0 < milli_value q"
  by (simp add: milli_value_def neg_imp_zdiv_neg_iff)

lemma whole_value_pos: "0 < q \<Longrightarrow> 0 < whole_value q"
  by (simp add: whole_value_def neg_imp_zdiv_neg_iff)

lemma milli_value_nonneg: "0 \<le> q \<Longrightarrow> 0 \<le> milli_value q"
  by (cases "q = 0") (auto simp: milli_value_def intro: order_less_imp_le dest: milli_value_pos)

lemma whole_value_nonneg: "0 \<le> q \<Longrightarrow> 0 \<le> whole_value q"
  by (cases "q = 0") (auto simp: whole_value_def intro: order_less_imp_le dest: whole_value_pos)

lemma float_usage_below:
  assumes "0 \<le> use" "use < 2 ^ 53" "0 \<le> req" "req < 2 ^ 44" "0 \<le> t" "t \<le> 100"
  shows "float_less (if req \<noteq> 0 then float_percent use req else (0, 1)) t \<longleftrightarrow> usage_below use req t"
proof (cases "req = 0")
  case True
  then show ?thesis by (simp add: usage_below_def float_less_def)
next
  case False
  with assms show ?thesis by (simp add: usage_below_def float_percent_less)
qed

text \<open>
  C17: The verdict on a workload agrees with exact arithmetic. For sizes below 2^44 (in
  thousandths of a core and in bytes) a workload with metrics and with some request is idle if
  and only if a threshold is set and, for each one set, the usage of the resource is below that
  percentage of the requests; rounding to float64 counts a usage of exactly 29, 57 or 58
  percent as below, and a resource without any request as unused.
\<close>

theorem idle_verdict_exact:
  assumes pods: "pods \<noteq> []" and metrics: "metrics ns w = Inr ms" "metrics_of pods ms \<noteq> []"
    and req: "total_requests pods (0, 0) = (cpu_req, mem_req)" "0 \<le> cpu_req" "0 \<le> mem_req" "cpu_req \<noteq> 0 \<or> mem_req \<noteq> 0"
    and use: "total_usage (metrics_of pods ms) (0, 0) = (cpu_use, mem_use)" "0 \<le> cpu_use" "0 \<le> mem_use"
    and size: "milli_value cpu_req < 2 ^ 44" "whole_value mem_req < 2 ^ 44"
      "milli_value cpu_use < 2 ^ 53" "whole_value mem_use < 2 ^ 53"
    and th: "percent_in_range (ith_cpu th)" "percent_in_range (ith_mem th)"
  shows "fst (usage_verdict env metrics ns th pods w) \<longleftrightarrow>
    (ith_cpu th \<noteq> None \<or> ith_mem th \<noteq> None) \<and>
    (\<forall>t. ith_cpu th = Some t \<longrightarrow> usage_below (milli_value cpu_use) (milli_value cpu_req) t) \<and>
    (\<forall>t. ith_mem th = Some t \<longrightarrow> usage_below (whole_value mem_use) (whole_value mem_req) t)"
proof -
  have z: "cpu_req = 0 \<longleftrightarrow> milli_value cpu_req = 0" "mem_req = 0 \<longleftrightarrow> whole_value mem_req = 0"
    using req(2,3) milli_value_pos [of cpu_req] whole_value_pos [of mem_req]
    by (auto simp: milli_value_def whole_value_def order.order_iff_strict)
  define cpu where "cpu = (if milli_value cpu_req \<noteq> 0 then float_percent (milli_value cpu_use) (milli_value cpu_req) else (0, 1))"
  define mem where "mem = (if whole_value mem_req \<noteq> 0 then float_percent (whole_value mem_use) (whole_value mem_req) else (0, 1))"
  have "compute_usage_percent pods ms = Some (cpu, mem)"
    using req metrics use by (simp add: compute_usage_percent_def z cpu_def mem_def)
  then have "fst (usage_verdict env metrics ns th pods w) = is_idle_by_thresholds cpu mem th"
    using pods metrics by (simp add: usage_verdict_def)
  moreover have "float_less cpu t = usage_below (milli_value cpu_use) (milli_value cpu_req) t" if "ith_cpu th = Some t" for t
    unfolding cpu_def using th that req(2) use(2) size
    by (intro float_usage_below) (simp_all add: percent_in_range_def milli_value_nonneg)
  moreover have "float_less mem t = usage_below (whole_value mem_use) (whole_value mem_req) t" if "ith_mem th = Some t" for t
    unfolding mem_def using th that req(3) use(3) size
    by (intro float_usage_below) (simp_all add: percent_in_range_def whole_value_nonneg)
  ultimately show ?thesis
    by (cases "ith_cpu th"; cases "ith_mem th") (simp_all add: is_idle_by_thresholds_def)
qed

text \<open>
  A busy workload counted as idle: with a CPU threshold alone, pods without CPU requests and
  with a memory request are idle whatever CPU time they use.
\<close>

theorem no_cpu_request_counts_idle:
  assumes "pods \<noteq> []" "metrics ns w = Inr ms" "metrics_of pods ms \<noteq> []"
    and "total_requests pods (0, 0) = (0, mem_req)" "mem_req \<noteq> 0"
    and "th = \<lparr>ith_cpu = Some t, ith_mem = None\<rparr>" "0 < t"
  shows "fst (usage_verdict env metrics ns th pods w)"
  using assms
  by (simp add: usage_verdict_def compute_usage_percent_def is_idle_by_thresholds_def float_less_def split: prod.splits)

section \<open>A pod and its metrics\<close>

definition sample_pod :: "string \<Rightarrow> container list \<Rightarrow> pod" where
  "sample_pod name cs =
     \<lparr>p_name = name, p_namespace = ''dev'', p_labels = [(''app'', ''web'')], p_annotations = [], p_owners = [],
      p_deleting = False, p_node = ''n1'', p_phase = ''Running'', p_containers = cs, p_init_containers = [],
      p_node_selector = [], p_tolerations = [], p_volumes = []\<rparr>"

definition sample_container :: "int option \<Rightarrow> int option \<Rightarrow> container" where
  "sample_container millis mib =
     \<lparr>ct_name = ''main'', ct_cpu = map_option (\<lambda>m. m * 1000000) millis,
      ct_mem = map_option (\<lambda>m. m * 1048576 * 1000000000) mib\<rparr>"

definition sample_metrics :: "string \<Rightarrow> container list \<Rightarrow> pod_metrics" where
  "sample_metrics name cs = \<lparr>pm_name = name, pm_containers = cs\<rparr>"

lemmas sample_simps =
  sample_pod_def sample_container_def sample_metrics_def pod_requests_def metrics_of_def
  milli_value_def whole_value_def percent_in_range_def

definition sample_env :: idle_env where
  "sample_env = \<lparr>ie_selector = (\<lambda>_. None), ie_default = 0, ie_float = (\<lambda>_. 0)\<rparr>"

theorem idle_verdict_exact_witness:
  "fst (usage_verdict sample_env (\<lambda>ns w. Inr [sample_metrics ''web-1'' [sample_container (Some 29) None]]) ''dev''
     \<lparr>ith_cpu = Some 29, ith_mem = None\<rparr> [sample_pod ''web-1'' [sample_container (Some 100) (Some 64)]] ())"
proof -
  have "usage_below 29 100 29" by (simp add: usage_below_def)
  then show ?thesis
    by (subst idle_verdict_exact [where ms = "[sample_metrics ''web-1'' [sample_container (Some 29) None]]"
          and cpu_req = "100 * 1000000" and mem_req = "64 * 1048576 * 1000000000"
          and cpu_use = "29 * 1000000" and mem_use = 0])
      (simp_all add: sample_simps)
qed

theorem no_cpu_request_counts_idle_witness:
  "fst (usage_verdict sample_env (\<lambda>ns w. Inr [sample_metrics ''web-1'' [sample_container (Some 64000) (Some 60)]]) ''dev''
     \<lparr>ith_cpu = Some 5, ith_mem = None\<rparr> [sample_pod ''web-1'' [sample_container None (Some 64)]] ())"
  by (rule no_cpu_request_counts_idle [where mem_req = "64 * 1048576 * 1000000000" and t = 5
        and ms = "[sample_metrics ''web-1'' [sample_container (Some 64000) (Some 60)]]"])
    (simp_all add: sample_simps)

end
