(* ===== verification/Idle_Scale.thy ===== *)
theory Idle_Scale
  imports Idle_Detect Kube_Api
begin

text \<open>
  The idle detector, second part: scaling down the workloads that have been idle for long
  enough, and restoring them when the detector is deleted.
\<close>

section \<open>Scaling down\<close>

text \<open>The state of a run: the detector in memory, and the cluster.\<close>

type_synonym 'w idle_st = "idle_detector \<times> 'w"

definition append_scaled :: "scaled_workload \<Rightarrow> idle_detector \<Rightarrow> idle_detector" where
  "append_scaled s d = d\<lparr>id_status := (id_status d)\<lparr>ist_scaled := ist_scaled (id_status d) @ [s]\<rparr>\<rparr>"

text \<open>\<open>scaleDownDeployment\<close> and \<open>scaleDownStatefulSet\<close>, which differ in the kind.\<close>

definition scale_down_replicas ::
  "'w idle_kube \<Rightarrow> string \<Rightarrow> gvk \<Rightarrow> string \<Rightarrow> 'w idle_st \<Rightarrow> kerr option \<times> 'w idle_st" where
  "scale_down_replicas c kind g name st =
     (case st of (d, w) \<Rightarrow>
        case k_get (ik_objects c) g (id_namespace d) name w of
          Inl e \<Rightarrow> (Some e, (d, w))
        | Inr x \<Rightarrow>
            (case ko_body x of
               Scalable (Some n) sel \<Rightarrow>
                 if 0 < n then
                   (case k_update (ik_objects c) (x\<lparr>ko_body := Scalable (Some 0) sel\<rparr>) w of
                      (Some e, w1) \<Rightarrow> (Some e, (d, w1))
                    | (None, w1) \<Rightarrow>
                        (case ik_now c w1 of (now, w2) \<Rightarrow>
                           (None, (append_scaled \<lparr>sc_kind = kind, sc_name = name, sc_replicas = Some n,
                                                  sc_suspend = None, sc_at = now\<rparr> d, w2))))
                 else (None, (d, w))
             | _ \<Rightarrow> (None, (d, w))))"

definition suspend_cron_job ::
  "'w idle_kube \<Rightarrow> string \<Rightarrow> 'w idle_st \<Rightarrow> kerr option \<times> 'w idle_st" where
  "suspend_cron_job c name st =
     (case st of (d, w) \<Rightarrow>
        case k_get (ik_objects c) cron_job_gvk (id_namespace d) name w of
          Inl e \<Rightarrow> (Some e, (d, w))
        | Inr x \<Rightarrow>
            (case ko_body x of
               Cron s \<Rightarrow>
                 if s \<noteq> Some True then
                   (let original = (case s of None \<Rightarrow> False | Some b \<Rightarrow> b) in
                    case k_update (ik_objects c) (x\<lparr>ko_body := Cron (Some True)\<rparr>) w of
                      (Some e, w1) \<Rightarrow> (Some e, (d, w1))
                    | (None, w1) \<Rightarrow>
                        (case ik_now c w1 of (now, w2) \<Rightarrow>
                           (None, (append_scaled \<lparr>sc_kind = ''CronJob'', sc_name = name, sc_replicas = None,
                                                  sc_suspend = Some original, sc_at = now\<rparr> d, w2))))
                 else (None, (d, w))
             | _ \<Rightarrow> (None, (d, w))))"

definition scale_down_one ::
  "'w idle_kube \<Rightarrow> idle_workload \<Rightarrow> 'w idle_st \<Rightarrow> kerr option \<times> 'w idle_st" where
  "scale_down_one c i st =
     (if iw_kind i = ''Deployment'' then scale_down_replicas c ''Deployment'' deployment_gvk (iw_name i) st
      else if iw_kind i = ''StatefulSet'' then scale_down_replicas c ''StatefulSet'' stateful_set_gvk (iw_name i) st
      else if iw_kind i = ''CronJob'' then suspend_cron_job c (iw_name i) st
      else (None, st))"

definition already_scaled :: "idle_detector \<Rightarrow> idle_workload \<Rightarrow> bool" where
  "already_scaled d i =
     list_ex (\<lambda>s. sc_kind s = iw_kind i \<and> sc_name s = iw_name i) (ist_scaled (id_status d))"

text \<open>
  The loop body. A workload that cannot be scaled is left for the next time; the status is
  written after each one, and only a failure of that ends the loop.
\<close>

definition scale_down_step ::
  "'w idle_kube \<Rightarrow> duration \<Rightarrow> instant \<Rightarrow> idle_workload \<Rightarrow> 'w idle_st \<Rightarrow> kerr option \<times> 'w idle_st" where
  "scale_down_step c dur now i st =
     (if time_sub now (iw_since i) < dur then (None, st)
      else if already_scaled (fst st) i then (None, st)
      else (case scale_down_one c i st of
              (Some e, st1) \<Rightarrow> (None, st1)
            | (None, (d1, w1)) \<Rightarrow>
                (case ik_update_status c d1 w1 of
                   (Inl e, w2) \<Rightarrow> (Some e, (d1, w2))
                 | (Inr d2, w2) \<Rightarrow> (None, (d2, w2)))))"

text \<open>The list of idle workloads is the one at the start of the loop, as \<open>range\<close> takes it.\<close>

definition scale_down_idle_workloads ::
  "'w idle_kube \<Rightarrow> duration \<Rightarrow> 'w idle_st \<Rightarrow> kerr option \<times> 'w idle_st" where
  "scale_down_idle_workloads c dur st =
     (case st of (d, w) \<Rightarrow> case ik_now c w of (now, w1) \<Rightarrow>
        run_steps (map (scale_down_step c dur now) (ist_idle (id_status d))) (d, w1))"

section \<open>Restoring\<close>

text \<open>One recorded workload: the error, and whether it counts as restored.\<close>

definition restore_replicas ::
  "'w idle_kube \<Rightarrow> string \<Rightarrow> gvk \<Rightarrow> scaled_workload \<Rightarrow> 'w \<Rightarrow> (kerr option \<times> bool) \<times> 'w" where
  "restore_replicas c ns g s w =
     (case k_get (ik_objects c) g ns (sc_name s) w of
        Inl e \<Rightarrow> ((Some e, False), w)
      | Inr x \<Rightarrow>
          (case (sc_replicas s, ko_body x) of
             (Some n, Scalable r sel) \<Rightarrow>
               (case k_update (ik_objects c) (x\<lparr>ko_body := Scalable (Some n) sel\<rparr>) w of
                  (Some e, w1) \<Rightarrow> ((Some e, False), w1)
                | (None, w1) \<Rightarrow> ((None, True), w1))
           | _ \<Rightarrow> ((None, True), w)))"

definition restore_cron_job ::
  "'w idle_kube \<Rightarrow> string \<Rightarrow> scaled_workload \<Rightarrow> 'w \<Rightarrow> (kerr option \<times> bool) \<times> 'w" where
  "restore_cron_job c ns s w =
     (case k_get (ik_objects c) cron_job_gvk ns (sc_name s) w of
        Inl e \<Rightarrow> ((Some e, False), w)
      | Inr x \<Rightarrow>
          (case (sc_suspend s, ko_body x) of
             (Some b, Cron r) \<Rightarrow>
               (case k_update (ik_objects c) (x\<lparr>ko_body := Cron (Some b)\<rparr>) w of
                  (Some e, w1) \<Rightarrow> ((Some e, False), w1)
                | (None, w1) \<Rightarrow> ((None, True), w1))
           | _ \<Rightarrow> ((None, True), w)))"

definition restore_one ::
  "'w idle_kube \<Rightarrow> string \<Rightarrow> scaled_workload \<Rightarrow> 'w \<Rightarrow> (kerr option \<times> bool) \<times> 'w" where
  "restore_one c ns s w =
     (if sc_kind s = ''Deployment'' then restore_replicas c ns deployment_gvk s w
      else if sc_kind s = ''StatefulSet'' then restore_replicas c ns stateful_set_gvk s w
      else if sc_kind s = ''CronJob'' then restore_cron_job c ns s w
      else ((None, False), w))"

text \<open>The loop: what remains, the last error, the cluster.\<close>

fun restore_loop ::
  "'w idle_kube \<Rightarrow> string \<Rightarrow> scaled_workload list \<Rightarrow> 'w \<Rightarrow> (scaled_workload list \<times> kerr option) \<times> 'w" where
  "restore_loop c ns [] w = (([], None), w)"
| "restore_loop c ns (s # ss) w =
     (case restore_one c ns s w of
        ((err, ok), w1) \<Rightarrow>
          (case restore_loop c ns ss w1 of
             ((remaining, final), w2) \<Rightarrow>
               ((if ok then remaining else s # remaining,
                 case final of None \<Rightarrow> err | Some e \<Rightarrow> Some e), w2)))"

definition set_scaled :: "scaled_workload list \<Rightarrow> idle_detector \<Rightarrow> idle_detector" where
  "set_scaled ss d = d\<lparr>id_status := (id_status d)\<lparr>ist_scaled := ss\<rparr>\<rparr>"

definition restore_scaled_workloads :: "'w idle_kube \<Rightarrow> 'w idle_st \<Rightarrow> kerr option \<times> 'w idle_st" where
  "restore_scaled_workloads c st =
     (case st of (d, w) \<Rightarrow>
        case restore_loop c (id_namespace d) (ist_scaled (id_status d)) w of
          ((remaining, final), w1) \<Rightarrow> (final, (set_scaled remaining d, w1)))"

section \<open>The laws of the client\<close>

text \<open>
  Times come back from the server in full seconds. Reading the clock and writing the status
  touch no workload.
\<close>

definition idle_stored :: "idle_detector \<Rightarrow> idle_detector" where
  "idle_stored d =
     d\<lparr>id_status := (id_status d)
        \<lparr>ist_idle := map (\<lambda>i. i\<lparr>iw_since := full_seconds (iw_since i)\<rparr>) (ist_idle (id_status d)),
         ist_scaled := map (\<lambda>s. s\<lparr>sc_at := full_seconds (sc_at s)\<rparr>) (ist_scaled (id_status d)),
         ist_resized := map (\<lambda>r. r\<lparr>rw_at := full_seconds (rw_at r)\<rparr>) (ist_resized (id_status d)),
         ist_last_check := map_option full_seconds (ist_last_check (id_status d))\<rparr>\<rparr>"

lemma idle_stored_simps [simp]:
  "id_namespace (idle_stored d) = id_namespace d" "id_spec (idle_stored d) = id_spec d"
  "id_name (idle_stored d) = id_name d"
  "id_deleting (idle_stored d) = id_deleting d" "id_finalizer (idle_stored d) = id_finalizer d"
  "ist_scaled (id_status (idle_stored d)) = map (\<lambda>s. s\<lparr>sc_at := full_seconds (sc_at s)\<rparr>) (ist_scaled (id_status d))"
  by (simp_all add: idle_stored_def)

text \<open>The workloads of the cluster by key.\<close>

definition object_at :: "'w idle_kube \<Rightarrow> 'w \<Rightarrow> gvk \<times> string \<times> string \<Rightarrow> kerr + kobj" where
  "object_at c w k = (case k of (g, ns, n) \<Rightarrow> k_get (ik_objects c) g ns n w)"

text \<open>What no other call than a write to a workload or a detector changes.\<close>

definition same_store :: "'w idle_kube \<Rightarrow> 'w \<Rightarrow> 'w \<Rightarrow> bool" where
  "same_store c w w' \<longleftrightarrow> object_at c w' = object_at c w \<and>
     (\<forall>ns n. ik_get c ns n w' = ik_get c ns n w)"

locale idle_api =
  fixes c :: "'w idle_kube"
  assumes store: "api_store (ik_objects c)"
    and typed: "api_typed (ik_objects c)"
    and get_typed: "ik_get c ns n w = Inr d \<Longrightarrow> id_namespace d = ns \<and> id_name d = n"
    and workload_frame: "k_update (ik_objects c) x w = (e, w') \<Longrightarrow> ik_get c ns n w' = ik_get c ns n w"
    and now_store: "same_store c w (snd (ik_now c w))"
    and patch_store: "same_store c w (snd (ik_patch_pod c p q w))"
    and status_failed: "ik_update_status c d w = (Inl err, w') \<Longrightarrow> same_store c w w'"
    and status_written: "ik_update_status c d w = (Inr d', w') \<Longrightarrow>
      d' = idle_stored d \<and> object_at c w' = object_at c w \<and>
      ik_get c (id_namespace d) (id_name d) w' = Inr d'"
    and update_refused: "ik_update c d w = (Inl err, w') \<Longrightarrow> same_store c w w'"
    and updated: "ik_update c d w = (Inr d', w') \<Longrightarrow> ik_get c (id_namespace d) (id_name d) w = Inr d0 \<Longrightarrow>
      d' = d\<lparr>id_status := id_status d0\<rparr> \<and> object_at c w' = object_at c w \<and>
      (\<not> id_deleting d \<longrightarrow> ik_get c (id_namespace d) (id_name d) w' = Inr d')"
begin

lemma now_frame: "object_at c (snd (ik_now c w)) = object_at c w"
  using now_store by (simp add: same_store_def)

lemma status_frame: "ik_update_status c d w = (r, w') \<Longrightarrow> object_at c w' = object_at c w"
  using status_failed [of d w _ w'] status_written [of d w _ w'] by (cases r) (auto simp: same_store_def)

lemma status_answer: "ik_update_status c d w = (Inr d', w') \<Longrightarrow> d' = idle_stored d"
  using status_written by blast

lemma update_ok:
  assumes "k_update (ik_objects c) x w = (None, w')"
  shows "object_at c w' = (object_at c w)(ko_key x := Inr x)"
proof
  fix k :: "gvk \<times> string \<times> string"
  obtain g ns n where k: "k = (g, ns, n)" by (cases k)
  show "object_at c w' k = ((object_at c w)(ko_key x := Inr x)) k"
    using api_store_updated [OF store assms, of g ns n] by (simp add: object_at_def k)
qed

lemma update_failed:
  assumes "k_update (ik_objects c) x w = (Some e, w')"
  shows "object_at c w' = object_at c w"
proof
  fix k :: "gvk \<times> string \<times> string"
  obtain g ns n where k: "k = (g, ns, n)" by (cases k)
  show "object_at c w' k = object_at c w k"
    using api_store_failed [OF store assms, of g ns n] by (simp add: object_at_def k)
qed

lemma get_key: "k_get (ik_objects c) g ns n w = Inr x \<Longrightarrow> ko_key x = (g, ns, n)"
  by (rule api_typed_get [OF typed])

lemma now_ok: "ik_now c w = (t, w') \<Longrightarrow> object_at c w' = object_at c w"
  using now_frame [of w] by simp

end

section \<open>What is recorded\<close>

definition down_version :: "kobj \<Rightarrow> kobj" where
  "down_version x =
     (case ko_body x of
        Scalable n sel \<Rightarrow> x\<lparr>ko_body := Scalable (Some 0) sel\<rparr>
      | Cron s \<Rightarrow> x\<lparr>ko_body := Cron (Some True)\<rparr>
      | Custom j \<Rightarrow> x)"

text \<open>The entry \<open>s\<close> holds what it takes to bring back \<open>x\<close>.\<close>

definition records :: "scaled_workload \<Rightarrow> kobj \<Rightarrow> bool" where
  "records s x \<longleftrightarrow>
     (case ko_body x of
        Scalable n sel \<Rightarrow>
          sc_kind s \<in> {''Deployment'', ''StatefulSet''} \<and> n = sc_replicas s \<and> (\<exists>r. n = Some r \<and> 0 < r)
      | Cron b \<Rightarrow> sc_kind s = ''CronJob'' \<and> b \<noteq> Some True \<and> sc_suspend s = Some False
      | Custom j \<Rightarrow> False)"

lemma ko_key_body [simp]: "ko_key (x\<lparr>ko_body := b\<rparr>) = ko_key x"
  by (simp add: ko_key_def)

text \<open>Scaling one workload changes nothing, or takes it down and records it.\<close>

definition taken_down ::
  "'w idle_kube \<Rightarrow> string \<Rightarrow> gvk \<Rightarrow> string \<Rightarrow> idle_detector \<Rightarrow> 'w \<Rightarrow> kerr option \<Rightarrow> idle_detector \<Rightarrow> 'w \<Rightarrow> bool" where
  "taken_down c kind g name d w err d' w' \<longleftrightarrow>
     d' = d \<and> object_at c w' = object_at c w \<or>
     (\<exists>x s. err = None \<and> object_at c w (g, id_namespace d, name) = Inr x \<and>
        records s x \<and> sc_kind s = kind \<and> sc_name s = name \<and> d' = append_scaled s d \<and>
        object_at c w' = (object_at c w)((g, id_namespace d, name) := Inr (down_version x)))"

context idle_api
begin

text \<open>One write that takes an object down, and the entry for it.\<close>

lemma take_down_written:
  assumes get: "k_get (ik_objects c) g (id_namespace d) name w = Inr x"
    and down: "x\<lparr>ko_body := b\<rparr> = down_version x"
    and upd: "k_update (ik_objects c) (x\<lparr>ko_body := b\<rparr>) w = (None, w1)" and now: "ik_now c w1 = (t, w2)"
    and s: "records s x" "sc_kind s = kind" "sc_name s = name"
  shows "taken_down c kind g name d w None (append_scaled s d) w2"
proof -
  have "object_at c w1 = (object_at c w)((g, id_namespace d, name) := Inr (down_version x))"
    using update_ok [OF upd] get_key [OF get] unfolding down [symmetric] by simp
  moreover have "object_at c w (g, id_namespace d, name) = Inr x" using get by (simp add: object_at_def)
  ultimately show ?thesis using s now_ok [OF now] unfolding taken_down_def by auto
qed

lemma scale_down_replicas_cases:
  assumes kind: "kind \<in> {''Deployment'', ''StatefulSet''}"
    and run: "scale_down_replicas c kind g name (d, w) = (err, (d', w'))"
  shows "taken_down c kind g name d w err d' w'"
proof (cases "\<exists>x n sel. k_get (ik_objects c) g (id_namespace d) name w = Inr x \<and> ko_body x = Scalable (Some n) sel \<and> 0 < n")
  case False
  with run have "d' = d \<and> w' = w"
    by (auto simp: scale_down_replicas_def split: sum.splits body.splits option.splits if_splits)
  then show ?thesis by (simp add: taken_down_def)
next
  case True
  then obtain x n sel where x: "k_get (ik_objects c) g (id_namespace d) name w = Inr x"
    "ko_body x = Scalable (Some n) sel" "0 < n" by blast
  obtain e w1 where u: "k_update (ik_objects c) (x\<lparr>ko_body := Scalable (Some 0) sel\<rparr>) w = (e, w1)" by fastforce
  obtain t w2 where t: "ik_now c w1 = (t, w2)" by fastforce
  let ?s = "\<lparr>sc_kind = kind, sc_name = name, sc_replicas = Some n, sc_suspend = None, sc_at = t\<rparr>"
  show ?thesis
  proof (cases e)
    case (Some e')
    then show ?thesis using run x u update_failed [of _ w e' w1] by (simp add: scale_down_replicas_def taken_down_def)
  next
    case None
    have "taken_down c kind g name d w None (append_scaled ?s d) w2"
      by (rule take_down_written [OF x(1) _ u [unfolded None] t]) (use x kind in \<open>simp_all add: down_version_def records_def\<close>)
    then show ?thesis using run x u None t by (simp add: scale_down_replicas_def)
  qed
qed

lemma suspend_cron_job_cases:
  assumes run: "suspend_cron_job c name (d, w) = (err, (d', w'))"
  shows "taken_down c ''CronJob'' cron_job_gvk name d w err d' w'"
proof (cases "\<exists>x b. k_get (ik_objects c) cron_job_gvk (id_namespace d) name w = Inr x \<and> ko_body x = Cron b \<and> b \<noteq> Some True")
  case False
  with run have "d' = d \<and> w' = w" by (auto simp: suspend_cron_job_def split: sum.splits body.splits if_splits)
  then show ?thesis by (simp add: taken_down_def)
next
  case True
  then obtain x b where x: "k_get (ik_objects c) cron_job_gvk (id_namespace d) name w = Inr x"
    "ko_body x = Cron b" "b \<noteq> Some True" by blast
  obtain e w1 where u: "k_update (ik_objects c) (x\<lparr>ko_body := Cron (Some True)\<rparr>) w = (e, w1)" by fastforce
  obtain t w2 where t: "ik_now c w1 = (t, w2)" by fastforce
  let ?s = "\<lparr>sc_kind = ''CronJob'', sc_name = name, sc_replicas = None, sc_suspend = Some False, sc_at = t\<rparr>"
  have b: "(case b of None \<Rightarrow> False | Some v \<Rightarrow> v) = False" using x(3) by (cases b) simp_all
  show ?thesis
  proof (cases e)
    case (Some e')
    then show ?thesis using run x u update_failed [of _ w e' w1] by (simp add: suspend_cron_job_def taken_down_def)
  next
    case None
    have "taken_down c ''CronJob'' cron_job_gvk name d w None (append_scaled ?s d) w2"
      by (rule take_down_written [OF x(1) _ u [unfolded None] t]) (use x b in \<open>simp_all add: down_version_def records_def\<close>)
    then show ?thesis using run x b u None t by (simp add: suspend_cron_job_def)
  qed
qed

lemma scale_down_one_cases:
  assumes "scale_down_one c i (d, w) = (err, (d', w'))"
  shows "d' = d \<and> object_at c w' = object_at c w \<or>
    (\<exists>g x s. err = None \<and> kind_gvk (iw_kind i) = Some g \<and> object_at c w (g, id_namespace d, iw_name i) = Inr x \<and>
       records s x \<and> sc_kind s = iw_kind i \<and> sc_name s = iw_name i \<and> d' = append_scaled s d \<and>
       object_at c w' = (object_at c w)((g, id_namespace d, iw_name i) := Inr (down_version x)))"
proof -
  consider g where "kind_gvk (iw_kind i) = Some g" "taken_down c (iw_kind i) g (iw_name i) d w err d' w'"
    | "d' = d" "w' = w"
  proof -
    from assms consider
        "iw_kind i = ''Deployment''" "scale_down_replicas c ''Deployment'' deployment_gvk (iw_name i) (d, w) = (err, (d', w'))"
      | "iw_kind i = ''StatefulSet''" "scale_down_replicas c ''StatefulSet'' stateful_set_gvk (iw_name i) (d, w) = (err, (d', w'))"
      | "iw_kind i = ''CronJob''" "suspend_cron_job c (iw_name i) (d, w) = (err, (d', w'))"
      | "d' = d" "w' = w"
      by (auto simp: scale_down_one_def split: if_splits)
    then show thesis
      using that scale_down_replicas_cases suspend_cron_job_cases by cases (simp_all add: kind_gvk_def)
  qed
  then show ?thesis unfolding taken_down_def by cases metis+
qed

end

section \<open>Scaled workloads are recorded\<close>

text \<open>
  The entry for a key, and the invariant of a run: every workload is as in \<open>orig\<close>, or down
  with an entry that brings it back; and no workload has two entries.
\<close>

definition entry_for :: "scaled_workload list \<Rightarrow> string \<Rightarrow> gvk \<times> string \<times> string \<Rightarrow> scaled_workload option" where
  "entry_for ss ns k =
     find (\<lambda>s. kind_gvk (sc_kind s) = Some (fst k) \<and> ns = fst (snd k) \<and> sc_name s = snd (snd k)) ss"

definition key_inv :: "scaled_workload option \<Rightarrow> kerr + kobj \<Rightarrow> kerr + kobj \<Rightarrow> bool" where
  "key_inv entry before now \<longleftrightarrow>
     (case entry of
        None \<Rightarrow> now = before
      | Some s \<Rightarrow> \<exists>x. before = Inr x \<and> records s x \<and> now = Inr (down_version x))"

definition scaled_inv ::
  "'w idle_kube \<Rightarrow> string \<Rightarrow> (gvk \<times> string \<times> string \<Rightarrow> kerr + kobj) \<Rightarrow> scaled_workload list \<Rightarrow> 'w \<Rightarrow> bool" where
  "scaled_inv c ns orig ss w \<longleftrightarrow>
     distinct (map (\<lambda>s. (sc_kind s, sc_name s)) ss) \<and>
     (\<forall>k. key_inv (entry_for ss ns k) (orig k) (object_at c w k))"

lemma scaled_invD:
  "scaled_inv c ns orig ss w \<Longrightarrow> distinct (map (\<lambda>s. (sc_kind s, sc_name s)) ss)"
  "scaled_inv c ns orig ss w \<Longrightarrow> key_inv (entry_for ss ns k) (orig k) (object_at c w k)"
  unfolding scaled_inv_def by blast+

lemma scaled_invI:
  "distinct (map (\<lambda>s. (sc_kind s, sc_name s)) ss) \<Longrightarrow>
   (\<And>k. key_inv (entry_for ss ns k) (orig k) (object_at c w k)) \<Longrightarrow> scaled_inv c ns orig ss w"
  unfolding scaled_inv_def by blast

lemma entry_for_append:
  "entry_for (ss @ [s]) ns k =
     (case entry_for ss ns k of
        Some t \<Rightarrow> Some t
      | None \<Rightarrow> if kind_gvk (sc_kind s) = Some (fst k) \<and> ns = fst (snd k) \<and> sc_name s = snd (snd k)
                then Some s else None)"
  unfolding entry_for_def by (induction ss) auto

lemma entry_for_stored:
  "entry_for (map (\<lambda>s. s\<lparr>sc_at := f (sc_at s)\<rparr>) ss) ns k = map_option (\<lambda>s. s\<lparr>sc_at := f (sc_at s)\<rparr>) (entry_for ss ns k)"
  unfolding entry_for_def by (induction ss) auto

lemma records_at [simp]: "records (s\<lparr>sc_at := t\<rparr>) x = records s x"
  by (cases "ko_body x") (simp_all add: records_def)

lemma scaled_inv_start: "scaled_inv c ns (object_at c w) [] w"
  by (rule scaled_invI) (simp_all add: entry_for_def key_inv_def)

lemma scaled_inv_frame: "scaled_inv c ns orig ss w \<Longrightarrow> object_at c w' = object_at c w \<Longrightarrow> scaled_inv c ns orig ss w'"
  unfolding scaled_inv_def by metis

lemma scaled_inv_stored:
  assumes "scaled_inv c ns orig ss w"
  shows "scaled_inv c ns orig (map (\<lambda>s. s\<lparr>sc_at := f (sc_at s)\<rparr>) ss) w"
proof (rule scaled_invI)
  show "distinct (map (\<lambda>s. (sc_kind s, sc_name s)) (map (\<lambda>s. s\<lparr>sc_at := f (sc_at s)\<rparr>) ss))"
    using scaled_invD(1) [OF assms] by (simp add: comp_def)
  fix k
  show "key_inv (entry_for (map (\<lambda>s. s\<lparr>sc_at := f (sc_at s)\<rparr>) ss) ns k) (orig k) (object_at c w k)"
    using scaled_invD(2) [OF assms, of k] unfolding entry_for_stored
    by (cases "entry_for ss ns k") (simp_all add: key_inv_def)
qed

lemma scaled_inv_append:
  assumes inv: "scaled_inv c ns orig ss w"
    and new: "\<forall>s' \<in> set ss. \<not> (sc_kind s' = sc_kind s \<and> sc_name s' = sc_name s)"
    and g: "kind_gvk (sc_kind s) = Some g" and x: "object_at c w (g, ns, sc_name s) = Inr x" and r: "records s x"
    and w': "object_at c w' = (object_at c w)((g, ns, sc_name s) := Inr (down_version x))"
  shows "scaled_inv c ns orig (ss @ [s]) w'"
proof -
  have fresh: "entry_for ss ns (g, ns, sc_name s) = None"
    using new g by (auto simp: entry_for_def find_None_iff dest: kind_gvk_inj)
  then have orig: "orig (g, ns, sc_name s) = Inr x"
    using scaled_invD(2) [OF inv, of "(g, ns, sc_name s)"] x by (simp add: key_inv_def)
  have "key_inv (entry_for (ss @ [s]) ns k) (orig k) (object_at c w' k)" for k
  proof (cases "k = (g, ns, sc_name s)")
    case True
    then show ?thesis using fresh orig r g by (simp add: entry_for_append w' key_inv_def)
  next
    case False
    then have "\<not> (kind_gvk (sc_kind s) = Some (fst k) \<and> ns = fst (snd k) \<and> sc_name s = snd (snd k))"
      using g by (cases k) auto
    then have "entry_for (ss @ [s]) ns k = entry_for ss ns k"
      by (auto simp: entry_for_append split: option.splits)
    then show ?thesis using scaled_invD(2) [OF inv, of k] False by (simp add: w')
  qed
  moreover have "distinct (map (\<lambda>s. (sc_kind s, sc_name s)) (ss @ [s]))"
    using scaled_invD(1) [OF inv] new by auto
  ultimately show ?thesis by (intro scaled_invI)
qed

context idle_api
begin

lemma scale_down_step_inv:
  assumes inv: "id_namespace d = ns \<and> id_name d = name \<and> scaled_inv c ns orig (ist_scaled (id_status d)) w"
    and run: "scale_down_step c dur now i (d, w) = (r, (d', w'))"
  shows "id_namespace d' = ns \<and> id_name d' = name \<and> scaled_inv c ns orig (ist_scaled (id_status d')) w'"
proof (cases "time_sub now (iw_since i) < dur \<or> already_scaled d i")
  case True
  with run have "d' = d" "w' = w" by (simp_all add: scale_down_step_def split: if_splits)
  with inv show ?thesis by simp
next
  case False
  obtain err d1 w1 where one: "scale_down_one c i (d, w) = (err, (d1, w1))" by (metis prod.exhaust)
  have inv1: "id_namespace d1 = ns \<and> id_name d1 = name \<and> scaled_inv c ns orig (ist_scaled (id_status d1)) w1"
    using scale_down_one_cases [OF one]
  proof (elim disjE exE conjE)
    assume "d1 = d" "object_at c w1 = object_at c w"
    then show ?thesis using inv scaled_inv_frame by metis
  next
    fix g x s
    assume k: "kind_gvk (iw_kind i) = Some g" and x: "object_at c w (g, id_namespace d, iw_name i) = Inr x"
      and s: "records s x" "sc_kind s = iw_kind i" "sc_name s = iw_name i" and d1: "d1 = append_scaled s d"
      and w1: "object_at c w1 = (object_at c w)((g, id_namespace d, iw_name i) := Inr (down_version x))"
    have "\<forall>s' \<in> set (ist_scaled (id_status d)). \<not> (sc_kind s' = sc_kind s \<and> sc_name s' = sc_name s)"
      using False s by (auto simp: already_scaled_def list_ex_iff)
    then have "scaled_inv c ns orig (ist_scaled (id_status d) @ [s]) w1"
      using inv k x s w1 by (intro scaled_inv_append [where g = g and x = x and w = w]) auto
    then show ?thesis using inv d1 by (simp add: append_scaled_def)
  qed
  show ?thesis
  proof (cases err)
    case (Some e)
    with run one False inv1 show ?thesis by (simp add: scale_down_step_def)
  next
    case None
    obtain a w2 where u: "ik_update_status c d1 w1 = (a, w2)" by fastforce
    have fr: "object_at c w2 = object_at c w1" by (rule status_frame [OF u])
    show ?thesis
    proof (cases a)
      case (Inl e)
      with run one False None u have "d' = d1" "w' = w2" by (simp_all add: scale_down_step_def)
      then show ?thesis using inv1 scaled_inv_frame fr by metis
    next
      case (Inr d2)
      with run one False None u have "d' = idle_stored d1" "w' = w2"
        using status_answer [of d1 w1 d2 w2] by (simp_all add: scale_down_step_def)
      moreover have "scaled_inv c ns orig (ist_scaled (id_status (idle_stored d1))) w2"
        using inv1 scaled_inv_stored scaled_inv_frame [OF _ fr] by (metis idle_stored_simps(6))
      ultimately show ?thesis using inv1 by simp
    qed
  qed
qed

lemma scale_down_inv:
  assumes inv: "scaled_inv c (id_namespace d) orig (ist_scaled (id_status d)) w"
    and run: "scale_down_idle_workloads c dur (d, w) = (r, (d', w'))"
  shows "id_namespace d' = id_namespace d \<and> id_name d' = id_name d \<and> scaled_inv c (id_namespace d) orig (ist_scaled (id_status d')) w'"
proof -
  obtain now w1 where now: "ik_now c w = (now, w1)" by fastforce
  have "scaled_inv c (id_namespace d) orig (ist_scaled (id_status d)) w1"
    using inv now_ok [OF now] scaled_inv_frame by metis
  with inv have P0: "id_namespace (fst (d, w1)) = id_namespace d \<and> id_name (fst (d, w1)) = id_name d \<and>
      scaled_inv c (id_namespace d) orig (ist_scaled (id_status (fst (d, w1)))) (snd (d, w1))" by simp
  have steps: "run_steps (map (scale_down_step c dur now) (ist_idle (id_status d))) (d, w1) = (r, (d', w'))"
    using run now by (simp add: scale_down_idle_workloads_def)
  have "id_namespace (fst s') = id_namespace d \<and> id_name (fst s') = id_name d \<and>
      scaled_inv c (id_namespace d) orig (ist_scaled (id_status (fst s'))) (snd s')"
    if "f \<in> set (map (scale_down_step c dur now) (ist_idle (id_status d)))"
      and P: "id_namespace (fst s) = id_namespace d \<and> id_name (fst s) = id_name d \<and>
        scaled_inv c (id_namespace d) orig (ist_scaled (id_status (fst s))) (snd s)"
      and "f s = (r, s')" for f s r s'
  proof -
    from that obtain i where "scale_down_step c dur now i (fst s, snd s) = (r, (fst s', snd s'))" by auto
    then show ?thesis by (rule scale_down_step_inv [OF P])
  qed
  from run_steps_invariant [where P = "\<lambda>st. id_namespace (fst st) = id_namespace d \<and> id_name (fst st) = id_name d \<and>
      scaled_inv c (id_namespace d) orig (ist_scaled (id_status (fst st))) (snd st)", OF this P0 steps]
  show ?thesis by simp
qed

end

section \<open>Restoring brings everything back\<close>

text \<open>
  A restored CronJob has an explicit suspend flag. A workload is as before when it is equal, or
  differs in an absent and a false suspend flag only.
\<close>

definition up_version :: "kobj \<Rightarrow> kobj" where
  "up_version x = (case ko_body x of Cron b \<Rightarrow> x\<lparr>ko_body := Cron (Some False)\<rparr> | _ \<Rightarrow> x)"

definition as_before :: "kerr + kobj \<Rightarrow> kerr + kobj \<Rightarrow> bool" where
  "as_before before now \<longleftrightarrow> now = before \<or> (\<exists>x y. before = Inr x \<and> now = Inr y \<and> same_state y x)"

text \<open>
  What restoring keeps: a workload with an entry is down or restored already, and the entry
  records it; one without is as before.
\<close>

definition restore_inv :: "scaled_workload option \<Rightarrow> kerr + kobj \<Rightarrow> kerr + kobj \<Rightarrow> bool" where
  "restore_inv entry before now \<longleftrightarrow>
     (case entry of
        None \<Rightarrow> as_before before now
      | Some s \<Rightarrow> \<exists>x. before = Inr x \<and> records s x \<and> (now = Inr (down_version x) \<or> now = Inr (up_version x)))"

definition restorable ::
  "'w idle_kube \<Rightarrow> string \<Rightarrow> (gvk \<times> string \<times> string \<Rightarrow> kerr + kobj) \<Rightarrow> scaled_workload list \<Rightarrow> 'w \<Rightarrow> bool" where
  "restorable c ns orig ss w \<longleftrightarrow>
     distinct (map (\<lambda>s. (sc_kind s, sc_name s)) ss) \<and>
     (\<forall>k. restore_inv (entry_for ss ns k) (orig k) (object_at c w k))"

lemma restorableD:
  "restorable c ns orig ss w \<Longrightarrow> distinct (map (\<lambda>s. (sc_kind s, sc_name s)) ss)"
  "restorable c ns orig ss w \<Longrightarrow> restore_inv (entry_for ss ns k) (orig k) (object_at c w k)"
  unfolding restorable_def by blast+

lemma restorableI:
  "distinct (map (\<lambda>s. (sc_kind s, sc_name s)) ss) \<Longrightarrow>
   (\<And>k. restore_inv (entry_for ss ns k) (orig k) (object_at c w k)) \<Longrightarrow> restorable c ns orig ss w"
  unfolding restorable_def by blast

lemma restorable_frame: "restorable c ns orig ss w \<Longrightarrow> object_at c w' = object_at c w \<Longrightarrow> restorable c ns orig ss w'"
  unfolding restorable_def by metis

lemma restorable_stored:
  assumes "restorable c ns orig ss w"
  shows "restorable c ns orig (map (\<lambda>s. s\<lparr>sc_at := f (sc_at s)\<rparr>) ss) w"
proof (rule restorableI)
  show "distinct (map (\<lambda>s. (sc_kind s, sc_name s)) (map (\<lambda>s. s\<lparr>sc_at := f (sc_at s)\<rparr>) ss))"
    using restorableD(1) [OF assms] by (simp add: comp_def)
  fix k
  show "restore_inv (entry_for (map (\<lambda>s. s\<lparr>sc_at := f (sc_at s)\<rparr>) ss) ns k) (orig k) (object_at c w k)"
    using restorableD(2) [OF assms, of k] unfolding entry_for_stored
    by (cases "entry_for ss ns k") (simp_all add: restore_inv_def)
qed

lemma up_version_before: "records s x \<Longrightarrow> as_before (Inr x) (Inr (up_version x))"
  by (cases "ko_body x") (simp_all add: as_before_def up_version_def records_def same_state_body same_body_def)

lemma scaled_inv_restorable: "scaled_inv c ns orig ss w \<Longrightarrow> restorable c ns orig ss w"
proof (rule restorableI)
  assume inv: "scaled_inv c ns orig ss w"
  then show "distinct (map (\<lambda>s. (sc_kind s, sc_name s)) ss)" by (rule scaled_invD)
  fix k
  show "restore_inv (entry_for ss ns k) (orig k) (object_at c w k)"
    using scaled_invD(2) [OF inv, of k]
    by (cases "entry_for ss ns k") (auto simp: restore_inv_def key_inv_def as_before_def)
qed

lemma entry_for_Cons:
  "entry_for (s # ss) ns k =
     (if kind_gvk (sc_kind s) = Some (fst k) \<and> ns = fst (snd k) \<and> sc_name s = snd (snd k) then Some s
      else entry_for ss ns k)"
  by (simp add: entry_for_def)

lemma entry_for_later:
  assumes "distinct (map (\<lambda>s. (sc_kind s, sc_name s)) (s # ss))" "kind_gvk (sc_kind s) = Some g"
  shows "entry_for ss ns (g, ns, sc_name s) = None"
  using assms by (auto simp: entry_for_def find_None_iff image_iff dest: kind_gvk_inj)

context idle_api
begin

text \<open>One restore touches its own workload only, and that not when it fails.\<close>

lemma restore_one_frame:
  assumes "restore_one c ns s w = ((err, ok), w1)"
    and "kind_gvk (sc_kind s) \<noteq> Some (fst k) \<or> ns \<noteq> fst (snd k) \<or> sc_name s \<noteq> snd (snd k) \<or> err \<noteq> None"
  shows "object_at c w1 k = object_at c w k"
proof -
  have upd: "object_at c w1 k = object_at c w k"
    if g: "kind_gvk (sc_kind s) = Some g" and get: "k_get (ik_objects c) g ns (sc_name s) w = Inr x"
      and u: "k_update (ik_objects c) (x\<lparr>ko_body := b\<rparr>) w = (err, w1)" for g x b
  proof (cases err)
    case None
    with u have w1: "object_at c w1 = (object_at c w)(ko_key x := Inr (x\<lparr>ko_body := b\<rparr>))" using update_ok by force
    show ?thesis using get_key [OF get] assms(2) None g by (cases k) (auto simp: w1)
  next
    case (Some e)
    with u update_failed show ?thesis by metis
  qed
  have "w1 = w \<or> (\<exists>x b. kind_gvk (sc_kind s) \<noteq> None \<and>
      k_get (ik_objects c) (the (kind_gvk (sc_kind s))) ns (sc_name s) w = Inr x \<and>
      k_update (ik_objects c) (x\<lparr>ko_body := b\<rparr>) w = (err, w1))"
    using assms(1)
    by (auto simp del: not_None_eq simp: restore_one_def restore_replicas_def restore_cron_job_def kind_gvk_def
        split: if_splits sum.splits option.splits body.splits prod.splits)
  then show ?thesis using upd by auto
qed

lemma restore_one_restores:
  assumes g: "kind_gvk (sc_kind s) = Some g" and r: "records s x"
    and k: "object_at c w (g, ns, sc_name s) = Inr y" "y = down_version x \<or> y = up_version x"
    and run: "restore_one c ns s w = ((err, ok), w1)"
  shows "ok \<and> err = None \<and> object_at c w1 (g, ns, sc_name s) = Inr (up_version x) \<or>
    \<not> ok \<and> err \<noteq> None \<and> object_at c w1 (g, ns, sc_name s) = Inr y"
proof (cases "err = None")
  case False
  then have "object_at c w1 (g, ns, sc_name s) = Inr y"
    using restore_one_frame [OF run, of "(g, ns, sc_name s)"] k(1) by simp
  moreover have "\<not> ok"
    using run False
    by (auto simp: restore_one_def restore_replicas_def restore_cron_job_def
        split: if_splits sum.splits option.splits body.splits prod.splits)
  ultimately show ?thesis using False by simp
next
  case True
  have get: "k_get (ik_objects c) g ns (sc_name s) w = Inr y" using k(1) by (simp add: object_at_def)
  have key: "ko_key x = (g, ns, sc_name s)"
    using get_key [OF get] k(2) by (auto simp: down_version_def up_version_def split: body.splits)
  have "ok \<and> k_update (ik_objects c) (up_version x) w = (None, w1)"
  proof (cases "ko_body x")
    case (Scalable n sel)
    with r obtain m where kind: "sc_kind s \<in> {''Deployment'', ''StatefulSet''}" and m: "n = Some m" "sc_replicas s = Some m"
      by (auto simp: records_def)
    have "restore_replicas c ns g s w = ((None, ok), w1)"
      using run kind g True by (auto simp: restore_one_def kind_gvk_def)
    moreover have "y\<lparr>ko_body := Scalable (Some m) sel\<rparr> = up_version x \<and> (\<exists>a. ko_body y = Scalable a sel)"
      using k(2) Scalable m by (auto simp: down_version_def up_version_def)
    ultimately show ?thesis using get m by (auto simp: restore_replicas_def split: prod.splits option.splits)
  next
    case (Cron b)
    with r have kind: "sc_kind s = ''CronJob''" and b: "sc_suspend s = Some False" by (auto simp: records_def)
    have "restore_cron_job c ns s w = ((None, ok), w1)" using run kind True by (simp add: restore_one_def)
    moreover have "y\<lparr>ko_body := Cron (Some False)\<rparr> = up_version x \<and> (\<exists>a. ko_body y = Cron a)"
      using k(2) Cron by (auto simp: down_version_def up_version_def)
    moreover have "g = cron_job_gvk" using g kind by (simp add: kind_gvk_def)
    ultimately show ?thesis using get b by (auto simp: restore_cron_job_def split: prod.splits option.splits)
  next
    case (Custom j)
    with r show ?thesis by (simp add: records_def)
  qed
  moreover have "ko_key (up_version x) = (g, ns, sc_name s)"
    using key by (simp add: up_version_def split: body.splits)
  ultimately show ?thesis using True update_ok [of "up_version x" w w1] by simp
qed

text \<open>The loop, seen at one key.\<close>

lemma restore_loop_at:
  assumes "distinct (map (\<lambda>s. (sc_kind s, sc_name s)) ss)" "restore_loop c ns ss w = ((remaining, err), w')"
  shows "(entry_for ss ns k = None \<longrightarrow> object_at c w' k = object_at c w k \<and> entry_for remaining ns k = None) \<and>
    (\<forall>s x y. entry_for ss ns k = Some s \<longrightarrow> records s x \<longrightarrow> object_at c w k = Inr y \<longrightarrow>
       y = down_version x \<or> y = up_version x \<longrightarrow>
       entry_for remaining ns k = None \<and> object_at c w' k = Inr (up_version x) \<or>
       entry_for remaining ns k = Some s \<and> err \<noteq> None \<and> object_at c w' k = Inr y)"
  using assms
proof (induction ss arbitrary: w remaining err)
  case Nil
  then show ?case by (simp add: entry_for_def)
next
  case (Cons s ss)
  obtain e ok w1 where one: "restore_one c ns s w = ((e, ok), w1)" by (metis prod.exhaust)
  obtain rem1 last1 w2 where rest: "restore_loop c ns ss w1 = ((rem1, last1), w2)" by (metis prod.exhaust)
  have eq: "w2 = w'" "remaining = (if ok then rem1 else s # rem1)" "err = (case last1 of None \<Rightarrow> e | Some x \<Rightarrow> Some x)"
    using Cons.prems(2) one rest by auto
  have "distinct (map (\<lambda>s. (sc_kind s, sc_name s)) ss)" using Cons.prems(1) by simp
  note ih = Cons.IH [OF this rest [unfolded eq(1)]]
  show ?case
  proof (cases "kind_gvk (sc_kind s) = Some (fst k) \<and> ns = fst (snd k) \<and> sc_name s = snd (snd k)")
    case False
    then have o: "object_at c w1 k = object_at c w k" by (intro restore_one_frame [OF one]) auto
    have e: "entry_for (s # ss) ns k = entry_for ss ns k" "entry_for remaining ns k = entry_for rem1 ns k"
      using False by (auto simp: entry_for_Cons eq(2))
    have err: "last1 \<noteq> None \<Longrightarrow> err \<noteq> None" by (auto simp: eq(3))
    show ?thesis unfolding e using ih [unfolded o] err by blast
  next
    case True
    then have g: "kind_gvk (sc_kind s) = Some (fst k)" and k: "k = (fst k, ns, sc_name s)" by (cases k; simp)+
    have none: "entry_for ss ns k = None" using entry_for_later [OF Cons.prems(1) g, of ns] k by simp
    with ih have later: "object_at c w' k = object_at c w1 k" "entry_for rem1 ns k = None" by blast+
    have first: "entry_for (s # ss) ns k = Some s" using True by (simp add: entry_for_Cons)
    have "entry_for remaining ns k = None \<and> object_at c w' k = Inr (up_version x) \<or>
        entry_for remaining ns k = Some s \<and> err \<noteq> None \<and> object_at c w' k = Inr y"
      if r: "records s x" and y: "object_at c w k = Inr y" "y = down_version x \<or> y = up_version x" for x y
    proof -
      have "object_at c w (fst k, ns, sc_name s) = Inr y" using y(1) k by simp
      from restore_one_restores [OF g r this y(2) one]
      show ?thesis
      proof (elim disjE conjE)
        assume "ok" "object_at c w1 (fst k, ns, sc_name s) = Inr (up_version x)"
        then show ?thesis using later eq(2) k by simp
      next
        assume "\<not> ok" "e \<noteq> None" "object_at c w1 (fst k, ns, sc_name s) = Inr y"
        then show ?thesis using later eq(2,3) k True by (auto simp: entry_for_Cons split: option.splits)
      qed
    qed
    then show ?thesis using first by simp
  qed
qed

lemma restore_loop_distinct:
  assumes "restore_loop c ns ss w = ((remaining, err), w')" "distinct (map f ss)"
  shows "distinct (map f remaining) \<and> set remaining \<subseteq> set ss"
  using assms
proof (induction ss arbitrary: w remaining err)
  case Nil
  then show ?case by simp
next
  case (Cons s ss)
  obtain e ok w1 where one: "restore_one c ns s w = ((e, ok), w1)" by (metis prod.exhaust)
  obtain rem1 last1 w2 where rest: "restore_loop c ns ss w1 = ((rem1, last1), w2)" by (metis prod.exhaust)
  from Cons.prems(1) one rest have "w2 = w'" "remaining = (if ok then rem1 else s # rem1)" by auto
  then show ?case using Cons.IH [of w1 rem1 last1] rest Cons.prems(2) by auto
qed

lemma restore_loop_get:
  assumes "restore_loop c ns ss w = ((remaining, err), w')"
  shows "ik_get c ms m w' = ik_get c ms m w"
  using assms
proof (induction ss arbitrary: w remaining err)
  case Nil
  then show ?case by simp
next
  case (Cons s ss)
  obtain e ok w1 where one: "restore_one c ns s w = ((e, ok), w1)" by (metis prod.exhaust)
  obtain rem1 last1 w2 where rest: "restore_loop c ns ss w1 = ((rem1, last1), w2)" by (metis prod.exhaust)
  from Cons.prems one rest have "w2 = w'" by auto
  moreover have "ik_get c ms m w1 = ik_get c ms m w"
    using one
    by (auto simp: restore_one_def restore_replicas_def restore_cron_job_def
        split: if_splits sum.splits option.splits body.splits prod.splits dest: workload_frame)
  ultimately show ?case using Cons.IH [of w1 rem1 last1] rest by simp
qed

text \<open>
  A restore keeps the invariant, with the entries that remain and with the old ones, and
  leaves everything as before when it ends without error.
\<close>

lemma restore_loop_inv:
  assumes inv: "restorable c ns orig ss w" and run: "restore_loop c ns ss w = ((remaining, err), w')"
  shows "restorable c ns orig remaining w'" "restorable c ns orig ss w'"
    "err = None \<Longrightarrow> as_before (orig k) (object_at c w' k)"
proof -
  note at = restore_loop_at [OF restorableD(1) [OF inv] run]
  have all: "restore_inv (entry_for remaining ns k) (orig k) (object_at c w' k) \<and>
      restore_inv (entry_for ss ns k) (orig k) (object_at c w' k) \<and>
      (err = None \<longrightarrow> as_before (orig k) (object_at c w' k))" for k
  proof (cases "entry_for ss ns k")
    case None
    with at [of k] restorableD(2) [OF inv, of k] show ?thesis by (simp add: restore_inv_def)
  next
    case (Some s)
    with restorableD(2) [OF inv, of k] obtain x y where
      xy: "orig k = Inr x" "records s x" "object_at c w k = Inr y" "y = down_version x \<or> y = up_version x"
      by (auto simp: restore_inv_def)
    from at [of k] Some xy have "entry_for remaining ns k = None \<and> object_at c w' k = Inr (up_version x) \<or>
       entry_for remaining ns k = Some s \<and> err \<noteq> None \<and> object_at c w' k = Inr y" by blast
    then show ?thesis using Some xy up_version_before [OF xy(2)] by (auto simp: restore_inv_def)
  qed
  show "restorable c ns orig remaining w'"
    using all restore_loop_distinct [OF run restorableD(1) [OF inv]] by (intro restorableI) blast+
  show "restorable c ns orig ss w'" using all restorableD(1) [OF inv] by (intro restorableI) blast+
  show "err = None \<Longrightarrow> as_before (orig k) (object_at c w' k)" using all by blast
qed

end

text \<open>
  Scaling down and restoring cancel out: after a run of scaling down from a clean status,
  whatever its outcome, a restore without error brings every workload of the cluster back to
  what it was, up to a suspend flag that was absent and is now false.
\<close>

theorem restore_undoes_scale_down:
  assumes api: "idle_api c" and clean: "ist_scaled (id_status d) = []"
    and down: "scale_down_idle_workloads c dur (d, w) = (r, (d1, w1))"
    and up: "restore_scaled_workloads c (d1, w1) = (None, (d2, w2))"
  shows "as_before (object_at c w k) (object_at c w2 k)"
proof -
  have "scaled_inv c (id_namespace d) (object_at c w) (ist_scaled (id_status d)) w"
    unfolding clean by (rule scaled_inv_start)
  from idle_api.scale_down_inv [OF api this down]
  have ns: "id_namespace d1 = id_namespace d"
    and inv: "restorable c (id_namespace d) (object_at c w) (ist_scaled (id_status d1)) w1"
    by (blast intro: scaled_inv_restorable)+
  obtain remaining where "restore_loop c (id_namespace d) (ist_scaled (id_status d1)) w1 = ((remaining, None), w2)"
    using up ns by (auto simp: restore_scaled_workloads_def split: prod.splits)
  from idle_api.restore_loop_inv(3) [OF api inv this refl] show ?thesis .
qed

section \<open>Restores that fail\<close>

context idle_api
begin

text \<open>A workload that cannot be read stays so while others are restored.\<close>

lemma restore_one_unreadable:
  assumes "object_at c w k = Inl e" "restore_one c ns s w = ((err, ok), w1)"
  shows "object_at c w1 k = Inl e"
proof (cases "kind_gvk (sc_kind s) = Some (fst k) \<and> ns = fst (snd k) \<and> sc_name s = snd (snd k)")
  case False
  then show ?thesis using restore_one_frame [OF assms(2), of k] assms(1) by auto
next
  case True
  then have "k_get (ik_objects c) (fst k) ns (sc_name s) w = Inl e"
    using assms(1) by (simp add: object_at_def case_prod_beta)
  with True assms(2) have "w1 = w"
    by (auto simp: restore_one_def restore_replicas_def restore_cron_job_def kind_gvk_def split: if_splits)
  with assms(1) show ?thesis by simp
qed

lemma restore_loop_unreadable:
  assumes "s \<in> set ss" "kind_gvk (sc_kind s) = Some g" "object_at c w (g, ns, sc_name s) = Inl e"
  shows "\<exists>err remaining w'. restore_loop c ns ss w = ((remaining, Some err), w') \<and> s \<in> set remaining"
  using assms
proof (induction ss arbitrary: w)
  case Nil
  then show ?case by simp
next
  case (Cons a ss)
  obtain err ok w1 where one: "restore_one c ns a w = ((err, ok), w1)" by (metis prod.exhaust)
  show ?case
  proof (cases "s \<in> set ss")
    case True
    from restore_one_unreadable [OF Cons.prems(3) one] Cons.IH [OF True Cons.prems(2)] one
    show ?thesis by fastforce
  next
    case False
    with Cons.prems have a: "a = s" by simp
    have "k_get (ik_objects c) g ns (sc_name s) w = Inl e" using Cons.prems(3) by (simp add: object_at_def)
    then have "restore_one c ns s w = ((Some e, False), w)"
      using Cons.prems(2)
      by (auto simp: restore_one_def restore_replicas_def restore_cron_job_def kind_gvk_def split: if_splits)
    moreover obtain rem1 last1 w2 where "restore_loop c ns ss w = ((rem1, last1), w2)" by (metis prod.exhaust)
    ultimately show ?thesis by (cases last1) (simp_all add: a)
  qed
qed

end

end
