(* ===== verification/Idle_Resize.thy ===== *)
theory Idle_Resize
  imports Idle_Scale
begin

text \<open>
  The idle detector, third part: lowering the requests of the pods of idle workloads in place,
  and restoring them when a workload is no longer idle or the detector is deleted.
\<close>

section \<open>The target\<close>

definition buffer_percent :: "idle_detector \<Rightarrow> int" where
  "buffer_percent d =
     (case ids_resize (id_spec d) of
        None \<Rightarrow> 25
      | Some r \<Rightarrow> (case rz_buffer r of None \<Rightarrow> 25 | Some b \<Rightarrow> b))"

text \<open>The floors, 50m and 64Mi where none is given.\<close>

definition min_requests_of :: "idle_detector \<Rightarrow> quantity \<times> quantity" where
  "min_requests_of d =
     (let dflt = (50 * 1000000, 64 * 1024 * 1024 * 1000000000) in
      case ids_resize (id_spec d) of
        None \<Rightarrow> dflt
      | Some r \<Rightarrow>
          (case rz_min r of
             None \<Rightarrow> dflt
           | Some m \<Rightarrow>
               (case mr_cpu m of None \<Rightarrow> fst dflt | Some q \<Rightarrow> q,
                case mr_mem m of None \<Rightarrow> snd dflt | Some q \<Rightarrow> q)))"

text \<open>The requests of the containers, a later one over an earlier one.\<close>

fun capture_requests :: "container list \<Rightarrow> requests \<Rightarrow> requests" where
  "capture_requests [] r = r"
| "capture_requests (c # cs) r =
     capture_requests cs
       \<lparr>rq_cpu = (case ct_cpu c of Some q \<Rightarrow> Some q | None \<Rightarrow> rq_cpu r),
        rq_mem = (case ct_mem c of Some q \<Rightarrow> Some q | None \<Rightarrow> rq_mem r)\<rparr>"

definition original_requests :: "pod \<Rightarrow> requests" where
  "original_requests p = capture_requests (p_containers p) \<lparr>rq_cpu = None, rq_mem = None\<rparr>"

text \<open>
  One resource, in \<open>int64\<close> arithmetic: the average over the pods with metrics, the buffer,
  the floor and the cap at the original request.
\<close>

definition resize_target :: "int \<Rightarrow> int \<Rightarrow> int \<Rightarrow> int \<Rightarrow> int option \<Rightarrow> int" where
  "resize_target usage pods buffer least cap =
     (let avg = go_div usage pods;
          t = go_div (s64 (avg * s32 (100 + buffer))) 100;
          t1 = (if t < least then least else t)
      in (case cap of None \<Rightarrow> t1 | Some q \<Rightarrow> if q < t1 then q else t1))"

definition target_requests :: "idle_detector \<Rightarrow> requests \<Rightarrow> pod_metrics list \<Rightarrow> int \<times> int" where
  "target_requests d orig ms =
     (let (cpu, mem) = total_usage ms (0, 0);
          (min_cpu, min_mem) = min_requests_of d;
          n = int (length ms)
      in (resize_target (milli_value cpu) n (buffer_percent d) (milli_value min_cpu)
            (map_option milli_value (rq_cpu orig)),
          resize_target (whole_value mem) n (buffer_percent d) (whole_value min_mem)
            (map_option whole_value (rq_mem orig))))"

text \<open>\<open>NewMilliQuantity\<close> and \<open>NewQuantity\<close>.\<close>

definition milli_quantity :: "int \<Rightarrow> quantity" where
  "milli_quantity m = m * 1000000"

definition whole_quantity :: "int \<Rightarrow> quantity" where
  "whole_quantity n = n * 1000000000"

section \<open>Patching pods\<close>

definition needs_resize :: "quantity \<Rightarrow> quantity \<Rightarrow> pod \<Rightarrow> bool" where
  "needs_resize cpu mem p =
     list_ex (\<lambda>c. (case ct_cpu c of None \<Rightarrow> False | Some q \<Rightarrow> cpu < q) \<or>
                  (case ct_mem c of None \<Rightarrow> False | Some q \<Rightarrow> mem < q)) (p_containers p)"

definition set_requests :: "quantity \<Rightarrow> quantity \<Rightarrow> pod \<Rightarrow> pod" where
  "set_requests cpu mem p =
     p\<lparr>p_containers := map (\<lambda>c. c\<lparr>ct_cpu := Some cpu, ct_mem := Some mem\<rparr>) (p_containers p)\<rparr>"

text \<open>The loop over the pods of a workload: how many were patched. A failure skips a pod.\<close>

fun resize_pods :: "'w idle_kube \<Rightarrow> quantity \<Rightarrow> quantity \<Rightarrow> pod list \<Rightarrow> int \<Rightarrow> 'w \<Rightarrow> int \<times> 'w" where
  "resize_pods c cpu mem [] n w = (n, w)"
| "resize_pods c cpu mem (p # ps) n w =
     (if \<not> needs_resize cpu mem p then resize_pods c cpu mem ps n w
      else (case ik_patch_pod c p (set_requests cpu mem p) w of
              (Some e, w1) \<Rightarrow> resize_pods c cpu mem ps n w1
            | (None, w1) \<Rightarrow> resize_pods c cpu mem ps (s32 (n + 1)) w1))"

definition restore_requests :: "requests \<Rightarrow> pod \<Rightarrow> pod" where
  "restore_requests r p =
     p\<lparr>p_containers :=
         map (\<lambda>c. c\<lparr>ct_cpu := (case rq_cpu r of Some q \<Rightarrow> Some q | None \<Rightarrow> ct_cpu c),
                    ct_mem := (case rq_mem r of Some q \<Rightarrow> Some q | None \<Rightarrow> ct_mem c)\<rparr>) (p_containers p)\<rparr>"

definition restore_pod_requests ::
  "idle_env \<Rightarrow> 'w idle_kube \<Rightarrow> string \<Rightarrow> resized_workload \<Rightarrow> 'w \<Rightarrow> kerr option \<times> 'w" where
  "restore_pod_requests env c ns r w =
     (case get_pods_for_workload env c (rw_kind r) (rw_name r) ns w of
        Inl e \<Rightarrow> (Some e, w)
      | Inr ps \<Rightarrow> run_steps (map (\<lambda>p. ik_patch_pod c p (restore_requests (rw_original r) p)) ps) w)"

section \<open>Resizing idle workloads\<close>

text \<open>What ends the loop: an error, or the use of the missing metrics client, a panic.\<close>

datatype stop = Failed kerr | Crashed

definition append_resized :: "resized_workload \<Rightarrow> idle_detector \<Rightarrow> idle_detector" where
  "append_resized r d = d\<lparr>id_status := (id_status d)\<lparr>ist_resized := ist_resized (id_status d) @ [r]\<rparr>\<rparr>"

definition already_resized :: "idle_detector \<Rightarrow> idle_workload \<Rightarrow> bool" where
  "already_resized d i =
     list_ex (\<lambda>r. rw_kind r = iw_kind i \<and> rw_name r = iw_name i) (ist_resized (id_status d))"

text \<open>The body of the loop once pods and metrics are there.\<close>

definition resize_workload ::
  "'w idle_kube \<Rightarrow> idle_detector \<Rightarrow> idle_workload \<Rightarrow> pod list \<Rightarrow> pod_metrics list \<Rightarrow> 'w idle_st \<Rightarrow>
   stop option \<times> 'w idle_st" where
  "resize_workload c cfg i pods ms st =
     (case st of (d, w) \<Rightarrow>
        let orig = original_requests (hd pods);
            (cpu_millis, mem_bytes) = target_requests cfg orig ms;
            cpu = milli_quantity cpu_millis;
            mem = whole_quantity mem_bytes
        in (case resize_pods c cpu mem pods 0 w of (n, w1) \<Rightarrow>
              if 0 < n then
                (case ik_now c w1 of (now, w2) \<Rightarrow>
                   let d1 = append_resized
                         \<lparr>rw_kind = iw_kind i, rw_name = iw_name i, rw_original = orig,
                          rw_current = \<lparr>rq_cpu = Some cpu, rq_mem = Some mem\<rparr>, rw_at = now, rw_pods = n\<rparr> d
                   in (case ik_update_status c d1 w2 of
                         (Inl e, w3) \<Rightarrow> (Some (Failed e), (d1, w3))
                       | (Inr d2, w3) \<Rightarrow> (None, (d2, w3))))
              else (None, (d, w1))))"

text \<open>\<open>cfg\<close> is the detector at the start, from which the configuration is read.\<close>

definition resize_step ::
  "idle_env \<Rightarrow> 'w idle_kube \<Rightarrow> duration \<Rightarrow> instant \<Rightarrow> idle_detector \<Rightarrow> idle_workload \<Rightarrow> 'w idle_st \<Rightarrow>
   stop option \<times> 'w idle_st" where
  "resize_step env c dur now cfg i st =
     (case st of (d, w) \<Rightarrow>
        if iw_kind i = ''CronJob'' then (None, st)
        else if time_sub now (iw_since i) < dur then (None, st)
        else if already_resized d i then (None, st)
        else (case get_pods_for_workload env c (iw_kind i) (iw_name i) (id_namespace d) w of
                Inl e \<Rightarrow> (None, st)
              | Inr pods \<Rightarrow>
                  if pods = [] then (None, st)
                  else (case ik_metrics c of
                          None \<Rightarrow> (Some Crashed, st)
                        | Some metrics \<Rightarrow>
                            (case metrics (id_namespace d) w of
                               Inl e \<Rightarrow> (None, st)
                             | Inr ms \<Rightarrow>
                                 if metrics_of pods ms = [] then (None, st)
                                 else resize_workload c cfg i pods (metrics_of pods ms) st))))"

text \<open>The loop that restores what is no longer idle; a failure keeps the entry.\<close>

fun restore_resized_loop ::
  "idle_env \<Rightarrow> 'w idle_kube \<Rightarrow> string \<Rightarrow> (resized_workload \<Rightarrow> bool) \<Rightarrow> resized_workload list \<Rightarrow> 'w \<Rightarrow>
   (resized_workload list \<times> kerr option) \<times> 'w" where
  "restore_resized_loop env c ns keep [] w = (([], None), w)"
| "restore_resized_loop env c ns keep (r # rs) w =
     (if keep r then
        (case restore_resized_loop env c ns keep rs w of
           ((remaining, final), w1) \<Rightarrow> ((r # remaining, final), w1))
      else
        (case restore_pod_requests env c ns r w of
           (err, w1) \<Rightarrow>
             (case restore_resized_loop env c ns keep rs w1 of
                ((remaining, final), w2) \<Rightarrow>
                  ((if err = None then remaining else r # remaining,
                    case final of None \<Rightarrow> err | Some e \<Rightarrow> Some e), w2))))"

definition set_resized :: "resized_workload list \<Rightarrow> idle_detector \<Rightarrow> idle_detector" where
  "set_resized rs d = d\<lparr>id_status := (id_status d)\<lparr>ist_resized := rs\<rparr>\<rparr>"

definition idle_key :: "string \<Rightarrow> string \<Rightarrow> string" where
  "idle_key kind name = kind @ ''/'' @ name"

definition restore_no_longer_idle ::
  "idle_env \<Rightarrow> 'w idle_kube \<Rightarrow> 'w idle_st \<Rightarrow> kerr option \<times> 'w idle_st" where
  "restore_no_longer_idle env c st =
     (case st of (d, w) \<Rightarrow>
        let idle = map (\<lambda>i. idle_key (iw_kind i) (iw_name i)) (ist_idle (id_status d)) in
        (case restore_resized_loop env c (id_namespace d)
                (\<lambda>r. List.member idle (idle_key (rw_kind r) (rw_name r))) (ist_resized (id_status d)) w of
           ((remaining, final), w1) \<Rightarrow>
             (case ik_update_status c (set_resized remaining d) w1 of
                (Inl e, w2) \<Rightarrow> (Some e, (set_resized remaining d, w2))
              | (Inr d2, w2) \<Rightarrow> (None, (d2, w2)))))"

definition resize_idle_workloads ::
  "idle_env \<Rightarrow> 'w idle_kube \<Rightarrow> duration \<Rightarrow> 'w idle_st \<Rightarrow> stop option \<times> 'w idle_st" where
  "resize_idle_workloads env c dur st =
     (case st of (d, w) \<Rightarrow> case ik_now c w of (now, w1) \<Rightarrow>
        (case run_steps (map (resize_step env c dur now d) (ist_idle (id_status d))) (d, w1) of
           (Some s, st1) \<Rightarrow> (Some s, st1)
         | (None, st1) \<Rightarrow>
             (case restore_no_longer_idle env c st1 of
                (Some e, st2) \<Rightarrow> (Some (Failed e), st2)
              | (None, st2) \<Rightarrow> (None, st2))))"

definition restore_resized_workloads ::
  "idle_env \<Rightarrow> 'w idle_kube \<Rightarrow> 'w idle_st \<Rightarrow> kerr option \<times> 'w idle_st" where
  "restore_resized_workloads env c st =
     (case st of (d, w) \<Rightarrow>
        case restore_resized_loop env c (id_namespace d) (\<lambda>_. False) (ist_resized (id_status d)) w of
          ((remaining, final), w1) \<Rightarrow> (final, (set_resized remaining d, w1)))"

section \<open>The target stays within bounds\<close>

lemma resize_target_in_range:
  assumes "0 \<le> usage" "0 < pods" "0 \<le> buffer" "buffer \<le> 200" "usage div pods * 300 < 2 ^ 63"
  shows "go_div (s64 (go_div usage pods * s32 (100 + buffer))) 100 = usage div pods * (100 + buffer) div 100"
proof -
  have n: "0 \<le> usage div pods" using assms by (simp add: pos_imp_zdiv_nonneg_iff)
  have "usage div pods * (100 + buffer) \<le> usage div pods * 300" using n assms by (intro mult_left_mono) simp_all
  moreover have "0 \<le> usage div pods * (100 + buffer)" using n assms by simp
  ultimately show ?thesis
    using assms by (simp add: go_div_nonneg s32_id s64_id)
qed

text \<open>
  C39: The resize target, where nothing overflows: the average usage of the pods with the buffer
  on top, but at least the floor, and never more than the original request, even where that is
  below the floor.
\<close>

theorem resize_target_bounds:
  assumes "0 \<le> usage" "0 < pods" "0 \<le> buffer" "buffer \<le> 200" "usage div pods * 300 < 2 ^ 63"
  shows "resize_target usage pods buffer least (Some q) = min q (max least (usage div pods * (100 + buffer) div 100))"
  using resize_target_in_range [OF assms] by (simp add: resize_target_def min_def max_def Let_def)

theorem resize_target_bounds_witness:
  "resize_target 300 3 25 50 (Some 1000) = min 1000 (max 50 (300 div 3 * (100 + 25) div 100))"
  by (rule resize_target_bounds) simp_all

section \<open>What a restore of a pod gives back\<close>

lemma capture_requests_last:
  "capture_requests (cs @ [c]) r =
     \<lparr>rq_cpu = (case ct_cpu c of Some q \<Rightarrow> Some q | None \<Rightarrow> rq_cpu (capture_requests cs r)),
      rq_mem = (case ct_mem c of Some q \<Rightarrow> Some q | None \<Rightarrow> rq_mem (capture_requests cs r))\<rparr>"
  by (induction cs arbitrary: r) (simp_all split: option.split)

text \<open>
  Round trip for pods with one container that requests both CPU and memory: restoring the
  captured requests after a resize gives back the pod.
\<close>

theorem resize_roundtrip:
  assumes "p_containers p = [x]" "ct_cpu x \<noteq> None" "ct_mem x \<noteq> None"
  shows "restore_requests (original_requests p) (set_requests cpu mem p) = p"
  using assms by (cases p; cases x) (auto simp: restore_requests_def original_requests_def set_requests_def)

theorem resize_roundtrip_witness:
  "restore_requests (original_requests (sample_pod ''web-1'' [sample_container (Some 500) (Some 64)]))
     (set_requests 0 0 (sample_pod ''web-1'' [sample_container (Some 500) (Some 64)])) =
   sample_pod ''web-1'' [sample_container (Some 500) (Some 64)]"
  by (rule resize_roundtrip [where x = "sample_container (Some 500) (Some 64)"])
    (simp_all add: sample_pod_def sample_container_def)

text \<open>
  Other pods do not come back. With several containers, every container ends with the
  requests of the last one; and a container without a CPU request ends with the CPU request of
  the resize.
\<close>

theorem resize_forgets_requests:
  "(p_containers p = cs @ [x] \<longrightarrow> ct_cpu x = Some a \<longrightarrow> ct_mem x = Some b \<longrightarrow>
     (\<forall>y \<in> set (p_containers (restore_requests (original_requests p) (set_requests cpu mem p))).
        ct_cpu y = Some a \<and> ct_mem y = Some b)) \<and>
   (p_containers q = [z] \<longrightarrow> ct_cpu z = None \<longrightarrow>
     map ct_cpu (p_containers (restore_requests (original_requests q) (set_requests cpu mem q))) = [Some cpu])"
  by (auto simp: restore_requests_def original_requests_def set_requests_def capture_requests_last)

theorem resize_forgets_requests_witness:
  "map ct_cpu (p_containers (restore_requests (original_requests (sample_pod ''web-1'' [sample_container (Some 500) (Some 64), sample_container (Some 10) (Some 8)]))
     (set_requests 0 0 (sample_pod ''web-1'' [sample_container (Some 500) (Some 64), sample_container (Some 10) (Some 8)])))) =
   [Some (10 * 1000000), Some (10 * 1000000)]"
proof -
  let ?p = "sample_pod ''web-1'' [sample_container (Some 500) (Some 64), sample_container (Some 10) (Some 8)]"
  have "\<forall>y \<in> set (p_containers (restore_requests (original_requests ?p) (set_requests 0 0 ?p))).
      ct_cpu y = Some (10 * 1000000) \<and> ct_mem y = Some (8 * 1048576 * 1000000000)"
    using resize_forgets_requests [of ?p "[sample_container (Some 500) (Some 64)]" "sample_container (Some 10) (Some 8)"]
    by (simp add: sample_pod_def sample_container_def)
  then show ?thesis by (simp add: restore_requests_def set_requests_def sample_pod_def)
qed

section \<open>Resizing touches no workload\<close>

lemma same_store_refl [simp]: "same_store c w w"
  by (simp add: same_store_def)

lemma same_store_trans: "same_store c u v \<Longrightarrow> same_store c v w \<Longrightarrow> same_store c u w"
  by (simp add: same_store_def)

context idle_api
begin

lemma patch_ok: "ik_patch_pod c p q w = (e, w') \<Longrightarrow> same_store c w w'"
  using patch_store [of w p q] by simp

lemma resize_pods_store: "resize_pods c cpu mem ps n w = (m, w') \<Longrightarrow> same_store c w w'"
proof (induction ps arbitrary: n w)
  case Nil
  then show ?case by simp
next
  case (Cons p ps)
  obtain e w1 where u: "ik_patch_pod c p (set_requests cpu mem p) w = (e, w1)" by fastforce
  show ?case
  proof (cases "needs_resize cpu mem p")
    case False
    with Cons show ?thesis by simp
  next
    case True
    with Cons.prems u obtain m' where "resize_pods c cpu mem ps m' w1 = (m, w')"
      by (auto split: option.splits)
    with Cons.IH patch_ok [OF u] show ?thesis by (blast intro: same_store_trans)
  qed
qed

lemma restore_pod_requests_store:
  assumes "restore_pod_requests env c ns r w = (e, w')"
  shows "same_store c w w'"
proof (cases "get_pods_for_workload env c (rw_kind r) (rw_name r) ns w")
  case (Inl err)
  with assms show ?thesis by (simp add: restore_pod_requests_def)
next
  case (Inr ps)
  with assms have "run_steps (map (\<lambda>p. ik_patch_pod c p (restore_requests (rw_original r) p)) ps) w = (e, w')"
    by (simp add: restore_pod_requests_def)
  then show ?thesis
    by (rule run_steps_invariant [where P = "same_store c w", rotated 2])
      (auto dest: patch_ok intro: same_store_trans)
qed

lemma restore_resized_loop_store:
  "restore_resized_loop env c ns keep rs w = ((remaining, err), w') \<Longrightarrow> same_store c w w'"
proof (induction rs arbitrary: w remaining err)
  case Nil
  then show ?case by simp
next
  case (Cons r rs)
  show ?case
  proof (cases "keep r")
    case True
    with Cons show ?thesis by (auto split: prod.splits)
  next
    case False
    obtain e w1 where one: "restore_pod_requests env c ns r w = (e, w1)" by fastforce
    obtain rem1 last1 w2 where rest: "restore_resized_loop env c ns keep rs w1 = ((rem1, last1), w2)"
      by (metis prod.exhaust)
    from Cons.prems False one rest have "w2 = w'" by simp
    with Cons.IH [of w1 rem1 last1] rest restore_pod_requests_store [OF one] show ?thesis by (blast intro: same_store_trans)
  qed
qed

end

text \<open>The record of the scaled workloads, for a detector in memory.\<close>

definition keeps_record ::
  "'w idle_kube \<Rightarrow> string \<Rightarrow> string \<Rightarrow> (gvk \<times> string \<times> string \<Rightarrow> kerr + kobj) \<Rightarrow> 'w idle_st \<Rightarrow> bool" where
  "keeps_record c ns name orig st \<longleftrightarrow>
     id_namespace (fst st) = ns \<and> id_name (fst st) = name \<and>
     scaled_inv c ns orig (ist_scaled (id_status (fst st))) (snd st)"

lemma keeps_record_frame:
  "keeps_record c ns name orig (d, w) \<Longrightarrow> object_at c w' = object_at c w \<Longrightarrow>
   id_namespace d' = id_namespace d \<Longrightarrow> id_name d' = id_name d \<Longrightarrow>
   ist_scaled (id_status d') = ist_scaled (id_status d) \<Longrightarrow> keeps_record c ns name orig (d', w')"
  unfolding keeps_record_def by (auto intro: scaled_inv_frame)

lemma keeps_record_stored:
  assumes "keeps_record c ns name orig (d, w)" "object_at c w' = object_at c w"
  shows "keeps_record c ns name orig (idle_stored d, w')"
proof -
  from assms(1) have "scaled_inv c ns orig (ist_scaled (id_status d)) w" by (simp add: keeps_record_def)
  then have "scaled_inv c ns orig (ist_scaled (id_status (idle_stored d))) w'"
    unfolding idle_stored_simps using assms(2) by (intro scaled_inv_frame [OF scaled_inv_stored])
  with assms(1) show ?thesis by (simp add: keeps_record_def)
qed

context idle_api
begin

lemma resize_workload_record:
  assumes rec: "keeps_record c ns name orig (d, w)"
    and run: "resize_workload c cfg i pods ms (d, w) = (r, (d', w'))"
  shows "keeps_record c ns name orig (d', w')"
proof -
  define orq where "orq = original_requests (hd pods)"
  obtain cm mb where t: "target_requests cfg orq ms = (cm, mb)" by fastforce
  obtain n w1 where p: "resize_pods c (milli_quantity cm) (whole_quantity mb) pods 0 w = (n, w1)" by fastforce
  have o1: "object_at c w1 = object_at c w" using resize_pods_store [OF p] by (simp add: same_store_def)
  show ?thesis
  proof (cases "0 < n")
    case False
    with run t p show ?thesis
      using keeps_record_frame [OF rec o1] by (simp add: resize_workload_def orq_def [symmetric])
  next
    case True
    obtain now w2 where now: "ik_now c w1 = (now, w2)" by fastforce
    define d1 where "d1 = append_resized
      \<lparr>rw_kind = iw_kind i, rw_name = iw_name i, rw_original = orq,
       rw_current = \<lparr>rq_cpu = Some (milli_quantity cm), rq_mem = Some (whole_quantity mb)\<rparr>, rw_at = now, rw_pods = n\<rparr> d"
    obtain a w3 where u: "ik_update_status c d1 w2 = (a, w3)" by fastforce
    have o3: "object_at c w3 = object_at c w"
      using status_frame [OF u] now_ok [OF now] o1 by simp
    have rec1: "keeps_record c ns name orig (d1, w3)"
      by (rule keeps_record_frame [OF rec o3]) (simp_all add: d1_def append_resized_def)
    from run t p True now u have "d' = (case a of Inl e \<Rightarrow> d1 | Inr d2 \<Rightarrow> d2)" "w' = w3"
      by (auto simp: resize_workload_def orq_def [symmetric] d1_def Let_def split: sum.splits)
    then show ?thesis
      using rec1 u status_answer [of d1 w2 _ w3] keeps_record_stored [OF rec1 refl] by (cases a) auto
  qed
qed

lemma resize_step_record:
  assumes rec: "keeps_record c ns name orig st" and run: "resize_step env c dur now cfg i st = (r, st')"
  shows "keeps_record c ns name orig st'"
proof -
  obtain d w where st: "st = (d, w)" by fastforce
  obtain d' w' where st': "st' = (d', w')" by fastforce
  have "st' = st \<or> (\<exists>pods ms. resize_workload c cfg i pods ms st = (r, st'))"
    using run unfolding st resize_step_def
    by (auto split: if_splits sum.splits option.splits)
  then show ?thesis using rec resize_workload_record unfolding st st' by blast
qed

lemma restore_no_longer_idle_record:
  assumes rec: "keeps_record c ns name orig (d, w)" and run: "restore_no_longer_idle env c (d, w) = (r, (d', w'))"
  shows "keeps_record c ns name orig (d', w')"
proof -
  obtain remaining err w1 where l: "restore_resized_loop env c (id_namespace d)
      (\<lambda>r. List.member (map (\<lambda>i. idle_key (iw_kind i) (iw_name i)) (ist_idle (id_status d)))
             (idle_key (rw_kind r) (rw_name r))) (ist_resized (id_status d)) w = ((remaining, err), w1)"
    by (metis prod.exhaust)
  obtain a w2 where u: "ik_update_status c (set_resized remaining d) w1 = (a, w2)" by fastforce
  have o2: "object_at c w2 = object_at c w"
    using status_frame [OF u] restore_resized_loop_store [OF l] by (simp add: same_store_def)
  have rec1: "keeps_record c ns name orig (set_resized remaining d, w2)"
    by (rule keeps_record_frame [OF rec o2]) (simp_all add: set_resized_def)
  from run l u have "d' = (case a of Inl e \<Rightarrow> set_resized remaining d | Inr d2 \<Rightarrow> d2)" "w' = w2"
    by (auto simp: restore_no_longer_idle_def Let_def split: sum.splits)
  then show ?thesis
    using rec1 u status_answer [of "set_resized remaining d" w1 _ w2] keeps_record_stored [OF rec1 refl] by (cases a) auto
qed

lemma resize_record:
  assumes rec: "keeps_record c ns name orig (d, w)" and run: "resize_idle_workloads env c dur (d, w) = (r, st')"
  shows "keeps_record c ns name orig st'"
proof -
  obtain now w1 where now: "ik_now c w = (now, w1)" by fastforce
  have rec1: "keeps_record c ns name orig (d, w1)" using keeps_record_frame [OF rec now_ok [OF now]] by simp
  obtain s st1 where steps: "run_steps (map (resize_step env c dur now d) (ist_idle (id_status d))) (d, w1) = (s, st1)"
    by (metis prod.exhaust)
  have rec2: "keeps_record c ns name orig st1"
    by (rule run_steps_invariant [where P = "keeps_record c ns name orig", OF _ rec1 steps])
      (auto dest: resize_step_record)
  obtain e d2 w2 where n: "restore_no_longer_idle env c st1 = (e, (d2, w2))" by (metis prod.exhaust)
  have "keeps_record c ns name orig (d2, w2)"
    using restore_no_longer_idle_record [of ns name orig "fst st1" "snd st1"] rec2 n by simp
  with run now steps n rec2 show ?thesis
    by (auto simp: resize_idle_workloads_def split: option.splits)
qed

end

end
