(* ===== verification/Idle_Reconcile.thy ===== *)
theory Idle_Reconcile
  imports Idle_Resize
begin

text \<open>
  The idle detector, last part: \<open>Reconcile\<close>.
\<close>

section \<open>Reconcile\<close>

text \<open>Writing the status after a failure; its own error is only logged.\<close>

definition persist_anyway :: "'w idle_kube \<Rightarrow> 'w idle_st \<Rightarrow> 'w" where
  "persist_anyway c st = snd (ik_update_status c (fst st) (snd st))"

definition idle_failed :: "idle_env \<Rightarrow> 'w idle_kube \<Rightarrow> kerr \<Rightarrow> 'w idle_st \<Rightarrow> result \<times> 'w" where
  "idle_failed env c e st =
     (case st of (d, w) \<Rightarrow>
        case ik_update_status c d w of
          (Inl e1, w1) \<Rightarrow> (Done (idle_interval env d) (Some e), w1)
        | (Inr d1, w1) \<Rightarrow> (Done (idle_interval env d1) (Some e), w1))"

definition idle_delete :: "idle_env \<Rightarrow> 'w idle_kube \<Rightarrow> idle_detector \<Rightarrow> 'w \<Rightarrow> result \<times> 'w" where
  "idle_delete env c d w =
     (if \<not> id_finalizer d then (Done 0 None, w)
      else
        (case restore_scaled_workloads c (d, w) of
           (Some e, st1) \<Rightarrow> (Done 0 (Some e), persist_anyway c st1)
         | (None, st1) \<Rightarrow>
             (case restore_resized_workloads env c st1 of
                (Some e, st2) \<Rightarrow> (Done 0 (Some e), persist_anyway c st2)
              | (None, (d2, w2)) \<Rightarrow>
                  (case ik_update c (d2\<lparr>id_finalizer := False\<rparr>) w2 of
                     (Inl e, w3) \<Rightarrow> (Done 0 (Some e), w3)
                   | (Inr d3, w3) \<Rightarrow> (Done 0 None, w3)))))"

text \<open>The end of a run whose action succeeded.\<close>

definition idle_finish :: "idle_env \<Rightarrow> 'w idle_kube \<Rightarrow> 'w idle_st \<Rightarrow> result \<times> 'w" where
  "idle_finish env c st =
     (case st of (d, w) \<Rightarrow>
        case ik_update_status c d w of
          (Inl e, w1) \<Rightarrow> (Done 0 (Some e), w1)
        | (Inr d1, w1) \<Rightarrow> (Done (idle_interval env d1) None, w1))"

definition set_checked :: "idle_workload list \<Rightarrow> instant \<Rightarrow> idle_detector \<Rightarrow> idle_detector" where
  "set_checked idle now d =
     d\<lparr>id_status := (id_status d)\<lparr>ist_idle := idle, ist_last_check := Some now\<rparr>\<rparr>"

text \<open>
  After the status has the idle workloads: at most one of the two actions is taken, as an
  action has one value and nothing changes it but the answer of a status update.
\<close>

definition idle_act :: "idle_env \<Rightarrow> 'w idle_kube \<Rightarrow> duration \<Rightarrow> 'w idle_st \<Rightarrow> stop option \<times> 'w idle_st" where
  "idle_act env c dur st =
     run_steps
       [\<lambda>st. if ids_action (id_spec (fst st)) = ''scale'' then
               (case scale_down_idle_workloads c dur st of (e, st1) \<Rightarrow> (map_option Failed e, st1))
             else (None, st),
        \<lambda>st. if ids_action (id_spec (fst st)) = ''resize'' then resize_idle_workloads env c dur st
             else (None, st)] st"

definition idle_active :: "idle_env \<Rightarrow> 'w idle_kube \<Rightarrow> idle_detector \<Rightarrow> 'w \<Rightarrow> result \<times> 'w" where
  "idle_active env c d w =
     (case parse_duration (ids_duration (id_spec d)) of
        None \<Rightarrow> (Done (idle_interval env d) (Some (ErrOther ''invalid duration'')), w)
      | Some dur \<Rightarrow>
          (case detect_idle_workloads env c d w of
             (Inl e, w1) \<Rightarrow> (Done (idle_interval env d) (Some e), w1)
           | (Inr idle, w1) \<Rightarrow>
               (case ik_now c w1 of (now, w2) \<Rightarrow>
                  (case idle_act env c dur (set_checked idle now d, w2) of
                     (Some Crashed, st) \<Rightarrow> (Panic, snd st)
                   | (Some (Failed e), st) \<Rightarrow> idle_failed env c e st
                   | (None, st) \<Rightarrow> idle_finish env c st))))"

definition idle_reconcile ::
  "idle_env \<Rightarrow> 'w idle_kube \<Rightarrow> string \<Rightarrow> string \<Rightarrow> 'w \<Rightarrow> result \<times> 'w" where
  "idle_reconcile env c ns name w =
     (case ik_get c ns name w of
        Inl e \<Rightarrow> (Done 0 (ignore_not_found e), w)
      | Inr d \<Rightarrow>
          if id_deleting d then idle_delete env c d w
          else if \<not> id_finalizer d then
            (case ik_update c (d\<lparr>id_finalizer := True\<rparr>) w of
               (Inl e, w1) \<Rightarrow> (Done 0 (Some e), w1)
             | (Inr d1, w1) \<Rightarrow> idle_active env c d1 w1)
          else idle_active env c d w)"

section \<open>No panic\<close>

lemma resize_step_crash:
  "resize_step env c dur now cfg i st = (Some Crashed, st') \<Longrightarrow> ik_metrics c = None"
  by (auto simp: resize_step_def resize_workload_def Let_def split: if_splits sum.splits option.splits prod.splits)

lemma run_steps_error:
  "run_steps fs s = (Some e, s') \<Longrightarrow> \<exists>f \<in> set fs. \<exists>u u'. f u = (Some e, u')"
  by (induction fs arbitrary: s) (fastforce split: prod.splits option.splits)+

lemma resize_crash:
  assumes "resize_idle_workloads env c dur (d, w) = (Some Crashed, st')"
  shows "ik_metrics c = None \<and> ist_idle (id_status d) \<noteq> []"
proof -
  obtain now w1 where now: "ik_now c w = (now, w1)" by fastforce
  obtain s st1 where steps: "run_steps (map (resize_step env c dur now d) (ist_idle (id_status d))) (d, w1) = (s, st1)"
    by (metis prod.exhaust)
  have "s = Some Crashed"
    using assms now steps by (auto simp: resize_idle_workloads_def split: option.splits prod.splits)
  with run_steps_error steps obtain i u u' where "i \<in> set (ist_idle (id_status d))"
    "resize_step env c dur now d i u = (Some Crashed, u')" by force
  then show ?thesis using resize_step_crash [of env c dur now d i u u'] by (cases "ist_idle (id_status d)") auto
qed

lemma idle_act_crash:
  assumes "idle_act env c dur (d, w) = (Some Crashed, st')"
  shows "ik_metrics c = None \<and> ist_idle (id_status d) \<noteq> []"
proof (cases "ist_idle (id_status d) = []")
  case False
  obtain st1 where "resize_idle_workloads env c dur (fst st1, snd st1) = (Some Crashed, st')"
    using assms by (auto simp: idle_act_def split: if_splits prod.splits option.splits)
  from resize_crash [OF this] False show ?thesis by simp
next
  case True
  obtain now w1 where now: "ik_now c w = (now, w1)" by fastforce
  have "scale_down_idle_workloads c dur (d, w) = (None, (d, w1))"
    using True now by (simp add: scale_down_idle_workloads_def)
  with assms obtain w2 where "resize_idle_workloads env c dur (d, w2) = (Some Crashed, st')"
    by (auto simp: idle_act_def split: if_splits prod.splits option.splits)
  from resize_crash [OF this] show ?thesis .
qed


section \<open>The life of a detector\<close>

text \<open>The record on the server: what the stored status says about the scaled workloads.\<close>

definition record_kept ::
  "'w idle_kube \<Rightarrow> string \<Rightarrow> string \<Rightarrow> (gvk \<times> string \<times> string \<Rightarrow> kerr + kobj) \<Rightarrow> 'w \<Rightarrow> bool" where
  "record_kept c ns name orig w \<longleftrightarrow>
     (\<exists>d. ik_get c ns name w = Inr d \<and> scaled_inv c ns orig (ist_scaled (id_status d)) w)"

text \<open>A detector that is going: the deletion can be repeated.\<close>

definition deletable ::
  "'w idle_kube \<Rightarrow> string \<Rightarrow> string \<Rightarrow> (gvk \<times> string \<times> string \<Rightarrow> kerr + kobj) \<Rightarrow> 'w \<Rightarrow> bool" where
  "deletable c ns name orig w \<longleftrightarrow>
     (\<exists>d. ik_get c ns name w = Inr d \<and> id_deleting d \<and> restorable c ns orig (ist_scaled (id_status d)) w)"

context idle_api
begin

lemma idle_act_record:
  assumes rec: "keeps_record c ns name orig st" and run: "idle_act env c dur st = (r, st')"
  shows "keeps_record c ns name orig st'"
proof -
  have scale: "keeps_record c ns name orig st2"
    if "keeps_record c ns name orig st1" "scale_down_idle_workloads c dur st1 = (e, st2)" for st1 e st2
    using that scale_down_inv [of "fst st1" orig "snd st1" dur e "fst st2" "snd st2"]
    unfolding keeps_record_def by auto
  have resize: "keeps_record c ns name orig st2"
    if "keeps_record c ns name orig st1" "resize_idle_workloads env c dur st1 = (e, st2)" for st1 e st2
    using that resize_record [of ns name orig "fst st1" "snd st1"] by simp
  show ?thesis
    by (rule run_steps_invariant [where P = "keeps_record c ns name orig", OF _ rec run [unfolded idle_act_def]])
      (auto split: if_splits prod.splits dest: scale resize)
qed

lemma idle_finish_record:
  assumes rec: "keeps_record c ns name orig (d, w)" and run: "idle_finish env c (d, w) = (Done t None, w')"
  shows "record_kept c ns name orig w'"
proof -
  from run obtain d1 where u: "ik_update_status c d w = (Inr d1, w')"
    by (auto simp: idle_finish_def split: sum.splits prod.splits)
  from status_written [OF u] have d1: "d1 = idle_stored d" "object_at c w' = object_at c w"
    "ik_get c (id_namespace d) (id_name d) w' = Inr d1" by blast+
  from keeps_record_stored [OF rec d1(2)] have "keeps_record c ns name orig (d1, w')" by (simp add: d1(1))
  then show ?thesis using rec d1(3) by (auto simp: record_kept_def keeps_record_def)
qed

lemma detect_frame: "detect_idle_workloads env c d w = (r, w') \<Longrightarrow> same_store c w w'"
  using now_store [of w] by (auto simp: detect_idle_workloads_def Let_def split: prod.splits)

lemma idle_active_record:
  assumes rec: "keeps_record c ns name orig (d, w)" and run: "idle_active env c d w = (Done t None, w')"
  shows "record_kept c ns name orig w'"
proof -
  from run obtain dur idle w1 now w2 st where det: "detect_idle_workloads env c d w = (Inr idle, w1)"
    and now: "ik_now c w1 = (now, w2)" and act: "idle_act env c dur (set_checked idle now d, w2) = (None, st)"
    and fin: "idle_finish env c st = (Done t None, w')"
    by (auto simp: idle_active_def idle_failed_def split: option.splits prod.splits sum.splits stop.splits)
  have "object_at c w2 = object_at c w"
    using detect_frame [OF det] now_ok [OF now] by (simp add: same_store_def)
  then have "keeps_record c ns name orig (set_checked idle now d, w2)"
    by (rule keeps_record_frame [OF rec]) (simp_all add: set_checked_def)
  from idle_act_record [OF this act] have "keeps_record c ns name orig (fst st, snd st)" by simp
  from idle_finish_record [OF this] fin show ?thesis by simp
qed

lemma idle_reconcile_record:
  assumes get: "ik_get c ns name w = Inr d" "\<not> id_deleting d"
    and inv: "scaled_inv c ns orig (ist_scaled (id_status d)) w"
    and run: "idle_reconcile env c ns name w = (Done t None, w')"
  shows "record_kept c ns name orig w'"
proof -
  have id: "id_namespace d = ns" "id_name d = name" using get_typed [OF get(1)] by auto
  have rec: "keeps_record c ns name orig (d, w)" using id inv by (simp add: keeps_record_def)
  show ?thesis
  proof (cases "id_finalizer d")
    case True
    then have "idle_active env c d w = (Done t None, w')" using run get by (simp add: idle_reconcile_def)
    with rec show ?thesis by (rule idle_active_record)
  next
    case False
    with run get obtain d1 w1 where u: "ik_update c (d\<lparr>id_finalizer := True\<rparr>) w = (Inr d1, w1)"
      and act: "idle_active env c d1 w1 = (Done t None, w')"
      by (auto simp: idle_reconcile_def split: sum.splits prod.splits)
    from updated [OF u, of d] get id have d1: "d1 = d\<lparr>id_finalizer := True\<rparr>" "object_at c w1 = object_at c w" by auto
    have "keeps_record c ns name orig (d1, w1)"
      by (rule keeps_record_frame [OF rec d1(2)]) (simp_all add: d1(1))
    then show ?thesis using act by (rule idle_active_record)
  qed
qed

lemma deletable_frame: "deletable c ns name orig w \<Longrightarrow> same_store c w u \<Longrightarrow> deletable c ns name orig u"
  unfolding deletable_def same_store_def using restorable_frame by fastforce

text \<open>The status that is written when a restore failed.\<close>

lemma persist_anyway_deletable:
  assumes old: "deletable c ns name orig w" and left: "restorable c ns orig (ist_scaled (id_status d)) w"
    and d: "id_namespace d = ns" "id_name d = name" "id_deleting d"
  shows "deletable c ns name orig (persist_anyway c (d, w))"
proof -
  obtain a v where up: "ik_update_status c d w = (a, v)" by fastforce
  show ?thesis
  proof (cases a)
    case (Inl e)
    with up have "same_store c w v" using status_failed by blast
    with deletable_frame [OF old] up show ?thesis by (simp add: persist_anyway_def)
  next
    case (Inr d1)
    with status_written [of d w d1 v] up d have v: "d1 = idle_stored d" "object_at c v = object_at c w"
      "ik_get c ns name v = Inr d1" by auto
    from restorable_stored [OF restorable_frame [OF left v(2)]]
    show ?thesis using v(1,3) up d by (simp add: persist_anyway_def deletable_def)
  qed
qed

text \<open>Deletion restores everything, or can be repeated.\<close>

lemma idle_delete_restores:
  assumes get: "ik_get c ns name w = Inr d" "id_deleting d" "id_finalizer d"
    and inv: "restorable c ns orig (ist_scaled (id_status d)) w"
    and run: "idle_reconcile env c ns name w = (Done t r, w')"
  shows "case r of
      None \<Rightarrow> (\<forall>k. as_before (orig k) (object_at c w' k))
    | Some e \<Rightarrow> deletable c ns name orig w'"
proof -
  have id: "id_namespace d = ns" "id_name d = name" using get_typed [OF get(1)] by auto
  obtain remaining err w1 where loop: "restore_loop c ns (ist_scaled (id_status d)) w = ((remaining, err), w1)"
    by (metis prod.exhaust)
  let ?d1 = "set_scaled remaining d"
  have rs: "restore_scaled_workloads c (d, w) = (err, (?d1, w1))"
    using loop id by (simp add: restore_scaled_workloads_def)
  note kept = restore_loop_inv [OF inv loop]
  have del: "idle_delete env c d w = (Done t r, w')" using run get by (simp add: idle_reconcile_def)
  have get1: "ik_get c ns name w1 = Inr d" using restore_loop_get [OF loop] get by simp
  then have old: "deletable c ns name orig w1" using kept(2) get(2) by (auto simp: deletable_def)
  have d1: "id_namespace ?d1 = ns" "id_name ?d1 = name" "id_deleting ?d1" "ist_scaled (id_status ?d1) = remaining"
    using id get by (simp_all add: set_scaled_def)
  show ?thesis
  proof (cases err)
    case (Some e)
    with del rs get have "r = Some e" "w' = persist_anyway c (?d1, w1)" by (simp_all add: idle_delete_def)
    with persist_anyway_deletable [OF old _ d1(1-3)] kept(1) d1(4) show ?thesis by simp
  next
    case None
    obtain rem2 err2 w2 where loop2: "restore_resized_loop env c ns (\<lambda>_. False) (ist_resized (id_status ?d1)) w1 =
        ((rem2, err2), w2)" by (metis prod.exhaust)
    let ?d2 = "set_resized rem2 ?d1"
    have d2: "id_namespace ?d2 = ns" "id_name ?d2 = name" "id_deleting ?d2" "ist_scaled (id_status ?d2) = remaining"
      using d1 by (simp_all add: set_resized_def)
    have rr: "restore_resized_workloads env c (?d1, w1) = (err2, (?d2, w2))"
      using loop2 d1(1) by (simp add: restore_resized_workloads_def)
    have st2: "same_store c w1 w2" by (rule restore_resized_loop_store [OF loop2])
    then have left2: "restorable c ns orig remaining w2" using restorable_frame [OF kept(1)] by (simp add: same_store_def)
    note old2 = deletable_frame [OF old st2]
    show ?thesis
    proof (cases err2)
      case (Some e)
      with del rs rr None get have "r = Some e" "w' = persist_anyway c (?d2, w2)" by (simp_all add: idle_delete_def)
      with persist_anyway_deletable [OF old2 _ d2(1-3)] left2 d2(4) show ?thesis by simp
    next
      case err2: None
      obtain a w3 where up: "ik_update c (?d2\<lparr>id_finalizer := False\<rparr>) w2 = (a, w3)" by fastforce
      with del rs rr None err2 get have r: "r = (case a of Inl e \<Rightarrow> Some e | Inr _ \<Rightarrow> None)" "w' = w3"
        by (auto simp: idle_delete_def split: sum.splits)
      show ?thesis
      proof (cases a)
        case (Inl e)
        then have "same_store c w2 w3" using update_refused up by blast
        then show ?thesis using deletable_frame [OF old2] r Inl by simp
      next
        case (Inr d3)
        have "object_at c w3 = object_at c w2"
          using updated [of "?d2\<lparr>id_finalizer := False\<rparr>" w2 d3 w3 d] up Inr d2 get1 st2 by (simp add: same_store_def)
        then show ?thesis using kept(3) [OF None] st2 r Inr by (simp add: same_store_def)
      qed
    qed
  qed
qed

end

text \<open>
  What happens to a detector, seen from its workloads: it starts with nothing scaled; it is
  reconciled; time passes, pods and metrics change; a user edits or deletes it; a reconcile of
  the deleted detector fails and is repeated. The original workloads are \<open>orig\<close>.
\<close>

inductive idle_life ::
  "idle_env \<Rightarrow> 'w idle_kube \<Rightarrow> string \<Rightarrow> string \<Rightarrow> (gvk \<times> string \<times> string \<Rightarrow> kerr + kobj) \<Rightarrow> 'w \<Rightarrow> bool"
  for env :: idle_env and c :: "'w idle_kube" and ns :: string and name :: string
    and orig :: "gvk \<times> string \<times> string \<Rightarrow> kerr + kobj"
where
  life_start: "ik_get c ns name w = Inr d \<Longrightarrow> ist_scaled (id_status d) = [] \<Longrightarrow> object_at c w = orig \<Longrightarrow>
    idle_life env c ns name orig w"
| life_run: "idle_life env c ns name orig w \<Longrightarrow> ik_get c ns name w = Inr d \<Longrightarrow> \<not> id_deleting d \<Longrightarrow>
    idle_reconcile env c ns name w = (Done t None, w') \<Longrightarrow> idle_life env c ns name orig w'"
| life_time: "idle_life env c ns name orig w \<Longrightarrow> same_store c w w' \<Longrightarrow> idle_life env c ns name orig w'"
| life_edit: "idle_life env c ns name orig w \<Longrightarrow> ik_get c ns name w = Inr d \<Longrightarrow> ik_get c ns name w' = Inr d' \<Longrightarrow>
    ist_scaled (id_status d') = ist_scaled (id_status d) \<Longrightarrow> id_deleting d \<longrightarrow> id_deleting d' \<Longrightarrow>
    object_at c w' = object_at c w \<Longrightarrow> idle_life env c ns name orig w'"
| life_retry: "idle_life env c ns name orig w \<Longrightarrow> ik_get c ns name w = Inr d \<Longrightarrow> id_deleting d \<Longrightarrow> id_finalizer d \<Longrightarrow>
    idle_reconcile env c ns name w = (Done t (Some e), w') \<Longrightarrow> idle_life env c ns name orig w'"

lemma idle_life_inv:
  assumes api: "idle_api c" and life: "idle_life env c ns name orig w"
  shows "\<exists>d. ik_get c ns name w = Inr d \<and> restorable c ns orig (ist_scaled (id_status d)) w \<and>
    (\<not> id_deleting d \<longrightarrow> scaled_inv c ns orig (ist_scaled (id_status d)) w)"
  using life
proof induction
  case (life_start w d)
  then have "scaled_inv c ns orig (ist_scaled (id_status d)) w" using scaled_inv_start by metis
  from scaled_inv_restorable [OF this] this life_start(1) show ?case by auto
next
  case (life_run w d t w')
  then have "scaled_inv c ns orig (ist_scaled (id_status d)) w" by auto
  from idle_api.idle_reconcile_record [OF api life_run(2,3) this life_run(4)]
  obtain d' where "ik_get c ns name w' = Inr d'" "scaled_inv c ns orig (ist_scaled (id_status d')) w'"
    unfolding record_kept_def by blast
  with scaled_inv_restorable [OF this(2)] show ?case by auto
next
  case (life_time w w')
  then show ?case using restorable_frame scaled_inv_frame unfolding same_store_def by metis
next
  case (life_edit w d w' d')
  then show ?case using restorable_frame scaled_inv_frame by (metis Inr_inject)
next
  case (life_retry w d t e w')
  then have "restorable c ns orig (ist_scaled (id_status d)) w" by auto
  from idle_api.idle_delete_restores [OF api life_retry(2-4) this life_retry(5)] show ?case by (auto simp: deletable_def)
qed


section \<open>What is scaled, and why\<close>

text \<open>
  Why a workload changes: it was found idle for the duration and is not recorded yet. A run of the
  loop from \<open>d\<close> and \<open>w\<close> has changed nothing else.
\<close>

definition idle_reason :: "idle_detector \<Rightarrow> duration \<Rightarrow> instant \<Rightarrow> gvk \<times> string \<times> string \<Rightarrow> idle_workload \<Rightarrow> bool" where
  "idle_reason d dur now k i \<longleftrightarrow>
     i \<in> set (ist_idle (id_status d)) \<and> kind_gvk (iw_kind i) = Some (fst k) \<and>
     snd k = (id_namespace d, iw_name i) \<and> dur \<le> time_sub now (iw_since i) \<and> \<not> already_scaled d i"

definition only_idle :: "'w idle_kube \<Rightarrow> duration \<Rightarrow> instant \<Rightarrow> idle_detector \<Rightarrow> 'w \<Rightarrow> 'w idle_st \<Rightarrow> bool" where
  "only_idle c dur now d w st \<longleftrightarrow>
     id_namespace (fst st) = id_namespace d \<and>
     (\<forall>i. already_scaled d i \<longrightarrow> already_scaled (fst st) i) \<and>
     (\<forall>k. object_at c (snd st) k \<noteq> object_at c w k \<longrightarrow> Ex (idle_reason d dur now k))"

context idle_api
begin

lemma scale_down_one_only_idle:
  assumes i: "i \<in> set (ist_idle (id_status d))" "\<not> time_sub now (iw_since i) < dur" "\<not> already_scaled d1 i"
    and pre: "only_idle c dur now d w (d1, w1)" and run: "scale_down_one c i (d1, w1) = (err, (d2, w2))"
  shows "only_idle c dur now d w (d2, w2)"
  using scale_down_one_cases [OF run]
proof (elim disjE exE conjE)
  assume "d2 = d1" "object_at c w2 = object_at c w1"
  then show ?thesis using pre by (simp add: only_idle_def)
next
  fix g x s
  assume g: "kind_gvk (iw_kind i) = Some g" and d2: "d2 = append_scaled s d1"
    and w2: "object_at c w2 = (object_at c w1)((g, id_namespace d1, iw_name i) := Inr (down_version x))"
  have ns: "id_namespace d1 = id_namespace d" and not: "\<not> already_scaled d i" using pre i(3) by (auto simp: only_idle_def)
  have "Ex (idle_reason d dur now k)" if "object_at c w2 k \<noteq> object_at c w k" for k
  proof (cases "k = (g, id_namespace d1, iw_name i)")
    case True
    then have "idle_reason d dur now k i" using i g ns not by (simp add: idle_reason_def)
    then show ?thesis ..
  next
    case False
    with that w2 have "object_at c w1 k \<noteq> object_at c w k" by simp
    then show ?thesis using pre unfolding only_idle_def snd_conv by blast
  qed
  moreover have "already_scaled d2 j" if "already_scaled d j" for j
    using that pre by (auto simp: only_idle_def d2 append_scaled_def already_scaled_def)
  ultimately show ?thesis using ns d2 by (simp add: only_idle_def append_scaled_def)
qed

lemma scale_down_step_only_idle:
  assumes i: "i \<in> set (ist_idle (id_status d))" and pre: "only_idle c dur now d w st"
    and step: "scale_down_step c dur now i st = (e, st')"
  shows "only_idle c dur now d w st'"
proof -
  obtain d1 w1 where st: "st = (d1, w1)" by fastforce
  show ?thesis
  proof (cases "time_sub now (iw_since i) < dur \<or> already_scaled d1 i")
    case True
    with step pre show ?thesis by (auto simp: scale_down_step_def st split: if_splits)
  next
    case False
    obtain err d2 w2 where one: "scale_down_one c i (d1, w1) = (err, (d2, w2))" by (metis prod.exhaust)
    have mid: "only_idle c dur now d w (d2, w2)"
      using scale_down_one_only_idle [OF i _ _ pre [unfolded st] one] False by simp
    show ?thesis
    proof (cases err)
      case (Some e')
      with step one False mid show ?thesis by (simp add: scale_down_step_def st)
    next
      case None
      obtain a w3 where u: "ik_update_status c d2 w2 = (a, w3)" by fastforce
      have st': "st' = (case a of Inl e \<Rightarrow> (d2, w3) | Inr d3 \<Rightarrow> (d3, w3))"
        using step one False None u by (auto simp: scale_down_step_def st split: sum.splits)
      have "already_scaled (idle_stored d2) j = already_scaled d2 j" for j
        by (simp add: already_scaled_def list_ex_iff)
      then show ?thesis
        using mid status_frame [OF u] status_answer [of d2 w2 _ w3] u unfolding st' only_idle_def by (cases a) simp_all
    qed
  qed
qed

lemma scale_down_only_idle:
  assumes run: "scale_down_idle_workloads c dur (d, w) = (r, (d', w'))"
    and changed: "object_at c w' k \<noteq> object_at c w k"
  shows "\<exists>i \<in> set (ist_idle (id_status d)). kind_gvk (iw_kind i) = Some (fst k) \<and>
    snd k = (id_namespace d, iw_name i) \<and> dur \<le> time_sub (fst (ik_now c w)) (iw_since i) \<and> \<not> already_scaled d i"
proof -
  obtain now w1 where now: "ik_now c w = (now, w1)" by fastforce
  let ?steps = "map (scale_down_step c dur now) (ist_idle (id_status d))"
  have "only_idle c dur now d w st'" if "f \<in> set ?steps" "only_idle c dur now d w st" "f st = (e, st')" for f st e st'
    using that scale_down_step_only_idle [of _ d dur now w st e st'] by (metis (no_types, lifting) image_iff list.set_map)
  moreover have "only_idle c dur now d w (d, w1)" using now_ok [OF now] by (simp add: only_idle_def)
  moreover have "run_steps ?steps (d, w1) = (r, (d', w'))" using run now by (simp add: scale_down_idle_workloads_def)
  ultimately have "only_idle c dur now d w (d', w')"
    using run_steps_invariant [where P = "only_idle c dur now d w"] by blast
  then obtain i where "idle_reason d dur now k i" using changed unfolding only_idle_def snd_conv by blast
  then show ?thesis by (auto simp: now idle_reason_def)
qed

lemma resize_workload_objects:
  "resize_workload c cfg i pods ms (d, w) = (r, st') \<Longrightarrow> object_at c (snd st') = object_at c w"
  by (auto simp: resize_workload_def Let_def same_store_def
      split: prod.splits if_splits sum.splits dest!: resize_pods_store now_ok status_frame)

lemma resize_step_objects:
  "resize_step env c dur now cfg i st = (r, st') \<Longrightarrow> object_at c (snd st') = object_at c (snd st)"
  by (cases st)
    (auto simp: resize_step_def split: if_splits sum.splits option.splits dest: resize_workload_objects)

lemma restore_no_longer_idle_objects:
  "restore_no_longer_idle env c st = (r, st') \<Longrightarrow> object_at c (snd st') = object_at c (snd st)"
  by (auto simp: restore_no_longer_idle_def Let_def same_store_def
      split: prod.splits sum.splits dest!: restore_resized_loop_store status_frame)

lemma resize_objects:
  assumes "resize_idle_workloads env c dur (d, w) = (r, st')"
  shows "object_at c (snd st') = object_at c w"
proof -
  obtain now w1 where now: "ik_now c w = (now, w1)" by fastforce
  obtain s st1 where steps: "run_steps (map (resize_step env c dur now d) (ist_idle (id_status d))) (d, w1) = (s, st1)"
    by (metis prod.exhaust)
  have "object_at c (snd st1) = object_at c w"
    by (rule run_steps_invariant [where P = "\<lambda>st. object_at c (snd st) = object_at c w", OF _ _ steps])
      (auto simp: now_ok [OF now] dest: resize_step_objects)
  with assms now steps show ?thesis
    by (auto simp: resize_idle_workloads_def split: option.splits prod.splits dest: restore_no_longer_idle_objects)
qed

lemma idle_act_objects:
  assumes "idle_act env c dur (d, w) = (r, st')" "object_at c (snd st') k \<noteq> object_at c w k"
  shows "ids_action (id_spec d) = ''scale'' \<and> (\<exists>i \<in> set (ist_idle (id_status d)). kind_gvk (iw_kind i) = Some (fst k) \<and>
    snd k = (id_namespace d, iw_name i) \<and> dur \<le> time_sub (fst (ik_now c w)) (iw_since i) \<and> \<not> already_scaled d i)"
proof (cases "ids_action (id_spec d) = ''scale''")
  case False
  obtain d' w' where st': "st' = (d', w')" by fastforce
  from assms(1) False have "st' = (d, w) \<or> resize_idle_workloads env c dur (d, w) = (r, st')"
    by (auto simp: idle_act_def split: if_splits prod.splits option.splits)
  then show ?thesis using assms(2) resize_objects [of env dur d w r st'] by auto
next
  case True
  obtain e d1 w1 where sc: "scale_down_idle_workloads c dur (d, w) = (e, (d1, w1))" by (metis prod.exhaust)
  from assms(1) True sc have "st' = (d1, w1) \<or> resize_idle_workloads env c dur (d1, w1) = (r, st')"
    by (auto simp: idle_act_def split: if_splits prod.splits option.splits)
  then have "object_at c (snd st') = object_at c w1" using resize_objects [of env dur d1 w1 r st'] by auto
  with assms(2) scale_down_only_idle [OF sc, of k] True show ?thesis by simp
qed

end

text \<open>A live detector changes an object only where it acts on what it has just detected.\<close>

lemma live_change_acts:
  assumes api: "idle_api c" and get: "ik_get c ns name w = Inr d" "\<not> id_deleting d" "id_finalizer d"
    and run: "idle_reconcile env c ns name w = (res, w')"
    and changed: "object_at c w' k \<noteq> object_at c w k"
  shows "\<exists>dur idle w1 now w2 r st. parse_duration (ids_duration (id_spec d)) = Some dur \<and>
    detect_idle_workloads env c d w = (Inr idle, w1) \<and> ik_now c w1 = (now, w2) \<and>
    idle_act env c dur (set_checked idle now d, w2) = (r, st) \<and> object_at c (snd st) k \<noteq> object_at c w2 k"
proof -
  have act: "idle_active env c d w = (res, w')" using run get by (simp add: idle_reconcile_def)
  have fail: "object_at c w' = object_at c (snd st)" if "idle_failed env c e st = (res, w')" for e st
    using that idle_api.status_frame [OF api]
    by (auto simp: idle_failed_def split: prod.splits sum.splits)
  have fin: "object_at c w' = object_at c (snd st)" if "idle_finish env c st = (res, w')" for st
    using that idle_api.status_frame [OF api]
    by (auto simp: idle_finish_def split: prod.splits sum.splits)
  obtain dur where dur: "parse_duration (ids_duration (id_spec d)) = Some dur"
    using act changed by (auto simp: idle_active_def split: option.splits)
  obtain a w1 where det: "detect_idle_workloads env c d w = (a, w1)" by fastforce
  have o1: "object_at c w1 = object_at c w"
    using idle_api.detect_frame [OF api det] by (simp add: same_store_def)
  obtain idle where a: "a = Inr idle"
    using act changed dur det o1 by (cases a) (auto simp: idle_active_def)
  obtain now w2 where now: "ik_now c w1 = (now, w2)" by fastforce
  obtain r st where step: "idle_act env c dur (set_checked idle now d, w2) = (r, st)" by (metis prod.exhaust)
  have "object_at c w' = object_at c (snd st)"
    using act dur det a now step fail fin
    by (auto simp: idle_active_def split: option.splits stop.splits)
  then have "object_at c (snd st) k \<noteq> object_at c w2 k"
    using changed o1 idle_api.now_ok [OF api now] by simp
  then show ?thesis using dur det a now step by blast
qed

text \<open>
  C9: Why a workload is changed: a reconcile of a live detector changes a workload only if the
  action is \<open>scale\<close> and the workload was found idle: it was listed and matches the names, was
  not down already, its metrics are below the thresholds, it has been idle for at least the
  idle duration, and no earlier reconcile has recorded it as scaled.
\<close>

theorem only_idle_workloads_scaled:
  assumes api: "idle_api c" and get: "ik_get c ns name w = Inr d" "\<not> id_deleting d" "id_finalizer d"
    and run: "idle_reconcile env c ns name w = (res, w')"
    and changed: "object_at c w' k \<noteq> object_at c w k"
  shows "ids_action (id_spec d) = ''scale'' \<and>
    (\<exists>dur idle w1 now w2 i g xs x.
       parse_duration (ids_duration (id_spec d)) = Some dur \<and>
       detect_idle_workloads env c d w = (Inr idle, w1) \<and> ik_now c w1 = (now, w2) \<and> i \<in> set idle \<and>
       k = (g, ns, iw_name i) \<and> list_workloads c d g w1 = Inr xs \<and> x \<in> set xs \<and>
       detected env c d (fst (ik_now c w)) w1 i x \<and>
       dur \<le> time_sub (fst (ik_now c w2)) (iw_since i) \<and> \<not> already_scaled d i)"
proof -
  have id: "id_namespace d = ns" using idle_api.get_typed [OF api get(1)] by auto
  from live_change_acts [OF api get run changed] obtain dur idle w1 now w2 r st where
    dur: "parse_duration (ids_duration (id_spec d)) = Some dur" and det: "detect_idle_workloads env c d w = (Inr idle, w1)"
    and now: "ik_now c w1 = (now, w2)" and step: "idle_act env c dur (set_checked idle now d, w2) = (r, st)"
    and diff: "object_at c (snd st) k \<noteq> object_at c w2 k" by blast
  from idle_api.idle_act_objects [OF api step diff] obtain i where
    sc: "ids_action (id_spec d) = ''scale''" and i: "i \<in> set idle" "kind_gvk (iw_kind i) = Some (fst k)"
      "snd k = (ns, iw_name i)" "dur \<le> time_sub (fst (ik_now c w2)) (iw_since i)" "\<not> already_scaled d i"
    by (auto simp: set_checked_def id already_scaled_def)
  from detect_sound [OF det i(1)] i(2) obtain xs x where
    x: "list_workloads c d (fst k) w1 = Inr xs" "x \<in> set xs" "detected env c d (fst (ik_now c w)) w1 i x" by auto
  have "k = (fst k, ns, iw_name i)" using i(3) by (metis prod.collapse)
  then show ?thesis using sc dur det now i x by blast
qed

section \<open>Deletion that is stuck\<close>

text \<open>
  C32: A recorded workload that cannot be read, because it was deleted for instance, blocks the
  deletion of its detector: the reconcile returns an error, and the detector stays with its
  finalizer and with that entry, so that the next reconcile fails in the same way.
\<close>

theorem missing_workload_blocks_deletion:
  assumes api: "idle_api c" and get: "ik_get c ns name w = Inr d" "id_deleting d" "id_finalizer d"
    and entry: "s \<in> set (ist_scaled (id_status d))" "kind_gvk (sc_kind s) = Some g"
    and missing: "object_at c w (g, ns, sc_name s) = Inl e"
  shows "\<exists>err w' d'. idle_reconcile env c ns name w = (Done 0 (Some err), w') \<and>
    ik_get c ns name w' = Inr d' \<and> id_deleting d' \<and> id_finalizer d' \<and>
    (\<exists>s' \<in> set (ist_scaled (id_status d')). sc_kind s' = sc_kind s \<and> sc_name s' = sc_name s)"
proof -
  have id: "id_namespace d = ns" "id_name d = name" using idle_api.get_typed [OF api get(1)] by auto
  from idle_api.restore_loop_unreadable [OF api entry missing] obtain err remaining w1 where
    loop: "restore_loop c ns (ist_scaled (id_status d)) w = ((remaining, Some err), w1)" and s: "s \<in> set remaining"
    by blast
  let ?d1 = "set_scaled remaining d"
  have rs: "restore_scaled_workloads c (d, w) = (Some err, (?d1, w1))"
    using loop id by (simp add: restore_scaled_workloads_def)
  obtain a w2 where u: "ik_update_status c ?d1 w1 = (a, w2)" by fastforce
  have run: "idle_reconcile env c ns name w = (Done 0 (Some err), w2)"
    using get rs u by (simp add: idle_reconcile_def idle_delete_def persist_anyway_def)
  show ?thesis
  proof (cases a)
    case (Inl e')
    with idle_api.status_failed [OF api] u have "ik_get c ns name w2 = ik_get c ns name w1"
      unfolding same_store_def by blast
    then have "ik_get c ns name w2 = Inr d" using idle_api.restore_loop_get [OF api loop] get by simp
    with run get entry show ?thesis by blast
  next
    case (Inr d2)
    from idle_api.status_written [OF api u [unfolded Inr]] have d2: "d2 = idle_stored ?d1"
      "ik_get c ns name w2 = Inr d2" using id by (simp_all add: set_scaled_def)
    have "s\<lparr>sc_at := full_seconds (sc_at s)\<rparr> \<in> set (ist_scaled (id_status d2))"
      using s by (simp add: d2(1) set_scaled_def)
    moreover have "id_deleting d2" "id_finalizer d2" using get by (simp_all add: d2(1) set_scaled_def)
    ultimately show ?thesis using run d2(2)
      by (intro exI [of _ err] exI [of _ w2] exI [of _ d2] conjI bexI [of _ "s\<lparr>sc_at := full_seconds (sc_at s)\<rparr>"])
        simp_all
  qed
qed

end
