(* ===== verification/Idle_Cluster.thy ===== *)
theory Idle_Cluster
  imports Idle_Reconcile
begin

text \<open>
  A cluster in memory for the idle detector, with the laws of the client, and the runs of a
  small example on it.
\<close>

section \<open>The cluster\<close>

text \<open>Jobs and metrics by namespace; \<open>fail\<close> says which writes of a status are refused.\<close>

record idle_world =
  iwd_objects :: memory
  iwd_detectors :: "idle_detector list"
  iwd_pods :: "pod list"
  iwd_jobs :: "(string \<times> job) list"
  iwd_metrics :: "(string \<times> pod_metrics) list"
  iwd_clock :: instant
  iwd_writes :: nat

definition lift_kube :: "memory kube \<Rightarrow> idle_world kube" where
  "lift_kube c =
     \<lparr>k_get = (\<lambda>g ns n w. k_get c g ns n (iwd_objects w)),
      k_list = (\<lambda>g ns sel w. k_list c g ns sel (iwd_objects w)),
      k_update = (\<lambda>x w. case k_update c x (iwd_objects w) of (e, m) \<Rightarrow> (e, w\<lparr>iwd_objects := m\<rparr>)),
      k_get_sched = (\<lambda>ns n w. k_get_sched c ns n (iwd_objects w)),
      k_update_status = (\<lambda>s w. case k_update_status c s (iwd_objects w) of (r, m) \<Rightarrow> (r, w\<lparr>iwd_objects := m\<rparr>))\<rparr>"

definition det_key :: "idle_detector \<Rightarrow> string \<times> string" where
  "det_key d = (id_namespace d, id_name d)"

definition find_det :: "string \<Rightarrow> string \<Rightarrow> idle_world \<Rightarrow> idle_detector option" where
  "find_det ns n w = find (\<lambda>d. det_key d = (ns, n)) (iwd_detectors w)"

definition put_det :: "idle_detector \<Rightarrow> idle_world \<Rightarrow> idle_world" where
  "put_det d w = w\<lparr>iwd_detectors := map (\<lambda>x. if det_key x = det_key d then d else x) (iwd_detectors w)\<rparr>"

definition del_det :: "idle_detector \<Rightarrow> idle_world \<Rightarrow> idle_world" where
  "del_det d w = w\<lparr>iwd_detectors := filter (\<lambda>x. det_key x \<noteq> det_key d) (iwd_detectors w)\<rparr>"

definition world_update :: "idle_detector \<Rightarrow> idle_world \<Rightarrow> (kerr + idle_detector) \<times> idle_world" where
  "world_update d w =
     (case find_det (id_namespace d) (id_name d) w of
        None \<Rightarrow> (Inl ErrNotFound, w)
      | Some d0 \<Rightarrow>
          (let d' = d\<lparr>id_status := id_status d0\<rparr>
           in (Inr d', if id_deleting d \<and> \<not> id_finalizer d then del_det d w else put_det d' w)))"

definition world_update_status ::
  "(nat \<Rightarrow> bool) \<Rightarrow> idle_detector \<Rightarrow> idle_world \<Rightarrow> (kerr + idle_detector) \<times> idle_world" where
  "world_update_status fail d w =
     (let w' = w\<lparr>iwd_writes := Suc (iwd_writes w)\<rparr> in
      if fail (iwd_writes w) then (Inl (ErrOther ''conflict''), w')
      else (case find_det (id_namespace d) (id_name d) w of
              None \<Rightarrow> (Inl ErrNotFound, w')
            | Some d0 \<Rightarrow> (Inr (idle_stored d), put_det (idle_stored d) w')))"

definition world_patch :: "pod \<Rightarrow> pod \<Rightarrow> idle_world \<Rightarrow> kerr option \<times> idle_world" where
  "world_patch p q w =
     (let same = (\<lambda>x. p_name x = p_name p \<and> p_namespace x = p_namespace p) in
      if list_ex same (iwd_pods w)
      then (None, w\<lparr>iwd_pods := map (\<lambda>x. if same x then q else x) (iwd_pods w)\<rparr>)
      else (Some ErrNotFound, w))"

definition world_kube :: "(nat \<Rightarrow> bool) \<Rightarrow> bool \<Rightarrow> idle_world idle_kube" where
  "world_kube fail metrics =
     \<lparr>ik_objects = lift_kube (mem_kube (\<lambda>_. False)),
      ik_get = (\<lambda>ns n w. case find_det ns n w of None \<Rightarrow> Inl ErrNotFound | Some d \<Rightarrow> Inr d),
      ik_update = world_update,
      ik_update_status = world_update_status fail,
      ik_pods = (\<lambda>ns m w. Inr (filter (\<lambda>p. p_namespace p = ns \<and> m (p_labels p)) (iwd_pods w))),
      ik_jobs = (\<lambda>ns w. Inr (map snd (filter (\<lambda>j. fst j = ns) (iwd_jobs w)))),
      ik_metrics = (if metrics then Some (\<lambda>ns w. Inr (map snd (filter (\<lambda>m. fst m = ns) (iwd_metrics w)))) else None),
      ik_patch_pod = world_patch,
      ik_now = (\<lambda>w. (iwd_clock w, w))\<rparr>"

lemma lift_api_store:
  assumes "api_store c"
  shows "api_store (lift_kube c)"
  using assms unfolding api_store_def lift_kube_def by (auto split: prod.splits)

lemma lift_api_typed:
  assumes "api_typed c"
  shows "api_typed (lift_kube c)"
  using assms unfolding api_typed_def lift_kube_def by auto

lemma find_det_put:
  "find (\<lambda>d. det_key d = k) (map (\<lambda>x. if det_key x = det_key d then d else x) ds) =
     (if k = det_key d then (if find (\<lambda>d. det_key d = k) ds = None then None else Some d)
      else find (\<lambda>d. det_key d = k) ds)"
  by (induction ds) auto

lemma find_det_key: "find_det ns n w = Some d \<Longrightarrow> det_key d = (ns, n)"
  by (auto simp: find_det_def find_Some_iff)

lemma det_key_simps [simp]:
  "det_key (idle_stored d) = det_key d" "det_key (d\<lparr>id_status := s\<rparr>) = det_key d"
  by (simp_all add: det_key_def)

lemma find_put_det:
  "find_det ns n w = Some d0 \<Longrightarrow> det_key d = (ns, n) \<Longrightarrow> find_det ns n (put_det d w) = Some d"
  using find_det_put [of "(ns, n)" d "iwd_detectors w"] by (simp add: find_det_def put_det_def)

lemma world_objects [simp]:
  "iwd_objects (put_det d w) = iwd_objects w" "iwd_objects (del_det d w) = iwd_objects w"
  by (simp_all add: put_det_def del_det_def)

lemma world_object_at [simp]:
  "object_at (world_kube f m) w k = mem_get (fst k) (fst (snd k)) (snd (snd k)) (iwd_objects w)"
  by (simp add: object_at_def world_kube_def lift_kube_def split: prod.splits)

lemma world_get [simp]:
  "ik_get (world_kube f m) ns n w = (case find_det ns n w of None \<Rightarrow> Inl ErrNotFound | Some d \<Rightarrow> Inr d)"
  by (simp add: world_kube_def)

interpretation world: idle_api "world_kube fail metrics"
proof (unfold_locales, goal_cases)
  case 1
  show ?case by (simp add: world_kube_def lift_api_store mem_api_store)
next
  case 2
  show ?case by (simp add: world_kube_def lift_api_typed mem_api_typed)
next
  case (3 ns n w d)
  then show ?case by (auto simp: det_key_def split: option.splits dest!: find_det_key)
next
  case (4 x w e w' ns n)
  then show ?case by (auto simp: world_kube_def lift_kube_def find_det_def split: prod.splits)
next
  case (5 w)
  show ?case by (simp add: same_store_def world_kube_def)
next
  case (6 w p q)
  show ?case
    by (auto simp: same_store_def object_at_def world_kube_def lift_kube_def world_patch_def find_det_def Let_def)
next
  case (7 d w err w')
  then show ?case
    by (auto simp: same_store_def object_at_def world_kube_def lift_kube_def world_update_status_def find_det_def Let_def
        split: if_splits option.splits)
next
  case (8 d w d' w')
  then obtain d0 where "find_det (id_namespace d) (id_name d) w = Some d0" "d' = idle_stored d"
    "w' = put_det (idle_stored d) (w\<lparr>iwd_writes := Suc (iwd_writes w)\<rparr>)"
    by (auto simp: world_kube_def world_update_status_def Let_def split: if_splits option.splits)
  moreover from this have "find_det (id_namespace d) (id_name d) w' = Some d'"
    using find_put_det [of "id_namespace d" "id_name d" "w\<lparr>iwd_writes := Suc (iwd_writes w)\<rparr>" d0 "idle_stored d"]
    by (simp add: det_key_def find_det_def)
  ultimately show ?case by (simp add: fun_eq_iff)
next
  case (9 d w err w')
  then show ?case
    by (auto simp: same_store_def world_kube_def world_update_def Let_def split: option.splits)
next
  case (10 d w d' w' d0)
  then have d0: "find_det (id_namespace d) (id_name d) w = Some d0" by (auto split: option.splits)
  with 10 have "d' = d\<lparr>id_status := id_status d0\<rparr>"
    "w' = (if id_deleting d \<and> \<not> id_finalizer d then del_det d w else put_det d' w)"
    by (auto simp: world_kube_def world_update_def Let_def)
  moreover have "find_det (id_namespace d) (id_name d) (put_det (d\<lparr>id_status := id_status d0\<rparr>) w) = Some (d\<lparr>id_status := id_status d0\<rparr>)"
    using d0 by (rule find_put_det) (simp add: det_key_def)
  ultimately show ?case by (auto simp: fun_eq_iff)
qed

section \<open>A deployment that sleeps when idle\<close>

definition demo_selector :: selector_of where
  "demo_selector sel =
     (case sel of LabelSelector ls es \<Rightarrow>
        if es = [] then Some (\<lambda>m. list_all (\<lambda>(k, v). map_of m k = Some v) ls) else None)"

definition demo_env :: idle_env where
  "demo_env = \<lparr>ie_selector = demo_selector, ie_default = 0, ie_float = (\<lambda>_. 0)\<rparr>"

definition web_deployment :: "int \<Rightarrow> kobj" where
  "web_deployment n =
     \<lparr>ko_gvk = deployment_gvk,
      ko_meta = \<lparr>om_name = ''web'', om_namespace = ''dev'', om_labels = [], om_annotations = None\<rparr>,
      ko_body = Scalable (Some n) (Some (LabelSelector [(''app'', ''web'')] []))\<rparr>"

definition demo_detector :: "string \<Rightarrow> idle_detector" where
  "demo_detector action =
     \<lparr>id_name = ''det'', id_namespace = ''dev'', id_deleting = False, id_finalizer = True,
      id_spec = \<lparr>ids_selector = \<lparr>wsel_labels = [], wsel_names = [''we*''], wsel_types = []\<rparr>,
                 ids_thresholds = \<lparr>ith_cpu = Some 20, ith_mem = None\<rparr>, ids_duration = ''30m'',
                 ids_action = action, ids_resize = None, ids_interval = None\<rparr>,
      id_status = \<lparr>ist_idle = [], ist_scaled = [], ist_resized = [], ist_last_check = None\<rparr>\<rparr>"

definition demo_world :: "string \<Rightarrow> idle_world" where
  "demo_world action =
     \<lparr>iwd_objects = \<lparr>mem_objects = [web_deployment 3], mem_schedules = [], mem_writes = 0\<rparr>,
      iwd_detectors = [demo_detector action],
      iwd_pods = [sample_pod ''web-1'' [sample_container (Some 1000) (Some 64)]],
      iwd_jobs = [],
      iwd_metrics = [(''dev'', sample_metrics ''web-1'' [sample_container (Some 100) (Some 60)])],
      iwd_clock = 1000000 * second, iwd_writes = 0\<rparr>"

definition demo_kube :: "idle_world idle_kube" where
  "demo_kube = world_kube (\<lambda>_. False) True"

definition demo_run :: "idle_world \<Rightarrow> result \<times> idle_world" where
  "demo_run w = idle_reconcile demo_env demo_kube ''dev'' ''det'' w"

definition later :: "duration \<Rightarrow> idle_world \<Rightarrow> idle_world" where
  "later t w = w\<lparr>iwd_clock := iwd_clock w + t\<rparr>"

definition delete_detectors :: "idle_world \<Rightarrow> idle_world" where
  "delete_detectors w = w\<lparr>iwd_detectors := map (\<lambda>d. d\<lparr>id_deleting := True\<rparr>) (iwd_detectors w)\<rparr>"

text \<open>Found idle; half an hour later acted upon; checked again.\<close>

definition demo1 :: "string \<Rightarrow> idle_world" where
  "demo1 action = snd (demo_run (demo_world action))"

definition demo2 :: "string \<Rightarrow> idle_world" where
  "demo2 action = snd (demo_run (later (30 * minute) (demo1 action)))"

definition web_body :: "idle_world \<Rightarrow> body option" where
  "web_body w =
     (case mem_get deployment_gvk ''dev'' ''web'' (iwd_objects w) of Inl e \<Rightarrow> None | Inr x \<Rightarrow> Some (ko_body x))"

definition pod_cpu :: "idle_world \<Rightarrow> int option list" where
  "pod_cpu w = map (\<lambda>c. map_option milli_value (ct_cpu c)) (concat (map p_containers (iwd_pods w)))"

subsection \<open>Resizing\<close>


subsection \<open>Scaling\<close>

definition demo3 :: idle_world where
  "demo3 = delete_detectors (demo2 ''scale'')"

lemma demo_runs:
  "fst (demo_run (demo_world ''scale'')) = Done (330 * second) None"
  "fst (demo_run (later (30 * minute) (demo1 ''scale''))) = Done (330 * second) None"
  "fst (demo_run demo3) = Done 0 None"
  "web_body (demo2 ''scale'') = Some (Scalable (Some 0) (Some (LabelSelector [(''app'', ''web'')] [])))"
  by code_simp+

lemma demo_detectors:
  "map (\<lambda>d. (det_key d, id_deleting d, id_finalizer d)) (iwd_detectors (demo1 ''scale'')) = [((''dev'', ''det''), False, True)]"
  "map (\<lambda>d. (det_key d, id_deleting d, id_finalizer d)) (iwd_detectors (demo2 ''scale'')) = [((''dev'', ''det''), False, True)]"
  by code_simp+

lemma one_detector:
  assumes "map (\<lambda>d. (det_key d, id_deleting d, id_finalizer d)) (iwd_detectors w) = [((ns, n), del, fin)]"
  obtains d where "iwd_detectors w = [d]" "find_det ns n w = Some d" "id_deleting d = del" "id_finalizer d = fin"
  using assms by (auto simp: find_det_def map_eq_Cons_conv)

lemma demo_steps:
  "idle_reconcile demo_env demo_kube ''dev'' ''det'' (demo_world ''scale'') = (Done (330 * second) None, demo1 ''scale'')"
  "idle_reconcile demo_env demo_kube ''dev'' ''det'' (later (30 * minute) (demo1 ''scale'')) =
     (Done (330 * second) None, demo2 ''scale'')"
  using demo_runs(1,2) unfolding demo1_def demo2_def by (metis demo_run_def prod.collapse)+

lemma find_later: "find_det ns n (later t w) = find_det ns n w"
  by (simp add: later_def find_det_def)

lemma demo_get: "ik_get demo_kube ns n w = (case find_det ns n w of None \<Rightarrow> Inl ErrNotFound | Some d \<Rightarrow> Inr d)"
  by (simp add: demo_kube_def)

lemma demo_life: "idle_life demo_env demo_kube ''dev'' ''det'' (object_at demo_kube (demo_world ''scale'')) demo3"
proof -
  let ?life = "idle_life demo_env demo_kube ''dev'' ''det'' (object_at demo_kube (demo_world ''scale''))"
  have get0: "ik_get demo_kube ''dev'' ''det'' (demo_world ''scale'') = Inr (demo_detector ''scale'')"
    by (simp add: demo_get find_det_def demo_world_def demo_detector_def det_key_def)
  have l0: "?life (demo_world ''scale'')"
    by (rule life_start [OF get0]) (simp_all add: demo_detector_def)
  have l1: "?life (demo1 ''scale'')"
    by (rule life_run [OF l0 get0 _ demo_steps(1)]) (simp add: demo_detector_def)
  have same: "same_store demo_kube (demo1 ''scale'') (later (30 * minute) (demo1 ''scale''))"
    unfolding same_store_def demo_get find_later by (simp add: demo_kube_def later_def fun_eq_iff)
  note l1' = life_time [OF l1 same]
  obtain d1 where d1: "find_det ''dev'' ''det'' (demo1 ''scale'') = Some d1" "id_deleting d1 = False"
    using one_detector [OF demo_detectors(1)] by blast
  have get1: "ik_get demo_kube ''dev'' ''det'' (later (30 * minute) (demo1 ''scale'')) = Inr d1"
    unfolding demo_get find_later d1 by simp
  have l2: "?life (demo2 ''scale'')"
    by (rule life_run [OF l1' get1 _ demo_steps(2)]) (simp add: d1)
  obtain d2 where d2: "iwd_detectors (demo2 ''scale'') = [d2]" "find_det ''dev'' ''det'' (demo2 ''scale'') = Some d2"
    using one_detector [OF demo_detectors(2)] by blast
  have get2: "ik_get demo_kube ''dev'' ''det'' (demo2 ''scale'') = Inr d2" unfolding demo_get d2 by simp
  have "find_det ''dev'' ''det'' demo3 = Some (d2\<lparr>id_deleting := True\<rparr>)"
    using d2 find_det_key [OF d2(2)] by (simp add: demo3_def delete_detectors_def find_det_def det_key_def)
  then have get3: "ik_get demo_kube ''dev'' ''det'' demo3 = Inr (d2\<lparr>id_deleting := True\<rparr>)" unfolding demo_get by simp
  have "object_at demo_kube demo3 = object_at demo_kube (demo2 ''scale'')"
    by (simp add: demo_kube_def demo3_def delete_detectors_def fun_eq_iff)
  then show ?thesis by (intro life_edit [OF l2 get2 get3]) simp_all
qed

abbreviation web_key :: "gvk \<times> string \<times> string" where
  "web_key \<equiv> (deployment_gvk, ''dev'', ''web'')"


lemma demo_api: "idle_api demo_kube"
  unfolding demo_kube_def by (rule world.idle_api_axioms)

lemma web_body_at: "web_body w = (case object_at demo_kube w web_key of Inl e \<Rightarrow> None | Inr x \<Rightarrow> Some (ko_body x))"
  by (simp add: web_body_def demo_kube_def)

lemma demo1_body:
  "web_body (later (30 * minute) (demo1 ''scale'')) = Some (Scalable (Some 3) (Some (LabelSelector [(''app'', ''web'')] [])))"
  by code_simp

theorem only_idle_workloads_scaled_witness:
  "\<exists>d idle w1 i. ik_get demo_kube ''dev'' ''det'' (later (30 * minute) (demo1 ''scale'')) = Inr d \<and>
     ids_action (id_spec d) = ''scale'' \<and>
     detect_idle_workloads demo_env demo_kube d (later (30 * minute) (demo1 ''scale'')) = (Inr idle, w1) \<and>
     i \<in> set idle \<and> iw_name i = ''web'' \<and> \<not> already_scaled d i"
proof -
  obtain d1 where d1: "find_det ''dev'' ''det'' (demo1 ''scale'') = Some d1" "id_deleting d1 = False" "id_finalizer d1 = True"
    using one_detector [OF demo_detectors(1)] by blast
  have get1: "ik_get demo_kube ''dev'' ''det'' (later (30 * minute) (demo1 ''scale'')) = Inr d1"
    unfolding demo_get find_later d1 by simp
  have live: "\<not> id_deleting d1" "id_finalizer d1" using d1 by simp_all
  have "object_at demo_kube (demo2 ''scale'') web_key \<noteq> object_at demo_kube (later (30 * minute) (demo1 ''scale'')) web_key"
    using demo_runs(4) demo1_body unfolding web_body_at by auto
  from only_idle_workloads_scaled [OF demo_api get1 live demo_steps(2) this] get1 show ?thesis by auto
qed

text \<open>The deployment, idle for half an hour, in the status of a detector with nothing scaled.\<close>

definition idle_web :: idle_detector where
  "idle_web = (demo_detector ''scale'')
     \<lparr>id_status := \<lparr>ist_idle = [\<lparr>iw_kind = ''Deployment'', iw_name = ''web'', iw_since = 1000000 * second,
                               iw_cpu = Some 10, iw_mem = Some 93\<rparr>],
                   ist_scaled = [], ist_resized = [], ist_last_check = None\<rparr>\<rparr>"

definition down_run :: "kerr option \<times> idle_world idle_st" where
  "down_run = scale_down_idle_workloads demo_kube (30 * minute) (idle_web, later (30 * minute) (demo_world ''scale''))"

definition up_run :: "kerr option \<times> idle_world idle_st" where
  "up_run = restore_scaled_workloads demo_kube (snd down_run)"

lemma down_up:
  "fst down_run = None" "web_body (snd (snd down_run)) = Some (Scalable (Some 0) (Some (LabelSelector [(''app'', ''web'')] [])))"
  "fst up_run = None"
  by code_simp+

theorem restore_undoes_scale_down_witness:
  "web_body (snd (snd down_run)) = Some (Scalable (Some 0) (Some (LabelSelector [(''app'', ''web'')] []))) \<and>
   as_before (object_at demo_kube (later (30 * minute) (demo_world ''scale'')) web_key)
     (object_at demo_kube (snd (snd up_run)) web_key)"
proof -
  have down: "scale_down_idle_workloads demo_kube (30 * minute) (idle_web, later (30 * minute) (demo_world ''scale'')) =
      (fst down_run, (fst (snd down_run), snd (snd down_run)))"
    by (simp add: down_run_def)
  have up: "restore_scaled_workloads demo_kube (fst (snd down_run), snd (snd down_run)) =
      (None, (fst (snd up_run), snd (snd up_run)))"
    using down_up(3) by (simp add: up_run_def prod_eq_iff)
  have "ist_scaled (id_status idle_web) = []" by (simp add: idle_web_def)
  from restore_undoes_scale_down [OF demo_api this down up] down_up(2) show ?thesis by blast
qed

text \<open>A detector to delete, with a record of a deployment that is gone.\<close>

definition gone_world :: idle_world where
  "gone_world = (demo_world ''scale'')
     \<lparr>iwd_objects := \<lparr>mem_objects = [], mem_schedules = [], mem_writes = 0\<rparr>,
      iwd_detectors :=
        [(demo_detector ''scale'')
           \<lparr>id_deleting := True,
            id_status := \<lparr>ist_idle = [],
              ist_scaled = [\<lparr>sc_kind = ''Deployment'', sc_name = ''web'', sc_replicas = Some 3, sc_suspend = None, sc_at = 0\<rparr>],
              ist_resized = [], ist_last_check = None\<rparr>\<rparr>]\<rparr>"

theorem missing_workload_blocks_deletion_witness:
  "\<exists>err w' d'. idle_reconcile demo_env demo_kube ''dev'' ''det'' gone_world = (Done 0 (Some err), w') \<and>
     ik_get demo_kube ''dev'' ''det'' w' = Inr d' \<and> id_deleting d' \<and> id_finalizer d'"
proof -
  define s where "s = \<lparr>sc_kind = ''Deployment'', sc_name = ''web'', sc_replicas = Some 3, sc_suspend = None, sc_at = 0\<rparr>"
  define d where "d = (demo_detector ''scale'')
    \<lparr>id_deleting := True, id_status := \<lparr>ist_idle = [], ist_scaled = [s], ist_resized = [], ist_last_check = None\<rparr>\<rparr>"
  have "ik_get demo_kube ''dev'' ''det'' gone_world = Inr d"
    by (simp add: demo_get find_det_def gone_world_def d_def s_def det_key_def demo_detector_def)
  from missing_workload_blocks_deletion [OF demo_api this, of s deployment_gvk ErrNotFound demo_env]
  show ?thesis
    by (simp add: d_def s_def demo_detector_def kind_gvk_def demo_kube_def gone_world_def mem_get_def) blast
qed

subsection \<open>A lost record\<close>

text \<open>The second and third write of a status are refused, as on an outdated copy.\<close>

definition refusing :: "idle_world idle_kube" where
  "refusing = world_kube (\<lambda>n. n = 1 \<or> n = 2) True"

definition refused_run :: "idle_world \<Rightarrow> idle_world" where
  "refused_run w = snd (idle_reconcile demo_env refusing ''dev'' ''det'' w)"

text \<open>
  A conflict loses a workload: when the write of the status after a scale-down is refused,
  and the attempt to save it too, nobody knows of the workload any more. The next reconciles
  skip it because it is at zero, and deleting the detector leaves it there.
\<close>

theorem status_conflict_strands_workload:
  "let w1 = refused_run (demo_world ''scale'');
       w2 = refused_run (later (30 * minute) w1);
       w3 = refused_run (later (5 * minute) w2);
       w4 = refused_run (delete_detectors w3)
   in web_body w4 = Some (Scalable (Some 0) (Some (LabelSelector [(''app'', ''web'')] []))) \<and> iwd_detectors w4 = []"
  by code_simp

end
