(* ===== verification/Startup.thy ===== *)
theory Startup
  imports Go_Flags Watches Idle_Cluster
begin

text \<open>
  \<open>cmd/main.go\<close>: the flags with their defaults, and the start of the manager with its
  controllers. The calls into the libraries that may fail are values of \<open>startup_call\<close>, answered by
  an arbitrary function of the state of the environment; the trace keeps each call with its answer.
  Flags of the libraries (logging, kubeconfig) are a parameter that says which there are, whether
  they need a value and which values they accept. The registration of the schemes and the
  construction of clients and recorders cannot fail and are left out.
\<close>

section \<open>Flags\<close>

record flags =
  fl_metrics_addr :: string
  fl_probe_addr :: string
  fl_dashboard_addr :: string
  fl_leader_elect :: bool
  fl_idle_detector :: bool
  fl_binpacker :: bool
  fl_node_drain :: bool
  fl_autoschedule :: bool
  fl_sleep_interval :: duration
  fl_idle_interval :: duration
  fl_binpacker_interval :: duration
  fl_nodedrain_interval :: duration
  fl_autoschedule_interval :: duration

definition default_flags :: flags where
  "default_flags =
     \<lparr>fl_metrics_addr = '':8080'', fl_probe_addr = '':8081'', fl_dashboard_addr = '':8082'',
      fl_leader_elect = False, fl_idle_detector = False, fl_binpacker = False, fl_node_drain = False,
      fl_autoschedule = False, fl_sleep_interval = 0, fl_idle_interval = 0, fl_binpacker_interval = 0,
      fl_nodedrain_interval = 0, fl_autoschedule_interval = 0\<rparr>"

text \<open>\<open>StringVar\<close>, \<open>BoolVar\<close> and \<open>DurationVar\<close> on a field.\<close>

definition string_var :: "((string \<Rightarrow> string) \<Rightarrow> 's \<Rightarrow> 's) \<Rightarrow> 's flag" where
  "string_var upd = \<lparr>fg_bool = False, fg_set = (\<lambda>v s. Some (upd (\<lambda>_. v) s))\<rparr>"

definition bool_var :: "((bool \<Rightarrow> bool) \<Rightarrow> 's \<Rightarrow> 's) \<Rightarrow> 's flag" where
  "bool_var upd = \<lparr>fg_bool = True, fg_set = (\<lambda>v s. map_option (\<lambda>b. upd (\<lambda>_. b) s) (parse_bool v))\<rparr>"

definition duration_var :: "((duration \<Rightarrow> duration) \<Rightarrow> 's \<Rightarrow> 's) \<Rightarrow> 's flag" where
  "duration_var upd = \<lparr>fg_bool = False, fg_set = (\<lambda>v s. map_option (\<lambda>d. upd (\<lambda>_. d) s) (go_parse_duration v))\<rparr>"

definition main_flags :: "(string \<times> flags flag) list" where
  "main_flags =
     [(''metrics-bind-address'', string_var fl_metrics_addr_update),
      (''health-probe-bind-address'', string_var fl_probe_addr_update),
      (''dashboard-bind-address'', string_var fl_dashboard_addr_update),
      (''leader-elect'', bool_var fl_leader_elect_update),
      (''enable-idle-detector'', bool_var fl_idle_detector_update),
      (''enable-binpacker'', bool_var fl_binpacker_update),
      (''enable-node-drain'', bool_var fl_node_drain_update),
      (''enable-autoschedule-policy'', bool_var fl_autoschedule_update),
      (''sleep-reconcile-interval'', duration_var fl_sleep_interval_update),
      (''idle-reconcile-interval'', duration_var fl_idle_interval_update),
      (''binpacker-reconcile-interval'', duration_var fl_binpacker_interval_update),
      (''nodedrain-reconcile-interval'', duration_var fl_nodedrain_interval_update),
      (''autoschedule-reconcile-interval'', duration_var fl_autoschedule_interval_update)]"

type_synonym lib_flags = "string \<Rightarrow> (bool \<times> (string \<Rightarrow> bool)) option"

definition formal_flags :: "lib_flags \<Rightarrow> string \<Rightarrow> flags flag option" where
  "formal_flags lib name =
     (case map_of main_flags name of
        Some fl \<Rightarrow> Some fl
      | None \<Rightarrow> map_option (\<lambda>(b, ok). \<lparr>fg_bool = b, fg_set = (\<lambda>v s. if ok v then Some s else None)\<rparr>) (lib name))"

section \<open>Starting the manager\<close>

record manager_options =
  mo_metrics_addr :: string
  mo_probe_addr :: string
  mo_leader_elect :: bool
  mo_election_id :: string

text \<open>The reconcilers with what \<open>main\<close> puts into them: the interval, the metrics client, the recorder.\<close>

datatype reconciler =
    SleepScheduleReconciler duration string
  | IdleDetectorReconciler duration bool
  | BinPackerReconciler duration
  | NodeDrainPolicyReconciler duration string
  | AutoSchedulePolicyReconciler duration string

datatype startup_call =
    GetConfig
  | NewManager manager_options
  | NewMetricsClient
  | SetupController reconciler controller_conf
  | AddDashboard string
  | AddHealthz
  | AddReadyz
  | StartManager

type_synonym 'w runtime = "startup_call \<Rightarrow> 'w \<Rightarrow> bool \<times> 'w"
type_synonym trace = "(startup_call \<times> bool) list"

text \<open>A call after whose error the program exits with status 1.\<close>

definition must :: "'w runtime \<Rightarrow> startup_call \<Rightarrow> trace \<times> 'w \<Rightarrow> unit option \<times> (trace \<times> 'w)" where
  "must rt c st =
     (case rt c (snd st) of (ok, w) \<Rightarrow> ((if ok then None else Some ()), (fst st @ [(c, ok)], w)))"

definition manager_calls :: "flags \<Rightarrow> startup_call list" where
  "manager_calls f =
     [GetConfig,
      NewManager \<lparr>mo_metrics_addr = fl_metrics_addr f, mo_probe_addr = fl_probe_addr f,
        mo_leader_elect = fl_leader_elect f, mo_election_id = ''slumlord.io''\<rparr>,
      SetupController (SleepScheduleReconciler (fl_sleep_interval f) ''slumlord-sleep-schedule'') sleep_setup]"

text \<open>Without a metrics client the detector is set up all the same.\<close>

definition setup_idle_detector :: "'w runtime \<Rightarrow> flags \<Rightarrow> trace \<times> 'w \<Rightarrow> unit option \<times> (trace \<times> 'w)" where
  "setup_idle_detector rt f st =
     (case rt NewMetricsClient (snd st) of
        (mc, w) \<Rightarrow>
          must rt (SetupController (IdleDetectorReconciler (fl_idle_interval f) mc) idle_setup)
            (fst st @ [(NewMetricsClient, mc)], w))"

definition controller_calls :: "flags \<Rightarrow> startup_call list" where
  "controller_calls f =
     (if fl_binpacker f then [SetupController (BinPackerReconciler (fl_binpacker_interval f)) pack_setup] else []) @
     (if fl_node_drain f
      then [SetupController (NodeDrainPolicyReconciler (fl_nodedrain_interval f) ''slumlord-node-drain'') drain_setup]
      else []) @
     (if fl_autoschedule f
      then [SetupController (AutoSchedulePolicyReconciler (fl_autoschedule_interval f) ''slumlord-autoschedule-policy'')
              auto_setup]
      else [])"

definition server_calls :: "flags \<Rightarrow> startup_call list" where
  "server_calls f =
     (if fl_dashboard_addr f \<noteq> ''0'' then [AddDashboard (fl_dashboard_addr f)] else []) @
     [AddHealthz, AddReadyz, StartManager]"

definition startup_steps :: "'w runtime \<Rightarrow> flags \<Rightarrow> (trace \<times> 'w \<Rightarrow> unit option \<times> (trace \<times> 'w)) list" where
  "startup_steps rt f =
     map (must rt) (manager_calls f) @
     (if fl_idle_detector f then [setup_idle_detector rt f] else []) @
     map (must rt) (controller_calls f @ server_calls f)"

text \<open>The exit status of the program, the calls it made, and the state it left.\<close>

definition run_main :: "lib_flags \<Rightarrow> 'w runtime \<Rightarrow> string list \<Rightarrow> 'w \<Rightarrow> nat \<times> trace \<times> 'w" where
  "run_main lib rt args w =
     (case parse_flags (formal_flags lib) args default_flags of
        FlagHelp \<Rightarrow> (0, [], w)
      | FlagError \<Rightarrow> (2, [], w)
      | Parsed f rest \<Rightarrow>
          (case run_steps (startup_steps rt f) ([], w) of
             (Some u, st) \<Rightarrow> (1, st)
           | (None, st) \<Rightarrow> (0, st)))"

section \<open>The command line\<close>

text \<open>The command line that sets every flag.\<close>

definition show_flag :: "string \<Rightarrow> string \<Rightarrow> string" where
  "show_flag name v = ''--'' @ name @ ''='' @ v"

definition show_flags :: "flags \<Rightarrow> string list" where
  "show_flags f =
     [show_flag ''metrics-bind-address'' (fl_metrics_addr f),
      show_flag ''health-probe-bind-address'' (fl_probe_addr f),
      show_flag ''dashboard-bind-address'' (fl_dashboard_addr f),
      show_flag ''leader-elect'' (show_bool (fl_leader_elect f)),
      show_flag ''enable-idle-detector'' (show_bool (fl_idle_detector f)),
      show_flag ''enable-binpacker'' (show_bool (fl_binpacker f)),
      show_flag ''enable-node-drain'' (show_bool (fl_node_drain f)),
      show_flag ''enable-autoschedule-policy'' (show_bool (fl_autoschedule f)),
      show_flag ''sleep-reconcile-interval'' (show_nanos (fl_sleep_interval f)),
      show_flag ''idle-reconcile-interval'' (show_nanos (fl_idle_interval f)),
      show_flag ''binpacker-reconcile-interval'' (show_nanos (fl_binpacker_interval f)),
      show_flag ''nodedrain-reconcile-interval'' (show_nanos (fl_nodedrain_interval f)),
      show_flag ''autoschedule-reconcile-interval'' (show_nanos (fl_autoschedule_interval f))]"

definition fits_int64 :: "flags \<Rightarrow> bool" where
  "fits_int64 f \<longleftrightarrow>
     list_all (\<lambda>d. - (2 ^ 63) \<le> d \<and> d < 2 ^ 63)
       [fl_sleep_interval f, fl_idle_interval f, fl_binpacker_interval f, fl_nodedrain_interval f,
        fl_autoschedule_interval f]"

lemma named_flag:
  assumes "name \<noteq> []" "hd name \<noteq> CHR ''-''" "CHR ''='' \<notin> set name"
  shows "flag_arg_of (show_flag name v) = NamedFlag name (Some v)"
proof -
  have "takeWhile (\<lambda>c. c \<noteq> CHR ''='') (name @ CHR ''='' # v) = name"
    "dropWhile (\<lambda>c. c \<noteq> CHR ''='') (name @ CHR ''='' # v) = CHR ''='' # v"
    using assms(3) by (induction name) auto
  moreover have "hd name \<noteq> CHR ''=''" using assms(1,3) by (cases name) auto
  ultimately show ?thesis using assms(1,2) by (simp add: flag_arg_of_def show_flag_def)
qed

lemma parse_shown_flag:
  assumes "map_of main_flags name = Some fl" "fg_set fl v st = Some st'"
    and "name \<noteq> []" "hd name \<noteq> CHR ''-''" "CHR ''='' \<notin> set name"
  shows "parse_flags (formal_flags lib) (show_flag name v # args) st = parse_flags (formal_flags lib) args st'"
  using assms(1,2) by (simp add: named_flag [OF assms(3-5)] formal_flags_def)

lemma var_simps:
  "fg_set (string_var upd) v s = Some (upd (\<lambda>_. v) s)"
  "fg_set (bool_var updb) (show_bool b) s = Some (updb (\<lambda>_. b) s)"
  "- (2 ^ 63) \<le> d \<Longrightarrow> d < 2 ^ 63 \<Longrightarrow> fg_set (duration_var updd) (show_nanos d) s = Some (updd (\<lambda>_. d) s)"
  by (simp_all add: string_var_def bool_var_def duration_var_def nanos_read_back)

text \<open>
  C40: Every flag reaches its own variable: the command line that spells out a configuration is
  read as that configuration, whatever was set before it, and the arguments after it are left.
\<close>

theorem command_line_round_trip:
  assumes "fits_int64 f"
  shows "parse_flags (formal_flags lib) (show_flags f @ rest) st = parse_flags (formal_flags lib) rest f"
proof -
  have all: "st\<lparr>fl_metrics_addr := fl_metrics_addr f, fl_probe_addr := fl_probe_addr f,
      fl_dashboard_addr := fl_dashboard_addr f, fl_leader_elect := fl_leader_elect f,
      fl_idle_detector := fl_idle_detector f, fl_binpacker := fl_binpacker f, fl_node_drain := fl_node_drain f,
      fl_autoschedule := fl_autoschedule f, fl_sleep_interval := fl_sleep_interval f,
      fl_idle_interval := fl_idle_interval f, fl_binpacker_interval := fl_binpacker_interval f,
      fl_nodedrain_interval := fl_nodedrain_interval f, fl_autoschedule_interval := fl_autoschedule_interval f\<rparr> = f"
    by (rule flags.equality) simp_all
  show ?thesis
    using assms unfolding show_flags_def append_Cons append_Nil
    by (simp add: all parse_shown_flag main_flags_def var_simps fits_int64_def del: parse_flags.simps)
qed

definition all_on :: flags where
  "all_on = default_flags\<lparr>fl_idle_detector := True, fl_binpacker := True, fl_node_drain := True, fl_autoschedule := True,
     fl_dashboard_addr := ''0'', fl_sleep_interval := 90 * second\<rparr>"

theorem command_line_round_trip_witness:
  "parse_flags (formal_flags (\<lambda>_. None)) (show_flags all_on @ [''rest'']) default_flags = Parsed all_on [''rest'']"
proof -
  have "fits_int64 all_on" by (simp add: fits_int64_def all_on_def default_flags_def)
  from command_line_round_trip [OF this] show ?thesis by (simp add: flag_arg_of_def)
qed

section \<open>What a start does\<close>

text \<open>A run of calls that succeed, but for the metrics client, whose answer is \<open>mc\<close>.\<close>

definition answers :: "bool \<Rightarrow> startup_call list \<Rightarrow> trace" where
  "answers mc cs = map (\<lambda>c. (c, c = NewMetricsClient \<longrightarrow> mc)) cs"

lemma answers_simps [simp]:
  "answers mc [] = []" "answers mc (cs @ ds) = answers mc cs @ answers mc ds"
  "answers mc (c # cs) = (c, c = NewMetricsClient \<longrightarrow> mc) # answers mc cs"
  by (simp_all add: answers_def)

definition stopped_at :: "bool \<Rightarrow> startup_call list \<Rightarrow> trace \<Rightarrow> bool" where
  "stopped_at mc cs tr \<longleftrightarrow>
     (\<exists>pre c post. cs = pre @ c # post \<and> c \<noteq> NewMetricsClient \<and> tr = answers mc pre @ [(c, False)])"

lemma stopped_at_append: "stopped_at mc cs tr \<Longrightarrow> stopped_at mc (cs @ ds) tr"
  unfolding stopped_at_def by (metis append.assoc append_Cons)

lemma stopped_at_after: "stopped_at mc cs tr \<Longrightarrow> stopped_at mc (ds @ cs) (answers mc ds @ tr)"
  unfolding stopped_at_def by (metis append.assoc answers_simps(2))

text \<open>What a part of the start with the calls \<open>cs\<close> makes of the trace, with its outcome.\<close>

definition part_done :: "bool \<Rightarrow> startup_call list \<Rightarrow> trace \<Rightarrow> unit option \<Rightarrow> trace \<Rightarrow> bool" where
  "part_done mc cs tr r tr' \<longleftrightarrow>
     (case r of
        None \<Rightarrow> tr' = tr @ answers mc cs
      | Some u \<Rightarrow> \<exists>t. tr' = tr @ t \<and> stopped_at mc cs t)"

lemma part_done_next:
  "part_done mc cs tr None tr1 \<Longrightarrow> part_done mc ds tr1 r tr' \<Longrightarrow> part_done mc (cs @ ds) tr r tr'"
  using stopped_at_after [of mc ds _ cs] by (fastforce simp: part_done_def split: option.splits)

lemma part_done_stop: "part_done mc cs tr (Some u) tr' \<Longrightarrow> part_done mc (cs @ ds) tr (Some u) tr'"
  using stopped_at_append by (fastforce simp: part_done_def)

lemma must_eq: "must rt c (tr, w) = (case rt c w of (ok, w1) \<Rightarrow> ((if ok then None else Some ()), (tr @ [(c, ok)], w1)))"
  by (simp add: must_def)

lemma must_done:
  assumes "must rt c (tr, w) = (r, (tr', w'))" "c \<noteq> NewMetricsClient"
  shows "part_done mc [c] tr r tr'"
proof -
  have "stopped_at mc [c] [(c, False)]"
    unfolding stopped_at_def
    by (rule exI [of _ "[]"], rule exI [of _ c], rule exI [of _ "[]"]) (simp add: assms(2))
  then show ?thesis using assms by (auto simp: must_eq part_done_def split: prod.splits if_splits)
qed

lemma must_steps_done:
  assumes "run_steps (map (must rt) cs) (tr, w) = (r, (tr', w'))" "NewMetricsClient \<notin> set cs"
  shows "part_done mc cs tr r tr'"
  using assms
proof (induction cs arbitrary: tr w)
  case (Cons c cs)
  obtain r1 tr1 w1 where c: "must rt c (tr, w) = (r1, (tr1, w1))" by (metis prod.exhaust)
  with must_done have d: "part_done mc [c] tr r1 tr1" using Cons.prems(2) by (metis list.set_intros(1))
  show ?case
  proof (cases r1)
    case None
    then have "part_done mc cs tr1 r tr'" using Cons c by simp
    then show ?thesis using part_done_next [of mc "[c]"] d None by fastforce
  next
    case (Some u)
    then show ?thesis using part_done_stop [of mc "[c]"] d Cons.prems(1) c by fastforce
  qed
qed (simp add: part_done_def)

lemma calls_plain:
  "NewMetricsClient \<notin> set (manager_calls f)" "NewMetricsClient \<notin> set (controller_calls f @ server_calls f)"
  by (auto simp: manager_calls_def controller_calls_def server_calls_def)

definition idle_calls :: "flags \<Rightarrow> bool \<Rightarrow> startup_call list" where
  "idle_calls f mc =
     (if fl_idle_detector f
      then [NewMetricsClient, SetupController (IdleDetectorReconciler (fl_idle_interval f) mc) idle_setup] else [])"

lemma idle_step_done:
  assumes "run_steps (if fl_idle_detector f then [setup_idle_detector rt f] else []) (tr, w) = (r, (tr', w'))"
  shows "\<exists>mc. part_done mc (idle_calls f mc) tr r tr'"
proof (cases "fl_idle_detector f")
  case True
  obtain mc w1 where mc: "rt NewMetricsClient w = (mc, w1)" by force
  let ?c = "SetupController (IdleDetectorReconciler (fl_idle_interval f) mc) idle_setup"
  have "must rt ?c (tr @ [(NewMetricsClient, mc)], w1) = (r, (tr', w'))"
    using assms True mc by (auto simp: setup_idle_detector_def split: prod.splits option.splits)
  then have "part_done mc [?c] (tr @ [(NewMetricsClient, mc)]) r tr'" by (rule must_done) simp
  moreover have "part_done mc [NewMetricsClient] tr None (tr @ [(NewMetricsClient, mc)])"
    by (simp add: part_done_def)
  ultimately have "part_done mc ([NewMetricsClient] @ [?c]) tr r tr'" by (rule part_done_next [rotated])
  then show ?thesis using True by (intro exI [of _ mc]) (simp add: idle_calls_def)
qed (use assms in \<open>auto simp: part_done_def idle_calls_def\<close>)

lemma startup_trace:
  assumes "run_steps (startup_steps rt f) ([], w) = (r, (tr, w'))"
  shows "\<exists>mc. part_done mc (manager_calls f @ idle_calls f mc @ controller_calls f @ server_calls f) [] r tr"
proof -
  let ?idle = "if fl_idle_detector f then [setup_idle_detector rt f] else []"
  obtain r1 tr1 w1 where 1: "run_steps (map (must rt) (manager_calls f)) ([], w) = (r1, (tr1, w1))"
    by (metis prod.exhaust)
  obtain r2 tr2 w2 where 2: "run_steps ?idle (tr1, w1) = (r2, (tr2, w2))" by (metis prod.exhaust)
  have d1: "part_done mc (manager_calls f) [] r1 tr1" for mc by (rule must_steps_done [OF 1 calls_plain(1)])
  show ?thesis
  proof (cases r1)
    case (Some u)
    then show ?thesis using part_done_stop d1 1 assms by (auto simp: startup_steps_def run_steps_append)
  next
    case r1: None
    obtain mc where d2: "part_done mc (idle_calls f mc) tr1 r2 tr2" using idle_step_done [OF 2] by blast
    then have d12: "part_done mc (manager_calls f @ idle_calls f mc) [] r2 tr2"
      using part_done_next d1 r1 by blast
    show ?thesis
    proof (cases r2)
      case (Some u)
      then have "r = r2" "tr = tr2" using assms 1 2 r1 by (auto simp: startup_steps_def run_steps_append)
      then show ?thesis using part_done_stop [of mc _ "[]" u tr2] d12 Some by fastforce
    next
      case None
      then have "run_steps (map (must rt) (controller_calls f @ server_calls f)) (tr2, w2) = (r, (tr, w'))"
        using assms 1 2 r1 by (simp add: startup_steps_def run_steps_append)
      from must_steps_done [OF this calls_plain(2)] show ?thesis
        using part_done_next d12 None by fastforce
    qed
  qed
qed

definition planned_calls :: "flags \<Rightarrow> bool \<Rightarrow> startup_call list" where
  "planned_calls f mc = manager_calls f @ idle_calls f mc @ controller_calls f @ server_calls f"


text \<open>An environment in which the calls on a list fail; nothing is on unless asked for.\<close>

definition failing :: "startup_call list \<Rightarrow> nat runtime" where
  "failing cs c w = (c \<notin> set cs, w + 1)"

definition degraded_start :: "nat \<times> trace \<times> nat" where
  "degraded_start = run_main (\<lambda>_. None) (failing [NewMetricsClient])
     [''-enable-idle-detector'', ''--idle-reconcile-interval'', ''1h30m'', ''--dashboard-bind-address=0''] 0"

definition degraded_flags :: flags where
  "degraded_flags = default_flags\<lparr>fl_idle_detector := True, fl_idle_interval := 5400 * second, fl_dashboard_addr := ''0''\<rparr>"

lemma degraded_runs:
  "parse_flags (formal_flags (\<lambda>_. None))
     [''-enable-idle-detector'', ''--idle-reconcile-interval'', ''1h30m'', ''--dashboard-bind-address=0''] default_flags =
     Parsed degraded_flags []"
  "degraded_start =
     (0, [(GetConfig, True),
          (NewManager \<lparr>mo_metrics_addr = '':8080'', mo_probe_addr = '':8081'', mo_leader_elect = False,
             mo_election_id = ''slumlord.io''\<rparr>, True),
          (SetupController (SleepScheduleReconciler 0 ''slumlord-sleep-schedule'') sleep_setup, True),
          (NewMetricsClient, False),
          (SetupController (IdleDetectorReconciler (5400 * second) False) idle_setup, True),
          (AddHealthz, True), (AddReadyz, True), (StartManager, True)], 8)"
  by code_simp+


section \<open>The idle detector without metrics\<close>

text \<open>The client of the detector that a start has set up.\<close>

definition detector_client :: "reconciler \<Rightarrow> 'w idle_kube \<Rightarrow> 'w idle_kube" where
  "detector_client r c =
     (case r of
        IdleDetectorReconciler d mc \<Rightarrow> c\<lparr>ik_metrics := (if mc then ik_metrics c else None)\<rparr>
      | _ \<Rightarrow> c)"

lemma part_done_member:
  assumes "part_done mc cs [] r tr" "(c, ok) \<in> set tr"
  shows "c \<in> set cs" "c = NewMetricsClient \<Longrightarrow> ok = mc"
  using assms by (auto simp: part_done_def stopped_at_def answers_def split: option.splits)

lemma planned_detector:
  assumes "SetupController (IdleDetectorReconciler d mc) conf \<in>
      set (manager_calls f @ idle_calls f mc' @ controller_calls f @ server_calls f)"
  shows "mc = mc'" "d = fl_idle_interval f"
  using assms by (auto simp: manager_calls_def idle_calls_def controller_calls_def server_calls_def split: if_splits)

lemma run_main_done:
  assumes "run_main lib rt args w = (code, tr, w')" "tr \<noteq> []"
  shows "\<exists>f rest mc r. parse_flags (formal_flags lib) args default_flags = Parsed f rest \<and>
    part_done mc (manager_calls f @ idle_calls f mc @ controller_calls f @ server_calls f) [] r tr"
proof -
  obtain f rest where p: "parse_flags (formal_flags lib) args default_flags = Parsed f rest"
    using assms by (auto simp: run_main_def split: parsed.splits)
  obtain r tr1 w1 where run: "run_steps (startup_steps rt f) ([], w) = (r, (tr1, w1))" by (metis prod.exhaust)
  then have "tr1 = tr" using assms(1) p by (auto simp: run_main_def split: option.splits)
  then show ?thesis using startup_trace [OF run] p by blast
qed

lemma no_metrics_no_change:
  assumes api: "idle_api c" "ik_metrics c = None"
    and get: "ik_get c ns name w = Inr d" "\<not> id_deleting d" "id_finalizer d"
    and run: "idle_reconcile env c ns name w = (res, w')"
  shows "object_at c w' k = object_at c w k"
proof (rule ccontr)
  assume "object_at c w' k \<noteq> object_at c w k"
  from live_change_acts [OF api(1) get run this] obtain dur idle w1 now w2 r st where
    det: "detect_idle_workloads env c d w = (Inr idle, w1)"
    and step: "idle_act env c dur (set_checked idle now d, w2) = (r, st)" "object_at c (snd st) k \<noteq> object_at c w2 k"
    by blast
  have "idle = []" by (rule no_metrics_none [OF det api(2)])
  with idle_api.idle_act_objects [OF api(1) step] show False by (simp add: set_checked_def)
qed

text \<open>
  C27: The degraded mode is safe. When the metrics client could not be made, the detector that the
  start sets up has none, and no reconcile of a live detector changes a workload, whatever its status says.
\<close>

theorem degraded_detector_changes_nothing:
  assumes start: "run_main lib rt args w0 = (code, tr, w1)" "(NewMetricsClient, False) \<in> set tr"
      "(SetupController r conf, ok) \<in> set tr" "r = IdleDetectorReconciler d mc"
    and api: "idle_api (detector_client r c)"
    and get: "ik_get c ns name w = Inr det" "\<not> id_deleting det" "id_finalizer det"
    and run: "idle_reconcile (env\<lparr>ie_default := d\<rparr>) (detector_client r c) ns name w = (res, w')"
  shows "object_at c w' k = object_at c w k"
proof -
  have "tr \<noteq> []" using start(2) by auto
  from run_main_done [OF start(1) this] obtain f mc' rr where
    pd: "part_done mc' (manager_calls f @ idle_calls f mc' @ controller_calls f @ server_calls f) [] rr tr" by blast
  have "\<not> mc" using part_done_member [OF pd] start(2-4) planned_detector(1) by metis
  then have c: "ik_metrics (detector_client r c) = None" "ik_get (detector_client r c) = ik_get c"
      "object_at (detector_client r c) = object_at c"
    by (simp_all add: start(4) detector_client_def object_at_def fun_eq_iff)
  show ?thesis using no_metrics_no_change [OF api c(1) _ get(2,3) run] get(1) c(2,3) by simp
qed

theorem degraded_detector_changes_nothing_witness:
  "web_body (later (30 * minute) (demo1 ''scale'')) =
     web_body (snd (idle_reconcile (demo_env\<lparr>ie_default := 5400 * second\<rparr>)
       (detector_client (IdleDetectorReconciler (5400 * second) False) demo_kube) ''dev'' ''det''
       (later (30 * minute) (demo1 ''scale'')))) \<and>
   web_body (demo2 ''scale'') \<noteq> web_body (later (30 * minute) (demo1 ''scale''))"
proof -
  let ?w = "later (30 * minute) (demo1 ''scale'')"
  let ?c = "detector_client (IdleDetectorReconciler (5400 * second) False) demo_kube"
  have api: "idle_api ?c"
  proof -
    have "?c = world_kube (\<lambda>_. False) False" by (simp add: detector_client_def demo_kube_def world_kube_def)
    then show ?thesis using world.idle_api_axioms by metis
  qed
  obtain d1 where d1: "find_det ''dev'' ''det'' (demo1 ''scale'') = Some d1" "id_deleting d1 = False" "id_finalizer d1 = True"
    using one_detector [OF demo_detectors(1)] by blast
  have get1: "ik_get demo_kube ''dev'' ''det'' ?w = Inr d1" unfolding demo_get find_later d1 by simp
  obtain tr where run: "degraded_start = (0, tr, 8)" "(NewMetricsClient, False) \<in> set tr"
      "(SetupController (IdleDetectorReconciler (5400 * second) False) idle_setup, True) \<in> set tr"
    using degraded_runs(2) by simp
  obtain res w' where r: "idle_reconcile (demo_env\<lparr>ie_default := 5400 * second\<rparr>) ?c ''dev'' ''det'' ?w = (res, w')" by force
  have "object_at demo_kube w' web_key = object_at demo_kube ?w web_key"
    using degraded_detector_changes_nothing [OF run(1) [unfolded degraded_start_def] run(2,3) refl api get1 _ _ r] d1
    by simp
  then show ?thesis using r demo_runs(4) demo1_body by (auto simp: web_body_at)
qed

end
