(* ===== verification/Dashboard.thy ===== *)
theory Dashboard
  imports Node_Drain Idle_Detect
begin

text \<open>
  \<open>internal/dashboard/dashboard.go\<close>: the four handlers of the read-only web API, one
  definition per handler over the lists that the reader returns, and the server around them. An
  answer is the HTTP error or the value that is sent as JSON. An absent list and an empty one are the same value here, so
  that the replacement of nil by an empty list needs no step of its own. Times become text by
  the parameter \<open>rfc3339\<close>, which stands for \<open>Format(time.RFC3339)\<close>.
\<close>

record 'w reader =
  rd_schedules :: "'w \<Rightarrow> kerr + sleep_schedule list"
  rd_detectors :: "'w \<Rightarrow> kerr + idle_detector list"
  rd_policies :: "'w \<Rightarrow> kerr + drain_policy list"

datatype 'a answer = HttpError string int | Json 'a

section \<open>Overview\<close>

record overview_response =
  ov_schedules :: int
  ov_sleeping :: int
  ov_awake :: int
  ov_managed :: int
  ov_detectors :: int
  ov_idle :: int
  ov_scaled :: int
  ov_policies :: int
  ov_drained :: int

fun count_schedules :: "overview_response \<Rightarrow> sleep_schedule list \<Rightarrow> overview_response" where
  "count_schedules r [] = r"
| "count_schedules r (s # ss) =
     (let r1 = (if sst_sleeping (sch_status s) then r\<lparr>ov_sleeping := s64 (ov_sleeping r + 1)\<rparr>
                else r\<lparr>ov_awake := s64 (ov_awake r + 1)\<rparr>)
      in count_schedules
           (r1\<lparr>ov_managed := s64 (ov_managed r1 + int (length (sst_managed (sch_status s))))\<rparr>) ss)"

fun count_detectors :: "overview_response \<Rightarrow> idle_detector list \<Rightarrow> overview_response" where
  "count_detectors r [] = r"
| "count_detectors r (d # ds) =
     count_detectors
       (r\<lparr>ov_idle := s64 (ov_idle r + int (length (ist_idle (id_status d)))),
          ov_scaled := s64 (ov_scaled r + int (length (ist_scaled (id_status d))))\<rparr>) ds"

fun count_policies :: "overview_response \<Rightarrow> drain_policy list \<Rightarrow> overview_response" where
  "count_policies r [] = r"
| "count_policies r (p # ps) =
     count_policies (r\<lparr>ov_drained := s64 (ov_drained r + dst_total_drained (dp_status p))\<rparr>) ps"

definition handle_overview :: "'w reader \<Rightarrow> 'w \<Rightarrow> overview_response answer" where
  "handle_overview rd w =
     (case rd_schedules rd w of
        Inl e \<Rightarrow> HttpError ''failed to list schedules'' 500
      | Inr ss \<Rightarrow>
          (let r0 = \<lparr>ov_schedules = int (length ss), ov_sleeping = 0, ov_awake = 0, ov_managed = 0,
                     ov_detectors = 0, ov_idle = 0, ov_scaled = 0, ov_policies = 0, ov_drained = 0\<rparr>;
               r1 = count_schedules r0 ss;
               r2 = (case rd_detectors rd w of
                       Inl e \<Rightarrow> r1
                     | Inr ds \<Rightarrow> count_detectors (r1\<lparr>ov_detectors := int (length ds)\<rparr>) ds);
               r3 = (case rd_policies rd w of
                       Inl e \<Rightarrow> r2
                     | Inr ps \<Rightarrow> count_policies (r2\<lparr>ov_policies := int (length ps)\<rparr>) ps)
           in Json r3))"

section \<open>Schedules\<close>

record schedule_response =
  sr_namespace :: string
  sr_name :: string
  sr_sleeping :: bool
  sr_start :: string
  sr_end :: string
  sr_timezone :: string
  sr_days :: "int list"
  sr_days_display :: string
  sr_managed :: "managed_workload list"
  sr_last_transition :: "string option"
  sr_labels :: smap
  sr_names :: "string list"
  sr_types :: "string list"

definition or_utc :: "string \<Rightarrow> string" where
  "or_utc tz = (if tz = [] then ''UTC'' else tz)"

definition schedule_answer :: "(instant \<Rightarrow> string) \<Rightarrow> sleep_schedule \<Rightarrow> schedule_response" where
  "schedule_answer rfc3339 s =
     (let st = sch_status s; sel = ss_selector (sch_spec s);
          sr = \<lparr>sr_namespace = sch_namespace s, sr_name = sch_name s,
                sr_sleeping = sst_sleeping st, sr_start = [], sr_end = [], sr_timezone = [], sr_days = [],
                sr_days_display = sst_days_display st, sr_managed = sst_managed st,
                sr_last_transition = None,
                sr_labels = wsel_labels sel, sr_names = wsel_names sel, sr_types = wsel_types sel\<rparr>;
          sr1 = (case get_windows (sch_spec s) of
                   [] \<Rightarrow> sr
                 | win # _ \<Rightarrow> sr\<lparr>sr_start := sw_start win, sr_end := sw_end win,
                                sr_timezone := sw_timezone win, sr_days := sw_days win\<rparr>)
      in sr1\<lparr>sr_timezone := or_utc (sr_timezone sr1),
             sr_last_transition := map_option rfc3339 (sst_last_transition st)\<rparr>)"

definition handle_schedules ::
  "(instant \<Rightarrow> string) \<Rightarrow> 'w reader \<Rightarrow> 'w \<Rightarrow> schedule_response list answer" where
  "handle_schedules rfc3339 rd w =
     (case rd_schedules rd w of
        Inl e \<Rightarrow> HttpError ''failed to list schedules'' 500
      | Inr ss \<Rightarrow> Json (map (schedule_answer rfc3339) ss))"

section \<open>Idle detectors\<close>

record detector_response =
  ir_namespace :: string
  ir_name :: string
  ir_action :: string
  ir_duration :: string
  ir_cpu :: "int option"
  ir_mem :: "int option"
  ir_idle :: "idle_workload list"
  ir_scaled :: "scaled_workload list"
  ir_last_check :: "string option"
  ir_labels :: smap
  ir_names :: "string list"
  ir_types :: "string list"

definition detector_answer :: "(instant \<Rightarrow> string) \<Rightarrow> idle_detector \<Rightarrow> detector_response" where
  "detector_answer rfc3339 d =
     (let sp = id_spec d; st = id_status d; sel = ids_selector sp in
      \<lparr>ir_namespace = id_namespace d, ir_name = id_name d,
       ir_action = ids_action sp, ir_duration = ids_duration sp,
       ir_cpu = ith_cpu (ids_thresholds sp), ir_mem = ith_mem (ids_thresholds sp),
       ir_idle = ist_idle st, ir_scaled = ist_scaled st,
       ir_last_check = map_option rfc3339 (ist_last_check st),
       ir_labels = wsel_labels sel, ir_names = wsel_names sel, ir_types = wsel_types sel\<rparr>)"

text \<open>A failed list, for instance without the resource definition, is an empty answer.\<close>

definition handle_idle_detectors ::
  "(instant \<Rightarrow> string) \<Rightarrow> 'w reader \<Rightarrow> 'w \<Rightarrow> detector_response list answer" where
  "handle_idle_detectors rfc3339 rd w =
     (case rd_detectors rd w of
        Inl e \<Rightarrow> Json []
      | Inr ds \<Rightarrow> Json (map (detector_answer rfc3339) ds))"

section \<open>Node drain policies\<close>

record policy_response =
  pr_name :: string
  pr_cron :: string
  pr_timezone :: string
  pr_suspended :: bool
  pr_dry_run :: bool
  pr_drained :: int
  pr_next_run :: "string option"
  pr_last_run :: "drain_run option"
  pr_selector :: smap
  pr_thresholds :: drain_thresholds
  pr_conditions :: "string list"

definition condition_text :: "condition \<Rightarrow> string" where
  "condition_text c = cd_type c @ ''='' @ cd_status c @ '' ('' @ cd_reason c @ '')''"

definition policy_answer :: "(instant \<Rightarrow> string) \<Rightarrow> drain_policy \<Rightarrow> policy_response" where
  "policy_answer rfc3339 p =
     (let sp = dp_spec p; st = dp_status p in
      \<lparr>pr_name = dp_name p, pr_cron = dsc_cron (dsp_schedule sp),
       pr_timezone = or_utc (dsc_timezone (dsp_schedule sp)),
       pr_suspended = dsp_suspend sp, pr_dry_run = dsf_dry_run (dsp_safety sp),
       pr_drained = dst_total_drained st,
       pr_next_run = map_option rfc3339 (dst_next_run st), pr_last_run = dst_last_run st,
       pr_selector = dsp_node_selector sp, pr_thresholds = dsp_thresholds sp,
       pr_conditions = map condition_text (dst_conditions st)\<rparr>)"

definition handle_policies ::
  "(instant \<Rightarrow> string) \<Rightarrow> 'w reader \<Rightarrow> 'w \<Rightarrow> policy_response list answer" where
  "handle_policies rfc3339 rd w =
     (case rd_policies rd w of
        Inl e \<Rightarrow> Json []
      | Inr ps \<Rightarrow> Json (map (policy_answer rfc3339) ps))"

section \<open>The server\<close>

text \<open>
  The patterns registered with \<open>ServeMux\<close>, for a clean path: the four without a final slash match
  themselves only, whatever the method, and \<open>/\<close> takes the rest to the static files.
\<close>

datatype page =
    Overview "overview_response answer"
  | Schedules "schedule_response list answer"
  | Detectors "detector_response list answer"
  | Policies "policy_response list answer"
  | StaticFile string

definition serve_request :: "(instant \<Rightarrow> string) \<Rightarrow> 'w reader \<Rightarrow> string \<Rightarrow> 'w \<Rightarrow> page" where
  "serve_request rfc3339 rd path w =
     (if path = ''/api/overview'' then Overview (handle_overview rd w)
      else if path = ''/api/schedules'' then Schedules (handle_schedules rfc3339 rd w)
      else if path = ''/api/idle-detectors'' then Detectors (handle_idle_detectors rfc3339 rd w)
      else if path = ''/api/node-drain-policies'' then Policies (handle_policies rfc3339 rd w)
      else StaticFile path)"

text \<open>
  \<open>Start\<close> ends with the error of \<open>fs.Sub\<close> or of \<open>ListenAndServe\<close>; that the server was closed, which
  the shutdown at the end of the context causes, is no error.
\<close>

datatype listen_end = ServerClosed | ListenError string

definition start_server :: "string option \<Rightarrow> listen_end \<Rightarrow> string option" where
  "start_server sub listened =
     (case sub of
        Some e \<Rightarrow> Some e
      | None \<Rightarrow> (case listened of ServerClosed \<Rightarrow> None | ListenError e \<Rightarrow> Some e))"

section \<open>What the answers say\<close>

lemma s64_add: "s64 (s64 a + b) = s64 (a + b)"
proof -
  have "(a + 2 ^ 63) mod 2 ^ 64 - 2 ^ 63 + b + 2 ^ 63 = (a + 2 ^ 63) mod 2 ^ 64 + (b::int)" by simp
  then have "s64 (s64 a + b) = ((a + 2 ^ 63) mod 2 ^ 64 + b) mod 2 ^ 64 - 2 ^ 63"
    unfolding s64_def by simp
  also have "\<dots> = (a + 2 ^ 63 + b) mod 2 ^ 64 - 2 ^ 63" by (simp only: mod_add_left_eq)
  also have "\<dots> = s64 (a + b)" by (simp add: s64_def add_ac)
  finally show ?thesis .
qed

lemma s64_zero: "s64 0 = 0"
  by (simp add: s64_def)

text \<open>Every counter is the wrapped sum over the list; the other fields are untouched.\<close>

lemma count_schedules_closed:
  "count_schedules (r\<lparr>ov_sleeping := s64 a, ov_awake := s64 b, ov_managed := s64 m\<rparr>) ss =
     r\<lparr>ov_sleeping := s64 (a + int (length (filter (\<lambda>s. sst_sleeping (sch_status s)) ss))),
       ov_awake := s64 (b + int (length (filter (\<lambda>s. \<not> sst_sleeping (sch_status s)) ss))),
       ov_managed := s64 (m + (\<Sum>s\<leftarrow>ss. int (length (sst_managed (sch_status s)))))\<rparr>"
proof (induction ss arbitrary: a b m)
  case (Cons s ss)
  show ?case
    using Cons [where a = "a + 1" and m = "m + int (length (sst_managed (sch_status s)))"]
      Cons [where b = "b + 1" and m = "m + int (length (sst_managed (sch_status s)))"]
    by (cases r) (simp add: s64_add Let_def add.assoc)
qed simp

lemma count_detectors_closed:
  "count_detectors (r\<lparr>ov_idle := s64 a, ov_scaled := s64 b\<rparr>) ds =
     r\<lparr>ov_idle := s64 (a + (\<Sum>d\<leftarrow>ds. int (length (ist_idle (id_status d))))),
       ov_scaled := s64 (b + (\<Sum>d\<leftarrow>ds. int (length (ist_scaled (id_status d)))))\<rparr>"
proof (induction ds arbitrary: a b)
  case (Cons d ds)
  show ?case
    using Cons [where a = "a + int (length (ist_idle (id_status d)))" and b = "b + int (length (ist_scaled (id_status d)))"]
    by (cases r) (simp add: s64_add add.assoc)
qed simp

lemma count_policies_closed:
  "count_policies (r\<lparr>ov_drained := s64 a\<rparr>) ps =
     r\<lparr>ov_drained := s64 (a + (\<Sum>p\<leftarrow>ps. dst_total_drained (dp_status p)))\<rparr>"
proof (induction ps arbitrary: a)
  case (Cons p ps)
  show ?case
    using Cons [of "a + dst_total_drained (dp_status p)"] by (simp add: s64_add add.assoc)
qed simp

lemmas count_closed =
  count_schedules_closed [where a = 0 and b = 0 and m = 0, unfolded s64_zero add_0]
  count_detectors_closed [where a = 0 and b = 0, unfolded s64_zero add_0]
  count_policies_closed [where a = 0, unfolded s64_zero add_0]

text \<open>
  The overview without the loops: a failed list of detectors or policies leaves its counters at
  zero, a failed list of schedules is the only error.
\<close>

definition or_empty :: "kerr + 'a list \<Rightarrow> 'a list" where
  "or_empty r = (case r of Inl e \<Rightarrow> [] | Inr xs \<Rightarrow> xs)"

lemma overview_closed:
  assumes "rd_schedules rd w = Inr ss"
  shows "handle_overview rd w = Json
     \<lparr>ov_schedules = int (length ss),
      ov_sleeping = s64 (int (length (filter (\<lambda>s. sst_sleeping (sch_status s)) ss))),
      ov_awake = s64 (int (length (filter (\<lambda>s. \<not> sst_sleeping (sch_status s)) ss))),
      ov_managed = s64 (\<Sum>s\<leftarrow>ss. int (length (sst_managed (sch_status s)))),
      ov_detectors = int (length (or_empty (rd_detectors rd w))),
      ov_idle = s64 (\<Sum>d\<leftarrow>or_empty (rd_detectors rd w). int (length (ist_idle (id_status d)))),
      ov_scaled = s64 (\<Sum>d\<leftarrow>or_empty (rd_detectors rd w). int (length (ist_scaled (id_status d)))),
      ov_policies = int (length (or_empty (rd_policies rd w))),
      ov_drained = s64 (\<Sum>p\<leftarrow>or_empty (rd_policies rd w). dst_total_drained (dp_status p))\<rparr>"
proof -
  define r0 where "r0 = \<lparr>ov_schedules = int (length ss), ov_sleeping = 0, ov_awake = 0, ov_managed = 0,
      ov_detectors = 0, ov_idle = 0, ov_scaled = 0, ov_policies = 0, ov_drained = 0\<rparr>"
  define r1 where "r1 = count_schedules r0 ss"
  define r2 where "r2 = count_detectors (r1\<lparr>ov_detectors := int (length (or_empty (rd_detectors rd w)))\<rparr>)
      (or_empty (rd_detectors rd w))"
  have r1: "r1 = r0\<lparr>ov_sleeping := s64 (int (length (filter (\<lambda>s. sst_sleeping (sch_status s)) ss))),
      ov_awake := s64 (int (length (filter (\<lambda>s. \<not> sst_sleeping (sch_status s)) ss))),
      ov_managed := s64 (\<Sum>s\<leftarrow>ss. int (length (sst_managed (sch_status s))))\<rparr>"
    using count_closed(1) [where r = r0 and ss = ss] by (simp add: r1_def r0_def)
  have r2: "r2 = r1\<lparr>ov_detectors := int (length (or_empty (rd_detectors rd w))),
      ov_idle := s64 (\<Sum>d\<leftarrow>or_empty (rd_detectors rd w). int (length (ist_idle (id_status d)))),
      ov_scaled := s64 (\<Sum>d\<leftarrow>or_empty (rd_detectors rd w). int (length (ist_scaled (id_status d))))\<rparr>"
    using count_closed(2) [where r = "r1\<lparr>ov_detectors := int (length (or_empty (rd_detectors rd w)))\<rparr>"
      and ds = "or_empty (rd_detectors rd w)"] by (simp add: r2_def r1 r0_def)
  have h1: "(case rd_detectors rd w of Inl e \<Rightarrow> r1
      | Inr ds \<Rightarrow> count_detectors (r1\<lparr>ov_detectors := int (length ds)\<rparr>) ds) = r2"
    by (simp add: r2_def or_empty_def r1 r0_def split: sum.split)
  have h2: "(case rd_policies rd w of Inl e \<Rightarrow> r2
      | Inr ps \<Rightarrow> count_policies (r2\<lparr>ov_policies := int (length ps)\<rparr>) ps) =
      r2\<lparr>ov_policies := int (length (or_empty (rd_policies rd w))),
         ov_drained := s64 (\<Sum>p\<leftarrow>or_empty (rd_policies rd w). dst_total_drained (dp_status p))\<rparr>"
    using count_closed(3) [where r = "r2\<lparr>ov_policies := int (length (or_empty (rd_policies rd w)))\<rparr>"
      and ps = "or_empty (rd_policies rd w)"]
    by (simp add: or_empty_def r2 r1 r0_def s64_zero split: sum.splits)
  show ?thesis
    unfolding handle_overview_def assms Let_def sum.case r0_def [symmetric] r1_def [symmetric] h1 h2
    by (simp add: r2 r1 r0_def)
qed

text \<open>The sleeping and the awake schedules add up to all of them.\<close>

lemma overview_partition:
  assumes "rd_schedules rd w = Inr ss" "int (length ss) < 2 ^ 63" "handle_overview rd w = Json ov"
  shows "ov_sleeping ov = int (length (filter (\<lambda>s. sst_sleeping (sch_status s)) ss))"
    and "ov_sleeping ov + ov_awake ov = ov_schedules ov"
proof -
  have le: "length (filter P ss) \<le> length ss" for P by simp
  have small: "s64 (int (length (filter P ss))) = int (length (filter P ss))" for P
    using le [of P] assms(2) by (intro s64_id) linarith+
  show "ov_sleeping ov = int (length (filter (\<lambda>s. sst_sleeping (sch_status s)) ss))"
    and "ov_sleeping ov + ov_awake ov = ov_schedules ov"
    using assms(3) sum_length_filter_compl [of "\<lambda>s. sst_sleeping (sch_status s)" ss]
    by (auto simp: overview_closed [OF assms(1)] small)
qed

text \<open>The answers stand in the order of the list and carry the keys of the resources.\<close>

lemma or_utc_nonempty: "or_utc tz \<noteq> []"
  by (simp add: or_utc_def)

lemma schedule_answer_fields:
  "sr_namespace (schedule_answer f s) = sch_namespace s" "sr_name (schedule_answer f s) = sch_name s"
  "sr_sleeping (schedule_answer f s) = sst_sleeping (sch_status s)"
  "sr_managed (schedule_answer f s) = sst_managed (sch_status s)"
  "sr_timezone (schedule_answer f s) \<noteq> []"
  by (simp_all add: schedule_answer_def Let_def or_utc_nonempty split: list.split)

lemma schedules_in_order:
  assumes "handle_schedules f rd w = Json as"
  shows "\<exists>ss. rd_schedules rd w = Inr ss \<and>
     map (\<lambda>a. (sr_namespace a, sr_name a, sr_sleeping a)) as =
     map (\<lambda>s. (sch_namespace s, sch_name s, sst_sleeping (sch_status s))) ss"
  using assms by (auto simp: handle_schedules_def schedule_answer_fields split: sum.splits)

text \<open>Only the first window is shown: two schedules that differ in later ones look the same.\<close>

lemma later_windows_hidden:
  assumes "get_windows (sch_spec s) = win # rest" "get_windows sp = win # rest'"
    and "ss_selector sp = ss_selector (sch_spec s)"
  shows "schedule_answer f (s\<lparr>sch_spec := sp\<rparr>) = schedule_answer f s"
  using assms by (simp add: schedule_answer_def Let_def)

lemma missing_definitions_answer_empty:
  "rd_detectors rd w = Inl e \<Longrightarrow> handle_idle_detectors f rd w = Json []"
  "rd_policies rd w = Inl e \<Longrightarrow> handle_policies f rd w = Json []"
  by (simp_all add: handle_idle_detectors_def handle_policies_def)

end
