(* ===== verification/Spec2Isabelle.thy ===== *)
theory Spec2Isabelle
  imports Sleep_Night Deep_Copy Bin_Packer Node_Drain Startup Dashboard
begin

text \<open>
  A verification development for slumlord, a Kubernetes operator that puts workloads to sleep
  outside working hours and packs or drains underutilised nodes.

  \<^bold>\<open>The program.\<close> Five controllers share one cluster through the API server; none
  calls another. Each is a \<open>Reconcile\<close> function that reads its custom resource, acts on the cluster,
  writes the status of the resource and answers when it wants to run again. The sleep controller
  scales, suspends or hibernates the workloads a schedule selects while one of its windows is
  open, keeps their old values in the status, and restores them afterwards. The auto-schedule
  controller generates such schedules, one for each namespace a policy matches. The idle detector
  watches the usage of workloads and scales them down or lowers the requests of their pods. The bin
  packer evicts pods of underutilised nodes for which it finds room elsewhere, and the node drain
  controller cordons and drains such nodes when a cron tick is due. A read-only dashboard shows
  the statuses.

  \<^bold>\<open>How the model is made.\<close> A Go struct is a record with its pointer fields as options,
  one definition stands for one function or loop body, in the order of the source, and an error
  of the client is a value of \<open>kerr\<close>. Every controller runs over a record of client functions on
  an arbitrary cluster state \<open>'w\<close>: a read takes the state, a write returns a new one, and any
  call may fail with any error. So a theorem without a hypothesis on the client holds for every
  API server, one with the laws of \<open>api_store\<close>, \<open>idle_api\<close> or \<open>schedule_api\<close> for every server that
  keeps them, and each set of laws is shown to hold of a server in memory. The laws describe one
  controller at a time: between two of its calls nobody else writes.

  \<^bold>\<open>The theories.\<close>

  \<^item> \<open>Slumlord_Prelude\<close>: errors, fixed-width integers, decimal numerals, runs over lists.

  \<^item> \<open>Go_Time\<close>, \<open>Go_Text\<close>, \<open>Go_Flags\<close>: what the code uses of Go's libraries: instants, calendar and
    \<open>time.Date\<close> in a zone given as a function from instants to offsets; \<open>path.Match\<close>,
    \<open>time.ParseDuration\<close> and float64 arithmetic with rounding to nearest even; \<open>ParseBool\<close> and the
    loop of package \<open>flag\<close>.

  \<^item> \<open>Api_Types\<close>: the sleep schedule of \<open>api/v1alpha1/sleepschedule_types.go\<close>. The types of
    the other resources stand in the theory of their controller.

  \<^item> \<open>Sleep_Window\<close>: \<open>shouldBeSleepingAt\<close> and the bin packer's \<open>isInConsolidationWindow\<close>. A
    schedule sleeps exactly inside the occurrences of its windows, and both tests agree.

  \<^item> \<open>Days_Display\<close>: \<open>daysToDisplay\<close> and \<open>aggregateDaysDisplay\<close>; the displayed ranges are
    read back to the days.

  \<^item> \<open>Kube_Client\<close>, \<open>Kube_Api\<close>: typed and unstructured objects, the client of the workload
    controllers, the laws of a server, and a server in memory that has them.

  \<^item> \<open>Json_Counts\<close>, \<open>Workloads\<close>: how one object of each of the thirteen kinds is put to sleep and
    woken. The locale \<open>workload_handler\<close> says what a kind owes: restoring the recorded entry gives back
    the object. Every kind is an interpretation of it.

  \<^item> \<open>Sleep_Ops\<close>: \<open>sleepWorkloads\<close>, \<open>wakeWorkloads\<close>, \<open>verifyAndCorrectWorkloads\<close>. The repeated
    blocks of the source are rows of a table, in the order of the source.

  \<^item> \<open>Sleep_Trace\<close>, \<open>Sleep_Restore\<close>: what a sleep or wake run sends, in which order, what is
    recorded, and that a wake undoes a sleep, also one that stopped at an error.

  \<^item> \<open>Sleep_Reconcile\<close>: \<open>Reconcile\<close> of the sleep controller and the requeue intervals.

  \<^item> \<open>Sleep_Life\<close>: the life of a schedule as the inductive relation \<open>sched_life\<close>: reconciles at any
    instants, failing ones among them, and edits in between. Its invariant is that every object not in
    its original state is recorded, and that an awake schedule has none. The locale \<open>repeatable_handler\<close>
    says what a kind owes for that: a wake may be repeated.

  \<^item> \<open>Sleep_Night\<close>: runs of reconciles over a window. With an interval of at most ten minutes a transition
    comes within 30 seconds of its time plus the delay of the queue; the inductive relation \<open>night\<close>
    keeps what was put to sleep down until the window ends; and a window that opens within ten
    minutes of the end of another one is lost.

  \<^item> \<open>Go_Memory\<close>, \<open>Deep_Copy\<close>: Go values with their references in a memory of cells, and
    \<open>api/v1alpha1/zz_generated.deepcopy.go\<close>: the API structs with the functions that copy them. The other
    theories keep values, which is sound for objects copied deeply.

  \<^item> \<open>Kube_Nodes\<close>, \<open>Bin_Packer\<close>, \<open>Node_Drain\<close>: pods, nodes and requests, with what the analyses of
    the two controllers share as the locale \<open>node_analysis\<close>; the consolidation plan, its safety
    and its budgets; the cron test, the drain of a node with its waiting loop, and the order of
    its calls.

  \<^item> \<open>Auto_Schedule\<close>: the policy controller. The locale \<open>schedule_api\<close> views the server as a map from keys
    to schedules, and a successful reconcile refines an update of that map.

  \<^item> \<open>Idle_Detect\<close>, \<open>Idle_Scale\<close>, \<open>Idle_Resize\<close>, \<open>Idle_Reconcile\<close>: detection and verdict;
    scaling down and restoring, with the locale \<open>idle_api\<close>; resizing; and the reconciler with the life
    of a detector as the inductive relation \<open>idle_life\<close>, under whose invariant every scaled
    workload is restored before the detector goes.

  \<^item> \<open>Idle_Cluster\<close>: a cluster in memory for the detector, the interpretation of \<open>idle_api\<close> on it,
    and example runs, two of which show a fault.

  \<^item> \<open>Watches\<close>: the \<open>SetupWithManager\<close> functions, and that the watches of the policy controller miss no
    event that changes what a policy stands for, with one exception. The locale \<open>event_source\<close> holds the
    documented behaviour of the library.

  \<^item> \<open>Startup\<close>: \<open>cmd/main.go\<close>: flags, and the start as a trace of the calls that may fail. A detector
    that was set up without metrics client changes nothing.

  \<^item> \<open>Dashboard\<close>: the handlers of \<open>internal/dashboard/dashboard.go\<close>; the overview as closed sums.

  \<^item> This theory: what holds between the policy controller and the sleep controller. Through the locale
    \<open>schedule_link\<close> a policy decides when the workloads of a namespace sleep.

  \<^bold>\<open>Bounds and termination.\<close> Integers that the code keeps in \<open>int32\<close> or \<open>int64\<close> wrap by
  \<open>s32\<close> and \<open>s64\<close>; quantities of resources are exact, counted in billionths, as
  \<open>resource.Quantity\<close> is arbitrarily precise. The search for the next transition
  looks at the 1440 minutes of a day and ends by a measure. The wait for a drained node may
  run for ever when the clock stands still, so it is a \<open>partial_function\<close> into options, and that it
  returns is a theorem under a clock that moves. The floating-point verdict is compared with
  exact arithmetic for usages below \<open>2^53\<close> (millicores or bytes), where the conversions to float64
  are exact, and requests below \<open>2^44\<close> (16 TiB), where a percentage that is not an integer
  stays on its side of the threshold after both roundings; the theorem names the three percentages
  at which the two differ. \<open>parse_duration\<close> is defined on the
  texts that the validation pattern of \<open>idleDuration\<close> admits, where it agrees with the full
  \<open>go_parse_duration\<close> of the command line.

  \<^bold>\<open>Parameters.\<close> Code outside the repository is an argument of the definitions: the
  client and its clock, the time zone database, the cron parser, \<open>LabelSelectorAsSelector\<close>,
  \<open>sort.Slice\<close>, \<open>meta.SetStatusCondition\<close>, the texts of \<open>%q\<close> and RFC 3339, the iteration order of
  Go maps, float conversions out of range, which Go leaves open, the copies of structs of other
  packages, the delivery of events, and the calls of the start with the flags of the libraries.

  \<^bold>\<open>Not modelled.\<close> The registration of the API types with the scheme (\<open>init\<close>,
  \<open>groupversion_info.go\<close>) and the constructors in \<open>main\<close> are calls into libraries that keep no state of the
  program. Logging is left out, and metrics are kept only as effects of the sleep reconciler. The
  dashboard is modelled up to the value sent as JSON; its HTTP server, static files and encoder are
  library calls. Concurrent writers are not modelled beyond the errors they cause. Outside \<open>Deep_Copy\<close>
  nil and empty slices are one value, and values are never shared.
\<close>

section \<open>Policies, schedules and workloads\<close>

text \<open>
  Both controllers see the same schedules: where the server has none, the read of the sleep
  controller answers that it is not found.
\<close>

definition same_schedules :: "('w \<Rightarrow> schedules) \<Rightarrow> 'w kube \<Rightarrow> bool" where
  "same_schedules view c \<longleftrightarrow> (\<forall>w ns n. view w (ns, n) = None \<longrightarrow> k_get_sched c ns n w = Inl ErrNotFound)"

lemma missing_schedule_does_nothing:
  "k_get_sched c ns n w = Inl ErrNotFound \<Longrightarrow>
   reconcile fc load pick set_cond dflt c now ts ns n w = (Done 0 None, [DropGauge ns n], w)"
  by (simp add: reconcile_def ignore_not_found_def is_not_found_def)

text \<open>
  C22: Deleting a policy strands what its schedules have put to sleep. The reconcile of the
  deleted policy removes each of its schedules with the record of the scaled workloads, and the
  reconcile of the sleep controller that follows finds no schedule: it ends without error and
  without a call that changes anything, so that the workloads stay at zero.
\<close>

theorem deleted_policy_strands_sleepers:
  assumes "schedule_api ca view" "same_schedules view c"
    and "ak_get_policy ca name w = Inr p" "au_deleting p" "au_finalizer p"
    and "auto_reconcile quote as_sel dflt ca now name w = (Done d None, w1)"
    and "is_managed (au_name p) (view w (ns, n))"
  shows "reconcile fc load pick set_cond dflt2 c now2 ts ns n w1 = (Done 0 None, [DropGauge ns n], w1)"
proof -
  have "view w1 (ns, n) = None" using policy_deletion_view [OF assms(1,3-6)] assms(7) by simp
  then have "k_get_sched c ns n w1 = Inl ErrNotFound" using assms(2) unfolding same_schedules_def by blast
  then show ?thesis by (rule missing_schedule_does_nothing)
qed

text \<open>The sleep controller's view of the cluster of the policy examples, which has no workloads.\<close>

definition office_sleep_kube :: "mem_auto kube" where
  "office_sleep_kube =
     \<lparr>k_get = (\<lambda>g ns n w. Inl ErrNotFound), k_list = (\<lambda>g ns sel w. Inr []),
      k_update = (\<lambda>x w. (Some ErrNotFound, w)),
      k_get_sched = (\<lambda>ns n w. case mem_find (ns, n) w of None \<Rightarrow> Inl ErrNotFound | Some s \<Rightarrow> Inr s),
      k_update_status = (\<lambda>s w. if mem_find (schedule_key s) w = None then (Inl ErrNotFound, w)
                              else (Inr (stored s), mem_put (stored s) w))\<rparr>"

theorem deleted_policy_strands_sleepers_witness:
  "mem_view (office_cluster True) (''shared'', ''auto-sleep'') \<noteq> None \<and>
   reconcile (\<lambda>_ _. 0) (\<lambda>_. None) sorted_list_of_set (\<lambda>cs c. c # cs) 0 office_sleep_kube 0 0 ''shared'' ''auto-sleep''
     (snd (office_run True)) = (Done 0 None, [DropGauge ''shared'' ''auto-sleep''], snd (office_run True))"
proof -
  have run: "auto_reconcile (\<lambda>s. s) exists_sel 0 mem_auto_kube 0 ''p'' (office_cluster True) =
      (Done 0 None, snd (office_run True))"
    using office_runs(2) unfolding office_run_def by (metis prod.collapse)
  have same: "same_schedules mem_view office_sleep_kube"
    by (auto simp: same_schedules_def office_sleep_kube_def mem_view_def)
  have v: "mem_view (office_cluster True) (''shared'', ''auto-sleep'') =
      Some ([(managed_by_label, ''p'')], build_sleep_schedule_spec office_profile)"
    by (simp add: mem_view_def mem_find_def office_cluster_def new_schedule_def schedule_key_def resolved_generated_name_def
        auto_policy_of_def)
  show ?thesis
    using deleted_policy_strands_sleepers [OF mem.schedule_api_axioms same office_facts(1) _ _ run] v
    by (simp add: auto_policy_of_def is_managed_def gget_def)
qed

section \<open>From a policy to sleeping workloads\<close>

text \<open>What the sleep controller reads is what the policy controller wrote.\<close>

locale schedule_link =
  fixes view :: "'w \<Rightarrow> schedules" and c :: "'w kube"
  assumes present: "view w (ns, n) = Some (ls, sp) \<Longrightarrow> \<exists>s. k_get_sched c ns n w = Inr s \<and> sch_spec s = sp"
begin

text \<open>The sleep controller stores what the windows of the specification in the view demand.\<close>

lemma flag_from_view:
  assumes laws: "api_sched c" "api_status c" and view: "view w (ns, n) = Some (ls, sp)"
    and spec: "\<not> ss_suspend sp" "get_windows sp \<noteq> []"
    and run: "reconcile fc load pick set_cond dflt c now ts ns n w = (Done d None, fx, w')"
  shows "\<exists>s. k_get_sched c ns n w' = Inr s \<and> sst_sleeping (sch_status s) = should_be_sleeping_at load sp now"
proof -
  from present [OF view] obtain sch where get: "k_get_sched c ns n w = Inr sch" and sp: "sch_spec sch = sp" by blast
  from api_schedD(1) [OF laws(1) get] have key: "sch_namespace sch = ns" "sch_name sch = n" by simp_all
  with get have pre: "flag_stored c sch w" by (simp add: flag_stored_def)
  from run get spec sp obtain days where
    "reconcile_active fc load set_cond dflt c now ts days sch w = (Done d None, fx, w')"
    by (auto simp: reconcile_def Let_def split: option.splits)
  from reconcile_active_success [OF laws pre this] key sp show ?thesis by auto
qed

end

text \<open>
  C21: A policy decides when a namespace sleeps. After a successful reconcile of an active policy,
  the next successful reconcile of the sleep controller for the generated schedule stores the flag
  that the windows of the profile demand at its instant: in every namespace that matches, that no other
  policy matches, whose label names the profile, and where no manual schedule has the
  name and nobody has added a single window to the generated one.
\<close>

theorem policy_decides_sleep:
  assumes api: "schedule_api ca view" and link: "schedule_link view c" "api_sched c" "api_status c"
    and policy: "ak_get_policy ca name w = Inr p" "\<not> au_deleting p" "au_finalizer p" "\<not> aus_suspend (au_spec p)"
    and lists: "ak_namespaces ca w = Inr nss" "distinct (map kn_name nss)" "ak_policies ca w = Inr ps"
    and ns: "ns \<in> set nss" "namespace_matches_policy as_sel p ns = Some True"
      "overlapping_policies as_sel (other_policies (au_name p) ps) ns = []"
    and profile: "map_of (aus_profiles (au_spec p)) (gget (kn_labels ns) (resolved_profile_label p)) = Some pr"
      "\<not> ap_suspend pr" "ap_schedules pr \<noteq> []"
    and place: "view w (kn_name ns, resolved_generated_name p) = None \<or>
      (\<exists>ls sp. view w (kn_name ns, resolved_generated_name p) = Some (ls, sp) \<and>
         gget ls managed_by_label = au_name p \<and> ss_schedule sp = None)"
    and generate: "auto_reconcile quote as_sel dflt ca now name w = (Done d None, w1)"
    and sleep: "reconcile fc load pick set_cond dflt2 c now2 ts (kn_name ns) (resolved_generated_name p) w1 =
      (Done d2 None, fx, w2)"
  shows "\<exists>s. k_get_sched c (kn_name ns) (resolved_generated_name p) w2 = Inr s \<and>
    sst_sleeping (sch_status s) = list_ex (\<lambda>win. should_be_sleeping_at_window load win now2) (ap_schedules pr)"
proof -
  have "auto_active quote as_sel dflt ca now p w = (Done d None, w1)"
    using policy generate by (simp add: auto_reconcile_def)
  with auto_active_view [OF api policy(4) lists] obtain matched where
    m: "matched_namespaces as_sel p nss = Some matched"
    and v: "view w1 = target_schedules p (wanted as_sel p (other_policies (au_name p) ps) matched) (view w)" by blast
  have "wanted as_sel p (other_policies (au_name p) ps) matched (kn_name ns) = Some pr"
    by (rule wanted_matched [OF matched_namespaces_eq [OF m] lists(2) ns profile(1)])
  then have "view w1 (kn_name ns, resolved_generated_name p) =
      synced p pr (view w (kn_name ns, resolved_generated_name p))"
    by (simp add: v target_schedules_at)
  with synced_windows [OF place] obtain ls sp where
    view1: "view w1 (kn_name ns, resolved_generated_name p) = Some (ls, sp)"
    and sp: "ss_suspend sp = ap_suspend pr" "get_windows sp = ap_schedules pr" by metis
  from schedule_link.flag_from_view [OF link view1 _ _ sleep] profile(2,3) sp
  show ?thesis by (simp add: should_be_sleeping_at_def)
qed

interpretation office: schedule_link mem_view office_sleep_kube
  by unfold_locales (auto simp: mem_view_def office_sleep_kube_def split: option.splits)

lemma office_laws: "api_sched office_sleep_kube" "api_status office_sleep_kube"
  by (auto simp: api_sched_def api_status_def office_sleep_kube_def mem_find_def mem_put_def schedule_key_def
      find_Some_iff split: option.splits if_splits)

text \<open>The policy generates a schedule in \<open>dev\<close>, whose next reconcile is at 05:55.\<close>

theorem policy_decides_sleep_witness:
  "mem_view (office_cluster False) (''dev'', ''auto-sleep'') = None \<and>
   (\<exists>s. k_get_sched office_sleep_kube ''dev'' ''auto-sleep''
      (snd (snd (reconcile (\<lambda>_ _. 0) (\<lambda>_. None) sorted_list_of_set (\<lambda>cs c. c # cs) 0 office_sleep_kube at_0555 at_0555
        ''dev'' ''auto-sleep'' (snd (office_run False))))) = Inr s \<and> sst_sleeping (sch_status s))"
proof -
  let ?sleep = "reconcile (\<lambda>_ _. 0) (\<lambda>_. None) sorted_list_of_set (\<lambda>cs c. c # cs) 0 office_sleep_kube at_0555 at_0555
    ''dev'' ''auto-sleep'' (snd (office_run False))"
  let ?dev = "\<lparr>kn_name = ''dev'', kn_labels = [(''slumlord.io/sleep-profile'', ''office'')]\<rparr>"
  have gen: "auto_reconcile (\<lambda>s. s) exists_sel 0 mem_auto_kube 0 ''p'' (office_cluster False) =
      (Done (5 * minute) None, snd (office_run False))"
    using office_runs(1) unfolding office_run_def by (metis prod.collapse)
  have "fst ?sleep = Done (5 * minute) None" by code_simp
  then obtain fx w2 where sleep: "?sleep = (Done (5 * minute) None, fx, w2)" by (cases ?sleep) auto
  have none: "mem_view (office_cluster False) (''dev'', ''auto-sleep'') = None" by code_simp
  have night: "list_ex (\<lambda>win. should_be_sleeping_at_window (\<lambda>_. None) win at_0555) (ap_schedules office_profile)"
    by code_simp
  have match: "namespace_matches_policy exists_sel (auto_policy_of ''p'' [] False) ?dev = Some True"
    "overlapping_policies exists_sel (other_policies ''p'' (ma_policies (office_cluster False))) ?dev = []"
    by code_simp+
  have name: "resolved_generated_name (auto_policy_of ''p'' [] False) = ''auto-sleep''"
    "au_name (auto_policy_of ''p'' [] False) = ''p''" "?dev \<in> set (ma_namespaces (office_cluster False))"
    by (simp_all add: resolved_generated_name_def auto_policy_of_def office_cluster_def)
  have "map_of (aus_profiles (au_spec (auto_policy_of ''p'' [] False)))
      (gget (kn_labels ?dev) (resolved_profile_label (auto_policy_of ''p'' [] False))) = Some office_profile"
    by (simp add: auto_policy_of_def resolved_profile_label_def gget_def)
  note facts = this
  have "\<exists>s. k_get_sched office_sleep_kube (kn_name ?dev) (resolved_generated_name (auto_policy_of ''p'' [] False)) w2 = Inr s \<and>
      sst_sleeping (sch_status s) =
        list_ex (\<lambda>win. should_be_sleeping_at_window (\<lambda>_. None) win at_0555) (ap_schedules office_profile)"
  proof (rule policy_decides_sleep [OF mem.schedule_api_axioms office.schedule_link_axioms office_laws office_facts(1) _ _ _
        office_facts(2,3,4) name(3) match(1) _ facts _ _ _ gen])
    show "\<not> ap_suspend office_profile" "ap_schedules office_profile \<noteq> []" by (simp_all add: office_profile_def)
    show "reconcile (\<lambda>_ _. 0) (\<lambda>_. None) sorted_list_of_set (\<lambda>cs c. c # cs) 0 office_sleep_kube at_0555 at_0555 (kn_name ?dev)
        (resolved_generated_name (auto_policy_of ''p'' [] False)) (snd (office_run False)) =
        (Done (5 * minute) None, fx, w2)"
      using sleep by (simp add: name(1))
  qed (use none match(2) name(1,2) in \<open>simp_all add: auto_policy_of_def\<close>)
  then show ?thesis using none night sleep name(1) by simp
qed

section \<open>Name patterns\<close>

definition with_names :: "string list \<Rightarrow> memory \<Rightarrow> memory" where
  "with_names ns w =
     w\<lparr>mem_schedules := map (\<lambda>s. s\<lparr>sch_spec := (sch_spec s)
         \<lparr>ss_selector := (ss_selector (sch_spec s))\<lparr>wsel_names := ns\<rparr>\<rparr>\<rparr>) (mem_schedules w)\<rparr>"


end
